(* ===== verification/Prelude.thy ===== *)
theory Prelude
  imports Main "HOL-Library.Word" "HOL-Library.Sublist" "HOL-Library.Monad_Syntax"
begin

text \<open>
  Shared ground of the development: the collections the component theories fill, the types that
  stand for Go's own (byte strings, durations, instants) and the generic lemmas on association
  lists, options and list tails that several components use.

  A Go \<open>map\<close> is an association list whose order is the order in which one particular
  \<open>range\<close> loop would visit it. Go leaves that order open, so a statement about such a list,
  holding for every list with the same entries, covers every run.
\<close>

named_theorems step_defs \<open>unfolding rules of the atomic sections of the code\<close>
named_theorems inv_intros \<open>introduction rules for the invariants of the components\<close>

type_synonym bytes = string
type_synonym duration = int \<comment> \<open>nanoseconds, as \<open>time.Duration\<close>\<close>
type_synonym instant = int \<comment> \<open>nanoseconds on the clock the code reads\<close>

definition millisecond :: duration where
  "millisecond = 1000000"

definition second :: duration where
  "second = 1000 * millisecond"

lemma second_eq [simp]: "second = 1000000000"
  by (simp add: second_def millisecond_def)

definition int64_max :: int where
  "int64_max = 2 ^ 63 - 1"

definition int64_min :: int where
  "int64_min = - (2 ^ 63)"

text \<open>Products of an \<open>int64\<close> or a duration wrap at 64 bits.\<close>

definition wrap64 :: "int \<Rightarrow> int" where
  "wrap64 x = (x + 2 ^ 63) mod 2 ^ 64 - 2 ^ 63"

lemma wrap64_id: "int64_min \<le> x \<Longrightarrow> x \<le> int64_max \<Longrightarrow> wrap64 x = x"
  by (simp add: wrap64_def int64_min_def int64_max_def)

lemma option_eqI: "(\<And>x. a = Some x \<longleftrightarrow> b = Some x) \<Longrightarrow> a = b"
  by (metis not_Some_eq)

section \<open>Maps as association lists\<close>

text \<open>\<open>m[k] = v\<close>: an entry that exists keeps its place, a new one is appended.\<close>

fun map_put :: "'k \<Rightarrow> 'v \<Rightarrow> ('k \<times> 'v) list \<Rightarrow> ('k \<times> 'v) list" where
  "map_put k v [] = [(k, v)]"
| "map_put k v ((k', v') # m) = (if k = k' then (k, v) # m else (k', v') # map_put k v m)"

text \<open>\<open>delete(m, k)\<close>.\<close>

definition map_del :: "'k \<Rightarrow> ('k \<times> 'v) list \<Rightarrow> ('k \<times> 'v) list" where
  "map_del k m = filter (\<lambda>e. fst e \<noteq> k) m"

definition keys :: "('k \<times> 'v) list \<Rightarrow> 'k list" where
  "keys m = map fst m"

lemma keys_simps [simp]:
  "keys [] = []" "keys (e # m) = fst e # keys m" "keys (m @ m') = keys m @ keys m'"
  by (simp_all add: keys_def)

lemma map_of_map_put [simp]: "map_of (map_put k v m) = (map_of m)(k \<mapsto> v)"
  by (induction m) (auto simp: fun_eq_iff)

lemma map_of_map_del [simp]: "map_of (map_del k m) = (map_of m)(k := None)"
  by (induction m) (auto simp: map_del_def fun_eq_iff)

lemma map_of_eq_None_keys: "map_of m k = None \<longleftrightarrow> k \<notin> set (keys m)"
  by (simp add: keys_def map_of_eq_None_iff)

lemma map_of_Some_keys: "map_of m k = Some v \<Longrightarrow> k \<in> set (keys m)"
  by (metis map_of_eq_None_keys option.distinct(1))

lemma keys_map_del: "keys (map_del k m) = filter (\<lambda>k'. k' \<noteq> k) (keys m)"
  by (induction m) (auto simp: map_del_def)

lemma set_keys_map_put: "set (keys (map_put k v m)) = insert k (set (keys m))"
  by (induction k v m rule: map_put.induct) (simp_all add: insert_commute)

lemma keys_map_put_new: "k \<notin> set (keys m) \<Longrightarrow> map_put k v m = m @ [(k, v)]"
  by (induction m) auto

lemma distinct_keys_map_put [inv_intros]: "distinct (keys m) \<Longrightarrow> distinct (keys (map_put k v m))"
  by (induction m) (auto simp: set_keys_map_put)

lemma distinct_keys_map_del [inv_intros]: "distinct (keys m) \<Longrightarrow> distinct (keys (map_del k m))"
  by (simp add: keys_map_del)

lemma map_of_in_set: "distinct (keys m) \<Longrightarrow> (k, v) \<in> set m \<longleftrightarrow> map_of m k = Some v"
  unfolding keys_def by (metis map_of_SomeD map_of_is_SomeI)

lemma map_put_map_put [simp]: "map_put k v (map_put k w m) = map_put k v m"
  by (induction m) auto

lemma keys_map_values [simp]: "keys (map (\<lambda>(k, v). (k, f k v)) m) = keys m"
  by (simp add: keys_def comp_def case_prod_unfold)

lemma map_of_map_values: "map_of (map (\<lambda>(k, v). (k, f k v)) m) k = map_option (f k) (map_of m k)"
  by (induction m) auto

lemma set_map_put_cases: "(k', v') \<in> set (map_put k v m) \<Longrightarrow> (k', v') = (k, v) \<or> (k', v') \<in> set m"
  by (induction k v m rule: map_put.induct) (auto split: if_splits)

lemma length_map_put:
  "length (map_put k v m) = (if k \<in> set (keys m) then length m else Suc (length m))"
  by (induction m) auto

section \<open>The tail of a list\<close>

text \<open>The last \<open>n\<close> elements, all of them when there are fewer.\<close>

definition last_n :: "nat \<Rightarrow> 'a list \<Rightarrow> 'a list" where
  "last_n n xs = drop (length xs - n) xs"

lemma length_last_n [simp]: "length (last_n n xs) = min n (length xs)"
  by (simp add: last_n_def)

lemma last_n_all: "length xs \<le> n \<Longrightarrow> last_n n xs = xs"
  by (simp add: last_n_def)

lemma last_n_append_long: "n \<le> length ys \<Longrightarrow> last_n n (xs @ ys) = last_n n ys"
  by (simp add: last_n_def)

lemma last_n_append: "last_n n (last_n n xs @ ys) = last_n n (xs @ ys)"
  by (cases "length xs \<le> n") (auto simp: last_n_def add.commute)

section \<open>Subsequences\<close>

lemma subseq_append_take: "subseq (xs @ take n ys) (xs @ ys)"
  by (metis prefix_imp_subseq subseq_append' take_is_prefix)

end
