(* ===== verification/Go_Errors.thy ===== *)
theory Go_Errors
  imports Prelude
begin

text \<open>
  Go's \<open>error\<close> values. An error is a sentinel made once by \<open>errors.New\<close> and compared by
  identity, an error of some other package known by its text only, or the result of
  \<open>fmt.Errorf\<close> with \<open>%w\<close>: its formatted text and the errors it wraps. A nil error is \<open>None\<close>.
\<close>

datatype sentinel =
    ErrCredentialsExpired
  | ErrTargetNotConnected
  | Canceled \<comment> \<open>\<open>context.Canceled\<close>\<close>
  | DeadlineExceeded \<comment> \<open>\<open>context.DeadlineExceeded\<close>\<close>

datatype go_error =
    Sentinel sentinel
  | Opaque string
  | Wrapped string "go_error list"

fun sentinel_text :: "sentinel \<Rightarrow> string" where
  "sentinel_text ErrCredentialsExpired = ''aws credentials expired''"
| "sentinel_text ErrTargetNotConnected = ''aws ssm target not connected''"
| "sentinel_text Canceled = ''context canceled''"
| "sentinel_text DeadlineExceeded = ''context deadline exceeded''"

fun error_text :: "go_error \<Rightarrow> string" where
  "error_text (Sentinel s) = sentinel_text s"
| "error_text (Opaque t) = t"
| "error_text (Wrapped t es) = t"

text \<open>\<open>errors.Is\<close>: the target is somewhere in the tree of wrapped errors.\<close>

fun errors_Is :: "go_error \<Rightarrow> sentinel \<Rightarrow> bool" where
  "errors_Is (Sentinel s) t = (s = t)"
| "errors_Is (Opaque _) t = False"
| "errors_Is (Wrapped _ es) t = list_ex (\<lambda>e. errors_Is e t) es"

definition error_Is :: "go_error option \<Rightarrow> sentinel \<Rightarrow> bool" where
  "error_Is err t = (case err of None \<Rightarrow> False | Some e \<Rightarrow> errors_Is e t)"

lemma error_Is_simps [simp]:
  "\<not> error_Is None t" "error_Is (Some e) t = errors_Is e t"
  by (simp_all add: error_Is_def)

text \<open>\<open>fmt.Errorf("prefix: %w", err)\<close>.\<close>

definition Errorf_w :: "string \<Rightarrow> go_error \<Rightarrow> go_error" where
  "Errorf_w pre e = Wrapped (pre @ '': '' @ error_text e) [e]"

text \<open>\<open>fmt.Errorf("%w: %w", e, e')\<close>.\<close>

definition Errorf_ww :: "go_error \<Rightarrow> go_error \<Rightarrow> go_error" where
  "Errorf_ww e e' = Wrapped (error_text e @ '': '' @ error_text e') [e, e']"

text \<open>\<open>fmt.Errorf("%w: %s", e, s)\<close>: only the first is wrapped.\<close>

definition Errorf_ws :: "go_error \<Rightarrow> string \<Rightarrow> go_error" where
  "Errorf_ws e s = Wrapped (error_text e @ '': '' @ s) [e]"

lemma errors_Is_Errorf [simp]:
  "errors_Is (Errorf_w pre e) t = errors_Is e t"
  "errors_Is (Errorf_ww e e') t = (errors_Is e t \<or> errors_Is e' t)"
  "errors_Is (Errorf_ws e s) t = errors_Is e t"
  by (simp_all add: Errorf_w_def Errorf_ww_def Errorf_ws_def)

lemma error_text_Errorf [simp]:
  "error_text (Errorf_w pre e) = pre @ '': '' @ error_text e"
  "error_text (Errorf_ww e e') = error_text e @ '': '' @ error_text e'"
  "error_text (Errorf_ws e s) = error_text e @ '': '' @ s"
  by (simp_all add: Errorf_w_def Errorf_ww_def Errorf_ws_def)

end
