(* ===== verification/Go_Strings.thy ===== *)
theory Go_Strings
  imports Prelude
begin

text \<open>
  The parts of Go's \<open>strings\<close>, \<open>bytes\<close> and \<open>strconv\<close> the program uses, on byte strings: one
  \<open>char\<close> is one byte. Text of the source outside ASCII is written as its UTF-8 bytes.

  Go's table of lower-case letters outside ASCII is the parameter \<open>ulower\<close>: it takes the UTF-8
  bytes of one rune to those of its lower-case form. How \<open>strings.ToLower\<close> walks the bytes,
  including what it does with bytes that are not UTF-8, is written out, because code that mixes
  indices into the lowered and the original text depends on it.
\<close>

section \<open>Searching\<close>

fun HasPrefix :: "string \<Rightarrow> string \<Rightarrow> bool" where
  "HasPrefix s [] = True"
| "HasPrefix [] (p # ps) = False"
| "HasPrefix (c # s) (p # ps) = (c = p \<and> HasPrefix s ps)"

lemma HasPrefix_iff: "HasPrefix s p \<longleftrightarrow> prefix p s"
  by (induction s p rule: HasPrefix.induct) auto

fun Index :: "string \<Rightarrow> string \<Rightarrow> nat option" where
  "Index [] sub = (if sub = [] then Some 0 else None)"
| "Index (c # s) sub =
     (if HasPrefix (c # s) sub then Some 0 else map_option Suc (Index s sub))"

definition Contains :: "string \<Rightarrow> string \<Rightarrow> bool" where
  "Contains s sub = (Index s sub \<noteq> None)"

lemma Index_Some:
  "Index s sub = Some i \<Longrightarrow> i + length sub \<le> length s \<and> take (length sub) (drop i s) = sub"
proof (induction s sub arbitrary: i rule: Index.induct)
  case (2 c s sub)
  show ?case
  proof (cases "HasPrefix (c # s) sub")
    case True
    with "2.prems" have "i = 0" and "prefix sub (c # s)" by (auto simp: HasPrefix_iff)
    then show ?thesis
      by (metis add_0 append_eq_conv_conj drop0 prefix_def prefix_length_le)
  next
    case False
    with 2 show ?thesis by auto
  qed
qed (auto split: if_splits)

lemma Contains_iff: "Contains s sub \<longleftrightarrow> sublist sub s"
proof (induction s sub rule: Index.induct)
  case (1 sub)
  then show ?case by (simp add: Contains_def)
next
  case (2 c s sub)
  then show ?case
    by (cases "HasPrefix (c # s) sub") (auto simp: Contains_def HasPrefix_iff sublist_Cons_right)
qed

lemma Index_None_iff: "Index s sub = None \<longleftrightarrow> \<not> sublist sub s"
  using Contains_iff [of s sub] unfolding Contains_def by blast

fun IndexByte :: "string \<Rightarrow> char \<Rightarrow> nat option" where
  "IndexByte [] c = None"
| "IndexByte (d # s) c = (if d = c then Some 0 else map_option Suc (IndexByte s c))"

text \<open>\<open>strings.LastIndexByte(s, c) + 1\<close>: 0 when the byte is absent.\<close>

fun LastIndexByte_Suc :: "string \<Rightarrow> char \<Rightarrow> nat" where
  "LastIndexByte_Suc [] c = 0"
| "LastIndexByte_Suc (d # s) c =
     (case LastIndexByte_Suc s c of
        0 \<Rightarrow> if d = c then 1 else 0
      | Suc i \<Rightarrow> Suc (Suc i))"

lemma IndexByte_Some:
  "IndexByte s c = Some i \<Longrightarrow> i < length s \<and> s ! i = c \<and> c \<notin> set (take i s)"
proof (induction s arbitrary: i)
  case (Cons d s)
  then show ?case by (cases i) (auto split: if_splits)
qed simp

lemma IndexByte_None: "IndexByte s c = None \<longleftrightarrow> c \<notin> set s"
  by (induction s) auto

lemma LastIndexByte_Suc_bound: "LastIndexByte_Suc s c \<le> length s"
  by (induction s) (auto split: nat.splits)

lemma LastIndexByte_Suc_0: "LastIndexByte_Suc s c = 0 \<longleftrightarrow> c \<notin> set s"
  by (induction s) (auto split: nat.splits)

lemma LastIndexByte_Suc_drop: "c \<notin> set (drop (LastIndexByte_Suc s c) s)"
  by (induction s) (auto split: nat.splits simp: LastIndexByte_Suc_0)

lemma LastIndexByte_Suc_nth:
  "LastIndexByte_Suc s c = Suc i \<Longrightarrow> i < length s \<and> s ! i = c"
proof (induction s arbitrary: i)
  case (Cons d s)
  then show ?case by (cases "LastIndexByte_Suc s c") (auto split: if_splits)
qed simp

lemma LastIndexByte_Suc_append: "c \<notin> set p \<Longrightarrow> LastIndexByte_Suc (h @ c # p) c = Suc (length h)"
  using LastIndexByte_Suc_0 [of p c] by (induction h) auto

lemma IndexByte_append: "c \<notin> set b \<Longrightarrow> IndexByte (b @ c # a) c = Some (length b)"
  by (induction b) auto

section \<open>Cutting and joining\<close>

text \<open>\<open>strings.Cut(s, sep)\<close> for a one-byte separator: before, after, found.\<close>

fun Cut :: "string \<Rightarrow> char \<Rightarrow> string \<times> string \<times> bool" where
  "Cut [] c = ([], [], False)"
| "Cut (d # s) c =
     (if d = c then ([], s, True) else case Cut s c of (b, a, f) \<Rightarrow> (d # b, a, f))"

lemma Cut_found: "Cut s c = (b, a, True) \<Longrightarrow> s = b @ c # a \<and> c \<notin> set b"
  by (induction s arbitrary: b) (auto split: if_splits prod.splits)

lemma Cut_not_found: "Cut s c = (b, a, False) \<Longrightarrow> b = s \<and> a = [] \<and> c \<notin> set s"
  by (induction s arbitrary: b) (auto split: if_splits prod.splits)

lemma Cut_append: "c \<notin> set b \<Longrightarrow> Cut (b @ c # a) c = (b, a, True)"
  by (induction b) auto

lemma Cut_absent: "c \<notin> set s \<Longrightarrow> Cut s c = (s, [], False)"
  by (induction s) auto

text \<open>\<open>strings.Split(s, sep)\<close> for a one-byte separator: never empty.\<close>

fun Split :: "string \<Rightarrow> char \<Rightarrow> string list" where
  "Split [] c = [[]]"
| "Split (d # s) c =
     (if d = c then [] # Split s c
      else case Split s c of w # ws \<Rightarrow> (d # w) # ws | [] \<Rightarrow> [[d]])"

fun Join :: "string list \<Rightarrow> string \<Rightarrow> string" where
  "Join [] sep = []"
| "Join [w] sep = w"
| "Join (w # ws) sep = w @ sep @ Join ws sep"

lemma Split_nonempty [simp]: "Split s c \<noteq> []"
  by (induction s) (auto split: list.splits)

lemma Join_Split: "Join (Split s c) [c] = s"
proof (induction s)
  case (Cons d s)
  obtain w ws where ws: "Split s c = w # ws" by (cases "Split s c") auto
  with Cons show ?case by (cases ws) auto
qed simp

lemma Split_no_sep: "w \<in> set (Split s c) \<Longrightarrow> c \<notin> set w"
proof (induction s arbitrary: w)
  case (Cons d s)
  then show ?case by (cases "Split s c") (auto split: if_splits)
qed simp

lemma Split_append_sep: "Split (a @ c # b) c = Split a c @ Split b c"
  by (induction a) (auto split: list.splits)

lemma Split_absent: "c \<notin> set s \<Longrightarrow> Split s c = [s]"
  by (induction s) auto

text \<open>A block without separators, between two of them or an end of the string, is a part.\<close>

lemma Split_block:
  assumes "pre = [] \<or> last pre = c" and "post = [] \<or> hd post = c" and "c \<notin> set w"
  shows "w \<in> set (Split (pre @ w @ post) c)"
proof -
  have right: "w \<in> set (Split (w @ post) c)"
  proof (cases post)
    case Nil
    with assms(3) show ?thesis by (simp add: Split_absent)
  next
    case (Cons d post')
    with assms show ?thesis by (simp add: Split_append_sep Split_absent)
  qed
  show ?thesis
  proof (cases pre rule: rev_cases)
    case Nil
    with right show ?thesis by simp
  next
    case (snoc pre' d)
    with assms(1) right show ?thesis by (simp add: Split_append_sep)
  qed
qed

text \<open>\<open>strings.ReplaceAll(s, old, new)\<close> for a one-byte \<open>old\<close>.\<close>

definition ReplaceAll :: "string \<Rightarrow> char \<Rightarrow> string \<Rightarrow> string" where
  "ReplaceAll s old new = concat (map (\<lambda>c. if c = old then new else [c]) s)"

section \<open>Decimal numbers\<close>

definition digit :: "nat \<Rightarrow> char" where
  "digit d = char_of (48 + d)"

fun show_nat :: "nat \<Rightarrow> string" where
  "show_nat n = (if n < 10 then [digit n] else show_nat (n div 10) @ [digit (n mod 10)])"

declare show_nat.simps [simp del]

definition show_int :: "int \<Rightarrow> string" where
  "show_int i = (if i < 0 then ''-'' @ show_nat (nat (- i)) else show_nat (nat i))"

definition is_digit :: "char \<Rightarrow> bool" where
  "is_digit c = (48 \<le> (of_char c :: nat) \<and> (of_char c :: nat) \<le> 57)"

definition digit_val :: "char \<Rightarrow> nat" where
  "digit_val c = of_char c - 48"

definition read_nat :: "string \<Rightarrow> nat" where
  "read_nat s = foldl (\<lambda>n c. 10 * n + digit_val c) 0 s"

lemma digit_val_digit: "d < 10 \<Longrightarrow> digit_val (digit d) = d"
  by (simp add: digit_val_def digit_def of_char_of)

lemma is_digit_digit: "d < 10 \<Longrightarrow> is_digit (digit d)"
  by (simp add: is_digit_def digit_def of_char_of)

lemma show_nat_nonempty [simp]: "show_nat n \<noteq> []"
  by (subst show_nat.simps) simp

lemma show_nat_digits: "c \<in> set (show_nat n) \<Longrightarrow> is_digit c"
proof (induction n rule: show_nat.induct)
  case (1 n)
  then show ?case
    by (subst (asm) show_nat.simps) (auto simp: is_digit_digit split: if_splits)
qed

lemma read_nat_append: "read_nat (s @ [c]) = 10 * read_nat s + digit_val c"
  by (simp add: read_nat_def)

lemma read_show_nat [simp]: "read_nat (show_nat n) = n"
proof (induction n rule: show_nat.induct)
  case (1 n)
  show ?case
  proof (cases "n < 10")
    case True
    then show ?thesis by (subst show_nat.simps) (simp add: read_nat_def digit_val_digit)
  next
    case False
    with 1 show ?thesis by (subst show_nat.simps) (simp add: read_nat_append digit_val_digit)
  qed
qed

lemma show_nat_inj: "show_nat m = show_nat n \<longleftrightarrow> m = n"
  by (metis read_show_nat)

section \<open>UTF-8, lower case and white space\<close>

definition byte :: "char \<Rightarrow> nat" where
  "byte c = of_char c"

definition is_ascii :: "char \<Rightarrow> bool" where
  "is_ascii c = (byte c < 128)"

definition in_range :: "nat \<Rightarrow> nat \<Rightarrow> char \<Rightarrow> bool" where
  "in_range lo hi c = (lo \<le> byte c \<and> byte c \<le> hi)"

abbreviation cont :: "char \<Rightarrow> bool" where
  "cont \<equiv> in_range 128 191"

text \<open>
  The length of the well-formed UTF-8 sequence a string starts with, as
  \<open>utf8.DecodeRuneInString\<close> accepts it; \<open>None\<close> when it would answer \<open>RuneError\<close> and width 1.
\<close>

fun rune_width :: "string \<Rightarrow> nat option" where
  "rune_width [] = None"
| "rune_width (a # s) =
     (if is_ascii a then Some 1
      else case s of
        [] \<Rightarrow> None
      | b # s' \<Rightarrow>
          if in_range 194 223 a \<and> cont b then Some 2
          else (case s' of
            [] \<Rightarrow> None
          | c # s'' \<Rightarrow>
              if (byte a = 224 \<and> in_range 160 191 b \<or> in_range 225 236 a \<and> cont b
                  \<or> byte a = 237 \<and> in_range 128 159 b \<or> in_range 238 239 a \<and> cont b) \<and> cont c
              then Some 3
              else (case s'' of
                [] \<Rightarrow> None
              | d # _ \<Rightarrow>
                  if (byte a = 240 \<and> in_range 144 191 b \<or> in_range 241 243 a \<and> cont b
                      \<or> byte a = 244 \<and> in_range 128 143 b) \<and> cont c \<and> cont d
                  then Some 4 else None)))"

text \<open>U+FFFD, which Go puts in place of every byte that is not part of valid UTF-8.\<close>

definition rune_error :: string where
  "rune_error = [CHR 0xEF, CHR 0xBF, CHR 0xBD]"

definition lower_byte :: "char \<Rightarrow> char" where
  "lower_byte c = (if 65 \<le> byte c \<and> byte c \<le> 90 then char_of (byte c + 32) else c)"

function lower_runes :: "(string \<Rightarrow> string) \<Rightarrow> string \<Rightarrow> string" where
  "lower_runes ulower [] = []"
| "lower_runes ulower (a # s) =
     (case rune_width (a # s) of
        None \<Rightarrow> rune_error @ lower_runes ulower s
      | Some w \<Rightarrow>
          if is_ascii a then lower_byte a # lower_runes ulower s
          else ulower (take w (a # s)) @ lower_runes ulower (drop (w - 1) s))"
  by pat_completeness auto
termination
  by (relation "measure (\<lambda>(u, s). length s)") auto

text \<open>\<open>strings.ToLower\<close>: a byte-wise pass when everything is ASCII, else rune by rune.\<close>

definition ToLower :: "(string \<Rightarrow> string) \<Rightarrow> string \<Rightarrow> string" where
  "ToLower ulower s =
     (if list_all is_ascii s then map lower_byte s else lower_runes ulower s)"

lemma ToLower_ascii: "list_all is_ascii s \<Longrightarrow> ToLower u s = map lower_byte s"
  by (simp add: ToLower_def)

lemma lower_byte_ascii: "is_ascii c \<Longrightarrow> is_ascii (lower_byte c)"
  by (auto simp: is_ascii_def lower_byte_def byte_def of_char_of)

lemma lower_byte_idem [simp]: "lower_byte (lower_byte c) = lower_byte c"
  by (auto simp: lower_byte_def byte_def of_char_of)

lemma lower_byte_newline: "lower_byte c = CHR 0x0A \<longleftrightarrow> c = CHR 0x0A"
proof
  assume l: "lower_byte c = CHR 0x0A"
  show "c = CHR 0x0A"
  proof (cases "65 \<le> byte c \<and> byte c \<le> 90")
    case True
    then have "of_char (lower_byte c) = byte c + 32"
      by (simp add: lower_byte_def of_char_of)
    with l True show ?thesis by simp
  next
    case False
    with l show ?thesis by (simp add: lower_byte_def)
  qed
qed (simp add: lower_byte_def byte_def)

text \<open>The UTF-8 encodings of the runes \<open>unicode.IsSpace\<close> accepts.\<close>

definition space_runes :: "string list" where
  "space_runes =
     [[CHR 0x09], [CHR 0x0A], [CHR 0x0B], [CHR 0x0C], [CHR 0x0D], [CHR 0x20],
      [CHR 0xC2, CHR 0x85], [CHR 0xC2, CHR 0xA0], [CHR 0xE1, CHR 0x9A, CHR 0x80]]
     @ map (\<lambda>n. [CHR 0xE2, CHR 0x80, char_of n]) ([128..<139] @ [168, 169, 175::nat])
     @ [[CHR 0xE2, CHR 0x81, CHR 0x9F], [CHR 0xE3, CHR 0x80, CHR 0x80]]"

lemma space_runes_nonempty: "r \<in> set space_runes \<Longrightarrow> r \<noteq> []"
  by (auto simp: space_runes_def)

function trim_front :: "string list \<Rightarrow> string \<Rightarrow> string" where
  "trim_front rs s =
     (case find (\<lambda>r. r \<noteq> [] \<and> HasPrefix s r) rs of
        None \<Rightarrow> s
      | Some r \<Rightarrow> trim_front rs (drop (length r) s))"
  by pat_completeness auto
termination
proof (relation "measure (\<lambda>(rs, s). length s)", goal_cases)
  case (2 rs s r)
  then have "r \<noteq> []" and "prefix r s"
    by (auto simp: find_Some_iff HasPrefix_iff)
  then show ?case
    by (cases s) (auto simp: length_greater_0_conv)
qed simp

declare trim_front.simps [simp del]

definition TrimSpace :: "string \<Rightarrow> string" where
  "TrimSpace s = rev (trim_front (map rev space_runes) (rev (trim_front space_runes s)))"

lemma trim_front_suffix: "suffix (trim_front rs s) s"
proof (induction rs s rule: trim_front.induct)
  case (1 rs s)
  show ?case
  proof (cases "find (\<lambda>r. r \<noteq> [] \<and> HasPrefix s r) rs")
    case None
    then show ?thesis by (subst trim_front.simps) simp
  next
    case (Some r)
    with 1 show ?thesis
      by (subst trim_front.simps) (auto intro: suffix_order.trans suffix_drop)
  qed
qed

text \<open>What is left is a part of the string: trimming invents nothing.\<close>

lemma TrimSpace_sublist: "sublist (TrimSpace s) s"
proof -
  have "suffix (rev (TrimSpace s)) (rev (trim_front space_runes s))"
    by (simp add: TrimSpace_def trim_front_suffix)
  then have "prefix (TrimSpace s) (trim_front space_runes s)"
    by (simp add: suffix_to_prefix)
  then show ?thesis
    using trim_front_suffix [of space_runes s]
    by (metis prefix_imp_sublist suffix_imp_sublist sublist_order.order_trans)
qed

text \<open>What is trimmed away consists of the trimmed pieces.\<close>

lemma trim_front_removed:
  "\<exists>cut. s = cut @ trim_front rs s \<and> set cut \<subseteq> \<Union> (set ` set rs)"
proof (induction rs s rule: trim_front.induct)
  case (1 rs s)
  show ?case
  proof (cases "find (\<lambda>r. r \<noteq> [] \<and> HasPrefix s r) rs")
    case None
    then show ?thesis by (subst trim_front.simps) simp
  next
    case (Some r)
    then have r: "r \<in> set rs" "prefix r s" by (auto simp: find_Some_iff HasPrefix_iff)
    from 1 [OF Some] obtain cut where
      cut: "drop (length r) s = cut @ trim_front rs (drop (length r) s)" "set cut \<subseteq> \<Union> (set ` set rs)"
      by blast
    have "s = (r @ cut) @ trim_front rs (drop (length r) s)"
      using r(2) cut(1) by (auto elim!: prefixE)
    moreover have "trim_front rs s = trim_front rs (drop (length r) s)"
      using Some by (subst trim_front.simps) simp
    moreover have "set (r @ cut) \<subseteq> \<Union> (set ` set rs)" using r(1) cut(2) by auto
    ultimately show ?thesis by metis
  qed
qed

lemma trim_front_keeps:
  assumes "c \<in> set s" and "c \<notin> \<Union> (set ` set rs)"
  shows "c \<in> set (trim_front rs s)"
proof -
  obtain cut where cut: "s = cut @ trim_front rs s" "set cut \<subseteq> \<Union> (set ` set rs)"
    using trim_front_removed by blast
  have "c \<in> set (cut @ trim_front rs s)" using assms(1) cut(1) by simp
  then show ?thesis using assms(2) cut(2) by (auto simp del: trim_front.simps)
qed

lemma TrimSpace_keeps:
  assumes "c \<in> set s" and "c \<notin> \<Union> (set ` set space_runes)"
  shows "c \<in> set (TrimSpace s)"
proof -
  have "c \<in> set (rev (trim_front space_runes s))"
    using trim_front_keeps [OF assms] by simp
  moreover have "c \<notin> \<Union> (set ` set (map rev space_runes))" using assms(2) by auto
  ultimately show ?thesis
    unfolding TrimSpace_def by (metis set_rev trim_front_keeps)
qed

text \<open>A string between two printing ASCII characters is left alone.\<close>

definition printing :: "char \<Rightarrow> bool" where
  "printing c \<longleftrightarrow> 32 < byte c \<and> byte c < 127"

lemma space_runes_ends: "r \<in> set space_runes \<Longrightarrow> \<not> printing (hd r) \<and> \<not> printing (last r)"
proof -
  have "list_all (\<lambda>r. \<not> printing (hd r) \<and> \<not> printing (last r)) space_runes" by code_simp
  then show "r \<in> set space_runes \<Longrightarrow> \<not> printing (hd r) \<and> \<not> printing (last r)" by (simp add: list_all_iff)
qed

lemma trim_front_printing:
  assumes "printing c" and "\<And>r. r \<in> set rs \<Longrightarrow> r \<noteq> [] \<and> \<not> printing (hd r)"
  shows "trim_front rs (c # s) = c # s"
proof -
  have "\<not> HasPrefix (c # s) r" if "r \<in> set rs" for r
    using assms(1) assms(2) [OF that] by (cases r) auto
  then have "find (\<lambda>r. r \<noteq> [] \<and> HasPrefix (c # s) r) rs = None" by (auto simp: find_None_iff)
  then show ?thesis by (subst trim_front.simps) simp
qed

lemma TrimSpace_printing:
  assumes "s \<noteq> []" and "printing (hd s)" and "printing (last s)"
  shows "TrimSpace s = s"
proof -
  obtain c s1 where c: "s = c # s1" "printing c" using assms by (cases s) auto
  obtain s2 d where d: "s = s2 @ [d]" "printing d" using assms by (cases s rule: rev_cases) auto
  have "trim_front space_runes s = s"
    unfolding c(1) by (rule trim_front_printing [OF c(2)]) (simp add: space_runes_nonempty space_runes_ends)
  moreover have "trim_front (map rev space_runes) (rev s) = rev s"
    unfolding d(1) rev.simps rev_append append_Cons append_Nil
    by (rule trim_front_printing [OF d(2)]) (auto simp: space_runes_ends hd_rev dest: space_runes_nonempty)
  ultimately show ?thesis by (simp add: TrimSpace_def)
qed

end
