(* ===== verification/State_Machine.thy ===== *)
theory State_Machine
  imports Go_Errors Go_Strings
begin

text \<open>
  \<open>internal/state/machine.go\<close>: the states of a port-forwarding service and the transitions
  between them. \<open>ServiceState\<close> is an \<open>int\<close> in Go; the six named constants are constructors here
  and \<open>OtherState n\<close> is any other value of the type, so the code's branches for unknown values
  stay visible. \<open>state_of_int\<close> is the conversion \<open>ServiceState(n)\<close>.
\<close>

datatype ServiceState =
    Disconnected
  | Starting
  | Connected
  | Reconnecting
  | Failed
  | Stopping
  | OtherState int

text \<open>The \<open>iota\<close> block.\<close>

fun state_int :: "ServiceState \<Rightarrow> int" where
  "state_int Disconnected = 0"
| "state_int Starting = 1"
| "state_int Connected = 2"
| "state_int Reconnecting = 3"
| "state_int Failed = 4"
| "state_int Stopping = 5"
| "state_int (OtherState n) = n"

definition state_of_int :: "int \<Rightarrow> ServiceState" where
  "state_of_int n =
     (if n = 0 then Disconnected else if n = 1 then Starting else if n = 2 then Connected
      else if n = 3 then Reconnecting else if n = 4 then Failed else if n = 5 then Stopping
      else OtherState n)"

lemma state_int_of_int: "state_int (state_of_int n) = n"
  by (simp add: state_of_int_def)

definition named_states :: "ServiceState list" where
  "named_states = [Disconnected, Starting, Connected, Reconnecting, Failed, Stopping]"

lemma state_of_int_named: "s \<in> set named_states \<Longrightarrow> state_of_int (state_int s) = s"
  by (auto simp: named_states_def state_of_int_def)

definition stateNames :: "(ServiceState \<times> string) list" where
  "stateNames =
     [(Disconnected, ''Disconnected''),
      (Starting, ''Starting''),
      (Connected, ''Connected''),
      (Reconnecting, ''Reconnecting''),
      (Failed, ''Failed''),
      (Stopping, ''Stopping'')]"

definition allowedTransitions :: "(ServiceState \<times> ServiceState list) list" where
  "allowedTransitions =
     [(Disconnected, [Starting]),
      (Starting, [Connected, Reconnecting, Failed, Stopping]),
      (Connected, [Reconnecting, Stopping]),
      (Reconnecting, [Starting, Failed, Stopping]),
      (Failed, [Starting, Stopping]),
      (Stopping, [Disconnected])]"

definition state_String :: "ServiceState \<Rightarrow> string" where
  "state_String s =
     (case map_of stateNames s of
        Some name \<Rightarrow> name
      | None \<Rightarrow> ''Unknown('' @ show_int (state_int s) @ '')'')"

definition Transition :: "ServiceState \<Rightarrow> ServiceState \<Rightarrow> go_error option" where
  "Transition from to =
     (case map_of allowedTransitions from of
        None \<Rightarrow> Some (Opaque (''unknown source state: '' @ state_String from))
      | Some targets \<Rightarrow>
          if to \<notin> set targets
          then Some (Opaque (''invalid transition: '' @ state_String from @ '' -> '' @ state_String to))
          else None)"

text \<open>The accepted edges, one simplification rule per source state.\<close>

lemma Transition_None [simp]:
  "Transition Disconnected t = None \<longleftrightarrow> t = Starting"
  "Transition Starting t = None \<longleftrightarrow> t \<in> {Connected, Reconnecting, Failed, Stopping}"
  "Transition Connected t = None \<longleftrightarrow> t \<in> {Reconnecting, Stopping}"
  "Transition Reconnecting t = None \<longleftrightarrow> t \<in> {Starting, Failed, Stopping}"
  "Transition Failed t = None \<longleftrightarrow> t \<in> {Starting, Stopping}"
  "Transition Stopping t = None \<longleftrightarrow> t = Disconnected"
  "Transition (OtherState n) t = None \<longleftrightarrow> False"
  by (auto simp: Transition_def allowedTransitions_def)

text \<open>The accepted moves as rewrite rules.\<close>

lemma Transition_accepted [simp]:
  "Transition Disconnected Starting = None"
  "Transition Starting Connected = None" "Transition Starting Reconnecting = None"
  "Transition Starting Failed = None" "Transition Starting Stopping = None"
  "Transition Connected Reconnecting = None" "Transition Connected Stopping = None"
  "Transition Reconnecting Starting = None" "Transition Reconnecting Failed = None"
  "Transition Reconnecting Stopping = None"
  "Transition Failed Starting = None" "Transition Failed Stopping = None"
  "Transition Stopping Disconnected = None"
  by simp_all

lemma Transition_sources:
  "Transition s Disconnected = None \<longleftrightarrow> s = Stopping"
  "Transition s Starting = None \<longleftrightarrow> s \<in> {Disconnected, Reconnecting, Failed}"
  "Transition s Connected = None \<longleftrightarrow> s = Starting"
  "Transition s Reconnecting = None \<longleftrightarrow> s \<in> {Starting, Connected}"
  "Transition s Failed = None \<longleftrightarrow> s \<in> {Starting, Reconnecting}"
  "Transition s Stopping = None \<longleftrightarrow> s \<in> {Starting, Connected, Reconnecting, Failed}"
  by (cases s; simp)+

text \<open>A sequence of accepted transitions.\<close>

fun transition_path :: "ServiceState \<Rightarrow> ServiceState list \<Rightarrow> bool" where
  "transition_path s [] = True"
| "transition_path s (t # ts) = (Transition s t = None \<and> transition_path t ts)"

lemma transition_path_append:
  "transition_path s (ts @ us) \<longleftrightarrow> transition_path s ts \<and> transition_path (last (s # ts)) us"
  by (induction ts arbitrary: s) auto

lemma transition_path_named:
  "transition_path s ts \<Longrightarrow> set ts \<subseteq> set named_states"
proof (induction ts arbitrary: s)
  case (Cons t ts)
  then have "Transition s t = None" by simp
  then have "t \<in> set named_states"
    by (cases s) (auto simp: named_states_def)
  with Cons show ?case by auto
qed simp

text \<open>
  no state is a dead end. From each of the six states a sequence of accepted transitions
  leads to each of the six, so a service can always be stopped and started again; a value of the
  type outside the six can neither be left nor entered.
\<close>

lemma every_state_recoverable:
  assumes "s \<in> set named_states" and "t \<in> set named_states"
  shows "(\<exists>ts. transition_path s (ts @ [t])) \<and>
    Transition s (OtherState n) \<noteq> None \<and> Transition (OtherState n) t \<noteq> None"
proof -
  have down: "\<exists>ts. transition_path s (ts @ [Disconnected])"
  proof -
    have "transition_path Disconnected ([Starting, Stopping] @ [Disconnected])"
      "transition_path Starting ([Stopping] @ [Disconnected])"
      "transition_path Connected ([Stopping] @ [Disconnected])"
      "transition_path Reconnecting ([Stopping] @ [Disconnected])"
      "transition_path Failed ([Stopping] @ [Disconnected])"
      "transition_path Stopping ([] @ [Disconnected])"
      by simp_all
    with assms(1) show ?thesis by - (cases s, unfold named_states_def, blast+, simp)
  qed
  have up: "\<exists>ts. transition_path Disconnected (ts @ [t])"
  proof -
    have "transition_path Disconnected ([Starting, Stopping] @ [Disconnected])"
      "transition_path Disconnected ([] @ [Starting])"
      "transition_path Disconnected ([Starting] @ [Connected])"
      "transition_path Disconnected ([Starting] @ [Reconnecting])"
      "transition_path Disconnected ([Starting] @ [Failed])"
      "transition_path Disconnected ([Starting] @ [Stopping])"
      by simp_all
    with assms(2) show ?thesis by - (cases t, unfold named_states_def, blast+, simp)
  qed
  from down up obtain ts us where
    "transition_path s (ts @ [Disconnected])" "transition_path Disconnected (us @ [t])" by blast
  then have "transition_path s ((ts @ [Disconnected] @ us) @ [t])"
    by (simp add: transition_path_append)
  then have "\<exists>ts. transition_path s (ts @ [t])" by blast
  moreover have "Transition s (OtherState n) \<noteq> None"
    using assms(1) by (auto simp: named_states_def Transition_def allowedTransitions_def)
  moreover have "Transition (OtherState n) t \<noteq> None"
    by (simp add: Transition_def allowedTransitions_def)
  ultimately show ?thesis by simp
qed

lemma every_state_recoverable_witness:
  "(\<exists>ts. transition_path Failed (ts @ [Connected])) \<and> Transition (OtherState 6) Connected \<noteq> None"
  using every_state_recoverable [of Failed Connected 6] by (simp add: named_states_def)

end
