(* ===== verification/Backoff.thy ===== *)
theory Backoff
  imports Prelude
begin

text \<open>
  \<open>internal/reconnect/backoff.go\<close>: exponential reconnect delays with a cap.

  \<open>Multiplier\<close> is a \<open>float64\<close> the code sets to 2.0 and never changes. \<open>InitialDelay\<close> is a whole
  number of nanoseconds with fewer than 53 bits, so the products \<open>InitialDelay * 2 ^ attempt\<close> are
  exact until they overflow to infinity, and the model computes them on integers. The conversion of
  a \<open>float64\<close> outside the range of \<open>int64\<close> is implementation-dependent in Go: it is the parameter
  \<open>oor\<close> of every definition that converts. \<open>time.Time{}\<close> is \<open>None\<close>.
\<close>

record Backoff =
  InitialDelay :: duration
  MaxDelay :: duration
  Multiplier :: nat
  StableAfter :: duration
  attempt :: nat
  connectedAt :: "instant option"

definition NewBackoff :: Backoff where
  "NewBackoff =
     \<lparr>InitialDelay = 1 * second, MaxDelay = 30 * second, Multiplier = 2, StableAfter = 30 * second,
      attempt = 0, connectedAt = None\<rparr>"

datatype float64 = Fin int | PosInf

text \<open>\<open>float64(b.InitialDelay) * math.Pow(b.Multiplier, float64(b.attempt))\<close>.\<close>

definition float_delay :: "duration \<Rightarrow> nat \<Rightarrow> nat \<Rightarrow> float64" where
  "float_delay d m n =
     (if d * int (m ^ n) < 2 ^ 1024 then Fin (d * int (m ^ n)) else PosInf)"

text \<open>\<open>time.Duration(x)\<close>.\<close>

definition to_Duration :: "(float64 \<Rightarrow> duration) \<Rightarrow> float64 \<Rightarrow> duration" where
  "to_Duration oor x =
     (case x of
        Fin v \<Rightarrow> if int64_min \<le> v \<and> v \<le> int64_max then v else oor x
      | PosInf \<Rightarrow> oor x)"

definition NextDelay :: "(float64 \<Rightarrow> duration) \<Rightarrow> Backoff \<Rightarrow> duration \<times> Backoff" where
  "NextDelay oor b =
     (let delay = min (to_Duration oor (float_delay (InitialDelay b) (Multiplier b) (attempt b)))
                      (MaxDelay b)
      in (delay, b\<lparr>attempt := attempt b + 1\<rparr>))"

definition Attempt :: "Backoff \<Rightarrow> nat" where
  "Attempt b = attempt b"

definition MarkConnected :: "instant \<Rightarrow> Backoff \<Rightarrow> Backoff" where
  "MarkConnected now b = b\<lparr>connectedAt := Some now\<rparr>"

definition ShouldReset :: "instant \<Rightarrow> Backoff \<Rightarrow> bool" where
  "ShouldReset now b =
     (case connectedAt b of None \<Rightarrow> False | Some t \<Rightarrow> now - t \<ge> StableAfter b)"

definition backoff_Reset :: "Backoff \<Rightarrow> Backoff" where
  "backoff_Reset b = b\<lparr>attempt := 0, connectedAt := None\<rparr>"

text \<open>The next \<open>n\<close> delays of a backoff that is not reset in between.\<close>

primrec delays :: "(float64 \<Rightarrow> duration) \<Rightarrow> nat \<Rightarrow> Backoff \<Rightarrow> duration list" where
  "delays oor 0 b = []"
| "delays oor (Suc n) b = (case NextDelay oor b of (d, b') \<Rightarrow> d # delays oor n b')"

lemma attempt_NextDelay [simp]: "snd (NextDelay oor b) = b\<lparr>attempt := attempt b + 1\<rparr>"
  by (simp add: NextDelay_def Let_def)

lemma length_delays [simp]: "length (delays oor n b) = n"
  by (induction n arbitrary: b) (auto split: prod.splits)

lemma delays_nth: "i < n \<Longrightarrow> delays oor n b ! i = fst (NextDelay oor (b\<lparr>attempt := attempt b + i\<rparr>))"
proof (induction n arbitrary: b i)
  case (Suc n)
  obtain d b' where d: "NextDelay oor b = (d, b')" by (cases "NextDelay oor b")
  then have b': "b' = b\<lparr>attempt := attempt b + 1\<rparr>"
    using attempt_NextDelay [of oor b] by simp
  show ?case
  proof (cases i)
    case 0
    then show ?thesis using d by simp
  next
    case (Suc j)
    then show ?thesis using Suc.IH [of j b'] Suc.prems d b' by simp
  qed
qed simp

text \<open>A backoff as \<open>NewBackoff\<close> and the engine configure it.\<close>

definition backoff_ok :: "Backoff \<Rightarrow> bool" where
  "backoff_ok b \<longleftrightarrow> InitialDelay b = second \<and> Multiplier b = 2 \<and> 0 < MaxDelay b \<and> MaxDelay b \<le> int64_max"

lemma backoff_ok_New [simp]: "backoff_ok NewBackoff"
  by (simp add: backoff_ok_def NewBackoff_def int64_max_def)

lemma backoff_ok_updates [simp]:
  "backoff_ok (b\<lparr>attempt := n\<rparr>) = backoff_ok b"
  "backoff_ok (MarkConnected now b) = backoff_ok b"
  "backoff_ok (backoff_Reset b) = backoff_ok b"
  by (simp_all add: backoff_ok_def MarkConnected_def backoff_Reset_def)

lemma pow2_small: "n \<le> 33 \<Longrightarrow> second * 2 ^ n \<le> int64_max"
proof -
  assume "n \<le> 33"
  then have "(2::int) ^ n \<le> 2 ^ 33" by (rule power_increasing) simp
  then show ?thesis by (simp add: int64_max_def)
qed

lemma pow2_large: "33 < n \<Longrightarrow> int64_max < second * 2 ^ n"
proof -
  assume "33 < n"
  then have "(2::int) ^ 34 \<le> 2 ^ n" by (intro power_increasing) simp_all
  then show ?thesis by (simp add: int64_max_def)
qed

lemma NextDelay_small:
  assumes "backoff_ok b" and "attempt b \<le> 33"
  shows "fst (NextDelay oor b) = min (second * 2 ^ attempt b) (MaxDelay b)"
proof -
  have le: "second * 2 ^ attempt b \<le> int64_max" using assms(2) by (rule pow2_small)
  then have "second * 2 ^ attempt b < 2 ^ 1024" by (simp add: int64_max_def)
  moreover have "int64_min \<le> second * 2 ^ attempt b"
    by (rule order_trans [of _ 0]) (simp_all add: int64_min_def)
  ultimately show ?thesis
    using assms le by (simp add: NextDelay_def Let_def float_delay_def to_Duration_def backoff_ok_def)
qed

lemma NextDelay_large:
  assumes "backoff_ok b" and "33 < attempt b"
  shows "\<exists>x. (\<forall>v. x = Fin v \<longrightarrow> int64_max < v) \<and> fst (NextDelay oor b) = min (oor x) (MaxDelay b)"
proof -
  have "int64_max < second * 2 ^ attempt b" using assms(2) by (rule pow2_large)
  then show ?thesis
    using assms(1)
    by (auto simp: NextDelay_def Let_def float_delay_def to_Duration_def backoff_ok_def)
qed

lemma NextDelay_saturating:
  assumes ok: "backoff_ok b" and sat: "\<And>x. int64_max \<le> oor x"
  shows "0 < fst (NextDelay oor b) \<and> fst (NextDelay oor b) \<le> MaxDelay b"
proof (cases "attempt b \<le> 33")
  case True
  then show ?thesis using ok by (simp add: NextDelay_small) (simp add: backoff_ok_def)
next
  case False
  then obtain x where x: "fst (NextDelay oor b) = min (oor x) (MaxDelay b)"
    using NextDelay_large [OF ok] by force
  have "MaxDelay b \<le> oor x"
    using ok sat [of x] by (simp add: backoff_ok_def)
  with x ok show ?thesis by (simp add: backoff_ok_def)
qed

text \<open>
  the schedule. From a fresh backoff the delays are 1s, 2s, 4s and so on, each capped at
  \<open>MaxDelay\<close>, for the first 34 attempts, whatever the platform does with conversions out of range.
\<close>

lemma backoff_schedule:
  assumes "backoff_ok b" and "attempt b = 0" and "n \<le> 34"
  shows "delays oor n b = map (\<lambda>k. min (second * 2 ^ k) (MaxDelay b)) [0..<n]"
proof (rule nth_equalityI)
  fix i assume "i < length (delays oor n b)"
  then have i: "i < n" by simp
  have "delays oor n b ! i = fst (NextDelay oor (b\<lparr>attempt := i\<rparr>))"
    using delays_nth [OF i] assms(2) by simp
  also have "\<dots> = min (second * 2 ^ i) (MaxDelay b)"
    using NextDelay_small [of "b\<lparr>attempt := i\<rparr>"] i assms by simp
  finally show "delays oor n b ! i = map (\<lambda>k. min (second * 2 ^ k) (MaxDelay b)) [0..<n] ! i"
    using i by simp
qed simp

lemma backoff_schedule_witness:
  "delays (\<lambda>_. int64_min) 7 NewBackoff =
     [1 * second, 2 * second, 4 * second, 8 * second, 16 * second, 30 * second, 30 * second]"
proof -
  have "attempt NewBackoff = 0" "MaxDelay NewBackoff = 30 * second"
    by (simp_all add: NewBackoff_def)
  then show ?thesis
    using backoff_schedule [OF backoff_ok_New, of 7 "\<lambda>_. int64_min"]
    by (simp add: upt_rec)
qed

text \<open>
  where the platform's conversion saturates (arm64), every delay of every attempt is positive
  and at most \<open>MaxDelay\<close>, also after the float has overflowed.
\<close>

lemma backoff_delays_capped:
  assumes "backoff_ok b" and "\<And>x. int64_max \<le> oor x" and "d \<in> set (delays oor n b)"
  shows "0 < d \<and> d \<le> MaxDelay b"
proof -
  from assms(3) obtain i where i: "i < n" and d: "d = delays oor n b ! i"
    by (auto simp: in_set_conv_nth)
  show ?thesis
    unfolding d delays_nth [OF i]
    using NextDelay_saturating [of "b\<lparr>attempt := attempt b + i\<rparr>" oor] assms(1,2) by simp
qed

lemma backoff_delays_capped_witness:
  "0 < fst (NextDelay (\<lambda>_. int64_max) (NewBackoff\<lparr>attempt := 2000\<rparr>))
   \<and> fst (NextDelay (\<lambda>_. int64_max) (NewBackoff\<lparr>attempt := 2000\<rparr>)) \<le> 30 * second"
proof -
  let ?b = "NewBackoff\<lparr>attempt := 2000\<rparr>" and ?oor = "\<lambda>_. int64_max"
  have "fst (NextDelay ?oor ?b) \<in> set (delays ?oor 1 ?b)"
    by (cases "NextDelay ?oor ?b") simp
  from backoff_delays_capped [OF _ _ this] show ?thesis by (simp add: NewBackoff_def backoff_ok_def int64_max_def)
qed

text \<open>
  C25: where the conversion answers the smallest \<open>int64\<close> instead (amd64), the 35th attempt in a row
  and every later one gets a negative delay: \<open>min\<close> keeps it, and the cap is gone.
\<close>

theorem backoff_overflow_negative:
  assumes "backoff_ok b" and "34 \<le> attempt b"
  shows "fst (NextDelay (\<lambda>_. int64_min) b) = int64_min \<and> int64_min < 0"
proof -
  obtain x where "fst (NextDelay (\<lambda>_. int64_min) b) = min int64_min (MaxDelay b)"
    using NextDelay_large [OF assms(1), of "\<lambda>_. int64_min"] assms(2) by auto
  then show ?thesis
    using assms(1) by (simp add: backoff_ok_def int64_min_def)
qed

theorem backoff_overflow_negative_witness:
  "last (delays (\<lambda>_. int64_min) 35 NewBackoff) = int64_min \<and> int64_min < 0"
proof -
  have "last (delays (\<lambda>_. int64_min) 35 NewBackoff) = delays (\<lambda>_. int64_min) 35 NewBackoff ! 34"
    by (subst last_conv_nth) (simp_all flip: length_0_conv)
  also have "\<dots> = fst (NextDelay (\<lambda>_. int64_min) (NewBackoff\<lparr>attempt := 34\<rparr>))"
    by (subst delays_nth) (simp_all add: NewBackoff_def)
  finally show ?thesis
    using backoff_overflow_negative [of "NewBackoff\<lparr>attempt := 34\<rparr>"] by simp
qed

end
