(* ===== verification/Ip_Allocator.thy ===== *)
theory Ip_Allocator
  imports Go_Strings
begin

unbundle bit_operations_syntax

text \<open>
  \<open>internal/ip/allocator.go\<close>: one loopback address 127.0.0.x per key, chosen by the FNV-1a hash of
  the key and linear probing over the 253 octets 2 to 254. The state is the map from octets to
  the keys that own them, and its order is the order a \<open>range\<close> over it takes. The hash is
  \<open>hash/fnv.New32a\<close> on 32-bit words; octets are 8-bit words, as Go's \<open>byte\<close>.

  The locale \<open>ip_port\<close> is \<open>engine.IPAllocator\<close>, the interface the engine calls through.
\<close>

section \<open>The interface\<close>

locale ip_port =
  fixes allocate :: "string \<Rightarrow> 's \<Rightarrow> ('e + 'a) \<times> 's"
    and release :: "string \<Rightarrow> 's \<Rightarrow> 's"
    and addr :: "'s \<Rightarrow> string \<Rightarrow> 'a option"
    and ok :: "'s \<Rightarrow> bool"
  assumes allocate_known: "ok s \<Longrightarrow> addr s k = Some a \<Longrightarrow> allocate k s = (Inr a, s)"
    and allocate_new: "ok s \<Longrightarrow> addr s k = None \<Longrightarrow> allocate k s = (Inr a, s') \<Longrightarrow>
      a \<notin> ran (addr s) \<and> addr s' = (addr s)(k \<mapsto> a)"
    and allocate_fails: "ok s \<Longrightarrow> allocate k s = (Inl e, s') \<Longrightarrow> s' = s \<and> addr s k = None"
    and allocate_ok: "ok s \<Longrightarrow> ok (snd (allocate k s))"
    and release_addr: "ok s \<Longrightarrow> addr (release k s) = (addr s)(k := None)"
    and release_ok: "ok s \<Longrightarrow> ok (release k s)"
    and addr_inj: "ok s \<Longrightarrow> inj_on (addr s) (dom (addr s))"
begin

lemma allocate_addr: "ok s \<Longrightarrow> allocate k s = (Inr a, s') \<Longrightarrow> addr s' = (addr s)(k \<mapsto> a)"
proof -
  assume ok: "ok s" and r: "allocate k s = (Inr a, s')"
  show ?thesis
  proof (cases "addr s k")
    case None
    then show ?thesis using allocate_new [OF ok None r] by simp
  next
    case (Some b)
    then have "s' = s" "b = a" using allocate_known [OF ok Some] r by simp_all
    with Some show ?thesis by (simp add: fun_upd_idem)
  qed
qed

text \<open>A second call gives the same address and changes nothing.\<close>

lemma allocate_again:
  "ok s \<Longrightarrow> allocate k s = (Inr a, s') \<Longrightarrow> allocate k s' = (Inr a, s')"
  using allocate_ok [of s k] allocate_addr [of s k a s'] allocate_known [of s' k a] by simp

text \<open>No other key is affected by an allocation or a release.\<close>

lemma allocate_other: "ok s \<Longrightarrow> k' \<noteq> k \<Longrightarrow> addr (snd (allocate k s)) k' = addr s k'"
proof -
  assume ok: "ok s" and k: "k' \<noteq> k"
  obtain r s' where r: "allocate k s = (r, s')" by (cases "allocate k s")
  show ?thesis
    using r ok k allocate_addr [of s k _ s'] allocate_fails [of s k _ s'] by (cases r) auto
qed

lemma release_other: "ok s \<Longrightarrow> k' \<noteq> k \<Longrightarrow> addr (release k s) k' = addr s k'"
  by (simp add: release_addr)

lemma no_sharing: "ok s \<Longrightarrow> addr s k = Some a \<Longrightarrow> addr s k' = Some a \<Longrightarrow> k = k'"
  using inj_onD [OF addr_inj, of s k k'] by (auto simp: dom_def)

text \<open>Any run of allocations and releases keeps every live address private to its key.\<close>

fun run_ports :: "(string \<times> bool) list \<Rightarrow> 's \<Rightarrow> 's" where
  "run_ports [] s = s"
| "run_ports ((k, True) # xs) s = run_ports xs (snd (allocate k s))"
| "run_ports ((k, False) # xs) s = run_ports xs (release k s)"

lemma run_ports_ok: "ok s \<Longrightarrow> ok (run_ports xs s)"
  by (induction xs s rule: run_ports.induct) (simp_all add: allocate_ok release_ok)

lemma run_ports_keeps:
  "ok s \<Longrightarrow> addr s k = Some a \<Longrightarrow> (k, False) \<notin> set xs \<Longrightarrow> addr (run_ports xs s) k = Some a"
proof (induction xs s rule: run_ports.induct)
  case (2 k' xs s)
  then show ?case
    by (cases "k' = k") (auto simp: allocate_known allocate_ok allocate_other)
next
  case (3 k' xs s)
  then show ?case by (auto simp: release_ok release_other)
qed simp

lemma run_ports_other: "ok s \<Longrightarrow> k \<notin> fst ` set xs \<Longrightarrow> addr (run_ports xs s) k = addr s k"
  by (induction xs s rule: run_ports.induct) (simp_all add: allocate_ok release_ok allocate_other release_other)

end

section \<open>The allocator\<close>

definition minOctet :: "8 word" where
  "minOctet = 2"

definition maxOctet :: "8 word" where
  "maxOctet = 254"

definition rangeSize :: nat where
  "rangeSize = 254 - 2 + 1"

lemma rangeSize_eq [simp]: "rangeSize = 253"
  by (simp add: rangeSize_def)

record Allocator =
  assigned :: "(8 word \<times> string) list"

datatype ip = IPv4 "8 word" "8 word" "8 word" "8 word"

datatype alloc_error = Range_exhausted | Probe_wrapped

fun alloc_error_text :: "alloc_error \<Rightarrow> string" where
  "alloc_error_text Range_exhausted =
     ''IP range exhausted: all '' @ show_nat rangeSize @ '' addresses in 127.0.0.2-254 are assigned''"
| "alloc_error_text Probe_wrapped = ''IP range exhausted: linear probe wrapped around''"

definition alloc_New :: Allocator where
  "alloc_New = \<lparr>assigned = []\<rparr>"

definition loopback :: "8 word \<Rightarrow> ip" where
  "loopback octet = IPv4 127 0 0 octet"

definition fnv32a :: "string \<Rightarrow> 32 word" where
  "fnv32a key = foldl (\<lambda>h c. (h XOR of_nat (byte c)) * 16777619) 2166136261 key"

definition hashToOctet :: "string \<Rightarrow> 8 word" where
  "hashToOctet key = ucast (fnv32a key mod 253) + minOctet"

definition nextOctet :: "8 word \<Rightarrow> 8 word" where
  "nextOctet octet = (if octet \<ge> maxOctet then minOctet else octet + 1)"

text \<open>
  The probing loop. Nothing in its text says that it stops, since it compares with the octet it
  started from; \<open>None\<close> would be a run that never ends.
\<close>

partial_function (option) probe ::
  "(8 word \<times> string) list \<Rightarrow> string \<Rightarrow> 8 word \<Rightarrow> 8 word \<Rightarrow> ((alloc_error + ip) \<times> (8 word \<times> string) list) option"
where
  "probe m key start octet =
     (if map_of m octet = None then Some (Inr (loopback octet), map_put octet key m)
      else
        let octet' = nextOctet octet
        in if octet' = start then Some (Inl Probe_wrapped, m) else probe m key start octet')"

definition alloc_Allocate :: "string \<Rightarrow> Allocator \<Rightarrow> ((alloc_error + ip) \<times> Allocator) option" where
  "alloc_Allocate key a =
     (case find (\<lambda>(octet, owner). owner = key) (assigned a) of
        Some (octet, _) \<Rightarrow> Some (Inr (loopback octet), a)
      | None \<Rightarrow>
          if length (assigned a) \<ge> rangeSize then Some (Inl Range_exhausted, a)
          else
            let start = hashToOctet key
            in map_option (\<lambda>(r, m). (r, a\<lparr>assigned := m\<rparr>)) (probe (assigned a) key start start))"

definition alloc_Release :: "string \<Rightarrow> Allocator \<Rightarrow> Allocator" where
  "alloc_Release key a =
     (case find (\<lambda>(octet, owner). owner = key) (assigned a) of
        Some (octet, _) \<Rightarrow> a\<lparr>assigned := map_del octet (assigned a)\<rparr>
      | None \<Rightarrow> a)"

text \<open>The copy \<open>Assigned\<close> returns, in the order of the loop that builds it.\<close>

definition alloc_Assigned :: "Allocator \<Rightarrow> (string \<times> ip) list" where
  "alloc_Assigned a = fold (\<lambda>(octet, key) m. map_put key (loopback octet) m) (assigned a) []"

section \<open>The ring of octets\<close>

text \<open>The octets in the order they are probed, numbered from any start modulo 253.\<close>

definition oct :: "nat \<Rightarrow> 8 word" where
  "oct n = of_nat (2 + n mod 253)"

lemma unat_oct [simp]: "unat (oct n) = 2 + n mod 253"
proof -
  have "n mod 253 < 253" by simp
  then have "2 + n mod 253 < 256" by linarith
  then show ?thesis unfolding oct_def unat_of_nat by simp
qed

lemma oct_eq_iff: "oct m = oct n \<longleftrightarrow> m mod 253 = n mod 253"
  by (metis add_left_cancel unat_oct word_unat_eq_iff)

lemma oct_Suc: "nextOctet (oct n) = oct (Suc n)"
proof (cases "n mod 253 = 252")
  case True
  then have "Suc n mod 253 = 0" by (simp add: mod_Suc)
  then show ?thesis
    using True by (simp add: nextOctet_def word_le_nat_alt maxOctet_def minOctet_def word_unat_eq_iff)
next
  case False
  have "n mod 253 < 253" by simp
  with False have lt: "n mod 253 < 252" by linarith
  then have suc: "Suc n mod 253 = Suc (n mod 253)" by (simp add: mod_Suc)
  have "unat (oct n + 1) = unat (oct (Suc n))"
    using lt suc by (subst unat_add_lem [THEN iffD1]) simp_all
  then show ?thesis
    using lt by (simp add: nextOctet_def word_le_nat_alt maxOctet_def word_unat_eq_iff)
qed

lemma hashToOctet_oct: "hashToOctet key = oct (unat (fnv32a key))"
proof -
  have lt: "unat (fnv32a key mod 253) = unat (fnv32a key) mod 253"
    by (simp add: unat_mod_distrib)
  then have "unat (fnv32a key mod 253) < 253" by simp
  then have u: "unat (ucast (fnv32a key mod 253) :: 8 word) = unat (fnv32a key) mod 253"
    using lt by (simp add: unsigned_ucast_eq take_bit_eq_mod)
  have "unat (hashToOctet key) = unat (oct (unat (fnv32a key)))"
    unfolding hashToOctet_def minOctet_def
    by (subst unat_add_lem [THEN iffD1]) (simp_all add: u)
  then show ?thesis by (simp add: word_unat_eq_iff)
qed

definition octets :: "8 word set" where
  "octets = {w. minOctet \<le> w \<and> w \<le> maxOctet}"

lemma octets_oct: "octets = oct ` {..<253}"
proof (intro equalityI subsetI)
  fix w assume "w \<in> octets"
  then have "2 \<le> unat w" "unat w \<le> 254"
    by (auto simp: octets_def minOctet_def maxOctet_def word_le_nat_alt)
  then have "w = oct (unat w - 2)" and "unat w - 2 < 253"
    by (simp_all add: word_unat_eq_iff)
  then show "w \<in> oct ` {..<253}" by blast
qed (auto simp: octets_def minOctet_def maxOctet_def word_le_nat_alt)

lemma oct_in_octets [simp]: "oct n \<in> octets"
  by (metis image_eqI lessThan_iff mod_less_divisor mod_mod_trivial oct_eq_iff octets_oct zero_less_numeral)

lemma card_octets: "card octets = 253"
proof -
  have "inj_on oct {..<253}" by (auto simp: inj_on_def oct_eq_iff)
  then show ?thesis by (simp add: octets_oct card_image)
qed

lemma octets_from: "octets = (\<lambda>i. oct (s + i)) ` {..<253}"
proof (intro equalityI subsetI)
  fix w assume "w \<in> octets"
  then obtain j where j: "j < 253" "w = oct j" by (auto simp: octets_oct)
  have "(s + (j + (253 - s mod 253)) mod 253) mod 253 = j mod 253"
  proof -
    have shift: "s + (j + (253 - r)) = j + 253 * Suc q" if "s = 253 * q + r" and "r < 253" for q r
      using that by simp
    then have "s + (j + (253 - s mod 253)) = j + 253 * Suc (s div 253)"
      by (intro shift) simp_all
    then have "(s + (j + (253 - s mod 253))) mod 253 = j mod 253"
      by (metis mod_mult_self2)
    then show ?thesis by (simp only: mod_add_right_eq)
  qed
  then have "w = oct (s + (j + (253 - s mod 253)) mod 253)"
    using j by (simp add: oct_eq_iff)
  then show "w \<in> (\<lambda>i. oct (s + i)) ` {..<253}" by auto
qed auto

section \<open>Correctness\<close>

definition alloc_ok :: "Allocator \<Rightarrow> bool" where
  "alloc_ok a \<longleftrightarrow> distinct (keys (assigned a)) \<and> distinct (map snd (assigned a))
     \<and> set (keys (assigned a)) \<subseteq> octets"

text \<open>The octet a key owns, and its address.\<close>

definition owner_octet :: "Allocator \<Rightarrow> string \<Rightarrow> 8 word option" where
  "owner_octet a key = map_option fst (find (\<lambda>(octet, owner). owner = key) (assigned a))"

definition alloc_addr :: "Allocator \<Rightarrow> string \<Rightarrow> ip option" where
  "alloc_addr a key = map_option loopback (owner_octet a key)"

lemma alloc_ok_New [simp]: "alloc_ok alloc_New"
  by (simp add: alloc_ok_def alloc_New_def)

lemma owner_octet_None: "owner_octet a key = None \<longleftrightarrow> key \<notin> snd ` set (assigned a)"
  by (force simp: owner_octet_def find_None_iff)

lemma distinct_snd_unique:
  "distinct (map snd m) \<Longrightarrow> (x, k) \<in> set m \<Longrightarrow> (y, k) \<in> set m \<Longrightarrow> x = y"
  by (induction m) (auto simp: rev_image_eqI)

lemma owner_octet_Some:
  assumes "alloc_ok a"
  shows "owner_octet a key = Some x \<longleftrightarrow> (x, key) \<in> set (assigned a)"
proof
  assume "owner_octet a key = Some x"
  then show "(x, key) \<in> set (assigned a)"
    by (auto simp: owner_octet_def find_Some_iff) (metis nth_mem)
next
  assume x: "(x, key) \<in> set (assigned a)"
  then obtain y where y: "owner_octet a key = Some y"
    using owner_octet_None [of a key] by force
  then have "(y, key) \<in> set (assigned a)"
    by (auto simp: owner_octet_def find_Some_iff) (metis nth_mem)
  with x y show "owner_octet a key = Some x"
    using assms distinct_snd_unique [of "assigned a" x key y] by (simp add: alloc_ok_def)
qed

lemma owner_octet_lookup:
  "alloc_ok a \<Longrightarrow> owner_octet a key = Some x \<longleftrightarrow> map_of (assigned a) x = Some key"
  by (simp add: owner_octet_Some alloc_ok_def map_of_in_set)

lemma owner_octet_inj:
  "alloc_ok a \<Longrightarrow> owner_octet a k = Some x \<Longrightarrow> owner_octet a k' = Some x \<Longrightarrow> k = k'"
  by (simp add: owner_octet_lookup)

lemma probe_finds:
  assumes free: "map_of m (oct (s + i)) = None" and i: "i < 253"
    and taken: "\<And>j. j < i \<Longrightarrow> map_of m (oct (s + j)) \<noteq> None" and "d \<le> i"
  shows "probe m key (oct s) (oct (s + d)) =
    Some (Inr (loopback (oct (s + i))), map_put (oct (s + i)) key m)"
  using \<open>d \<le> i\<close>
proof (induction rule: inc_induct)
  case base
  show ?case using free by (subst probe.simps) simp
next
  case (step n)
  have "oct (s + Suc n) \<noteq> oct s"
  proof
    assume "oct (s + Suc n) = oct s"
    then have "Suc n mod 253 = 0"
      by (metis add_cancel_left_right mod_add_cong oct_eq_iff mod_0 add.commute mod_add_left_eq
          nat_mod_eq_iff add_0 mod_eq_0_iff_dvd cancel_comm_monoid_add_class.diff_cancel
          diff_add_inverse mod_eq_dvd_iff_nat le_add1)
    then show False using step.hyps i by simp
  qed
  then show ?case
    using taken [OF step.hyps(2)] step.IH
    by (subst probe.simps) (auto simp: oct_Suc Let_def)
qed

lemma free_octet:
  assumes "alloc_ok a" and "length (assigned a) < 253"
  obtains i where "i < 253" "map_of (assigned a) (oct (s + i)) = None"
    "\<And>j. j < i \<Longrightarrow> map_of (assigned a) (oct (s + j)) \<noteq> None"
proof -
  let ?free = "\<lambda>i. i < 253 \<and> map_of (assigned a) (oct (s + i)) = None"
  have "card (set (keys (assigned a))) < card octets"
    using assms by (simp add: card_octets distinct_card alloc_ok_def) (simp add: keys_def)
  then obtain w where "w \<in> octets" "w \<notin> set (keys (assigned a))"
    using assms(1) unfolding alloc_ok_def by (metis card_mono finite_set leD subsetI)
  then have "\<exists>i. ?free i" unfolding octets_from [of s] by (auto simp: map_of_eq_None_keys)
  then have "?free (Least ?free)" by (rule LeastI_ex)
  moreover have "map_of (assigned a) (oct (s + j)) \<noteq> None" if "j < Least ?free" for j
    using not_less_Least [OF that] \<open>?free (Least ?free)\<close> that by auto
  ultimately show ?thesis using that by blast
qed

text \<open>What \<open>Allocate\<close> does, one equation per branch; the wrap-around error is not among them.\<close>

lemma Allocate_known:
  "owner_octet a key = Some x \<Longrightarrow> alloc_Allocate key a = Some (Inr (loopback x), a)"
  by (auto simp: alloc_Allocate_def owner_octet_def)

lemma Allocate_full:
  "owner_octet a key = None \<Longrightarrow> 253 \<le> length (assigned a) \<Longrightarrow>
   alloc_Allocate key a = Some (Inl Range_exhausted, a)"
  by (auto simp: alloc_Allocate_def owner_octet_def)

lemma Allocate_new:
  assumes "alloc_ok a" and "owner_octet a key = None" and "length (assigned a) < 253"
  obtains i where "i < 253"
    "map_of (assigned a) (oct (unat (fnv32a key) + i)) = None"
    "\<And>j. j < i \<Longrightarrow> map_of (assigned a) (oct (unat (fnv32a key) + j)) \<noteq> None"
    "alloc_Allocate key a = Some (Inr (loopback (oct (unat (fnv32a key) + i))),
       a\<lparr>assigned := assigned a @ [(oct (unat (fnv32a key) + i), key)]\<rparr>)"
proof -
  let ?s = "unat (fnv32a key)"
  obtain i where i: "i < 253" "map_of (assigned a) (oct (?s + i)) = None"
    "\<And>j. j < i \<Longrightarrow> map_of (assigned a) (oct (?s + j)) \<noteq> None"
    using free_octet [OF assms(1,3)] by blast
  have "probe (assigned a) key (oct ?s) (oct ?s) =
      Some (Inr (loopback (oct (?s + i))), map_put (oct (?s + i)) key (assigned a))"
    using probe_finds [OF i(2,1,3), of 0 key] by simp
  then have "alloc_Allocate key a = Some (Inr (loopback (oct (?s + i))),
       a\<lparr>assigned := assigned a @ [(oct (?s + i), key)]\<rparr>)"
    using assms i(2) unfolding hashToOctet_oct [symmetric]
    by (auto simp: alloc_Allocate_def owner_octet_def Let_def keys_map_put_new map_of_eq_None_keys)
  with i that show ?thesis by blast
qed

lemma alloc_ok_append [inv_intros]:
  "alloc_ok a \<Longrightarrow> map_of (assigned a) w = None \<Longrightarrow> owner_octet a key = None \<Longrightarrow> w \<in> octets \<Longrightarrow>
   alloc_ok (a\<lparr>assigned := assigned a @ [(w, key)]\<rparr>)"
  by (auto simp: alloc_ok_def owner_octet_None map_of_eq_None_keys)

lemma find_append_option:
  "find P (xs @ ys) = (case find P xs of Some x \<Rightarrow> Some x | None \<Rightarrow> find P ys)"
  by (induction xs) simp_all

lemma owner_octet_append:
  "owner_octet a key = None \<Longrightarrow>
   owner_octet (a\<lparr>assigned := assigned a @ [(w, key)]\<rparr>) = (owner_octet a)(key \<mapsto> w)"
  unfolding owner_octet_def by (rule ext) (simp add: find_append_option split: option.splits)

lemma Release_unknown: "owner_octet a key = None \<Longrightarrow> alloc_Release key a = a"
  by (auto simp: alloc_Release_def owner_octet_def)

lemma Release_known:
  "owner_octet a key = Some w \<Longrightarrow> alloc_Release key a = a\<lparr>assigned := map_del w (assigned a)\<rparr>"
  by (auto simp: alloc_Release_def owner_octet_def)

lemma alloc_ok_Release [inv_intros]: "alloc_ok a \<Longrightarrow> alloc_ok (alloc_Release key a)"
proof (cases "owner_octet a key")
  case (Some w)
  assume ok: "alloc_ok a"
  then have "distinct (map snd (map_del w (assigned a)))"
    unfolding alloc_ok_def map_del_def by (simp add: distinct_map_filter)
  with ok Some show ?thesis
    by (auto simp: Release_known alloc_ok_def distinct_keys_map_del keys_map_del)
qed (simp add: Release_unknown)

lemma owner_octet_Release:
  assumes "alloc_ok a"
  shows "owner_octet (alloc_Release key a) = (owner_octet a)(key := None)"
proof (cases "owner_octet a key")
  case None
  then show ?thesis by (simp add: Release_unknown fun_upd_idem)
next
  case (Some w)
  show ?thesis
  proof
    fix k
    have "owner_octet (alloc_Release key a) k = Some x \<longleftrightarrow> owner_octet a k = Some x \<and> k \<noteq> key" for x
    proof -
      have "owner_octet (alloc_Release key a) k = Some x \<longleftrightarrow>
          (x, k) \<in> set (map_del w (assigned a))"
        using owner_octet_Some [OF alloc_ok_Release [OF assms], of key k x] Some
        by (simp add: Release_known)
      also have "\<dots> \<longleftrightarrow> (x, k) \<in> set (assigned a) \<and> x \<noteq> w"
        by (auto simp: map_del_def)
      also have "\<dots> \<longleftrightarrow> owner_octet a k = Some x \<and> k \<noteq> key"
        using Some owner_octet_inj [OF assms, of k x key] owner_octet_Some [OF assms, of k x] by auto
      finally show ?thesis .
    qed
    then show "owner_octet (alloc_Release key a) k = ((owner_octet a)(key := None)) k"
      by (intro option_eqI) auto
  qed
qed

text \<open>
  \<open>Allocate\<close> as the total function it is: the loop always returns, so the second branch is never
  taken (\<open>allocate_returns\<close> below).
\<close>

definition Allocate :: "string \<Rightarrow> Allocator \<Rightarrow> (alloc_error + ip) \<times> Allocator" where
  "Allocate key a =
     (case alloc_Allocate key a of Some ra \<Rightarrow> ra | None \<Rightarrow> (Inl Probe_wrapped, a))"

lemma Allocate_cases:
  assumes "alloc_ok a"
  obtains
    (known) w where "owner_octet a key = Some w" "Allocate key a = (Inr (loopback w), a)"
  | (full) "owner_octet a key = None" "253 \<le> length (assigned a)" "Allocate key a = (Inl Range_exhausted, a)"
  | (new) w where "owner_octet a key = None" "map_of (assigned a) w = None" "w \<in> octets"
      "length (assigned a) < 253"
      "Allocate key a = (Inr (loopback w), a\<lparr>assigned := assigned a @ [(w, key)]\<rparr>)"
proof (cases "owner_octet a key")
  case None
  show ?thesis
  proof (cases "253 \<le> length (assigned a)")
    case True
    then show ?thesis using full None Allocate_full [OF None True] by (simp add: Allocate_def)
  next
    case False
    then have "length (assigned a) < 253" by simp
    with assms None show ?thesis
      by (rule Allocate_new) (use new None False in \<open>auto simp: Allocate_def\<close>)
  qed
next
  case (Some w)
  then show ?thesis using known Allocate_known [OF Some] by (simp add: Allocate_def)
qed

lemma alloc_ok_Allocate [inv_intros]: "alloc_ok a \<Longrightarrow> alloc_ok (snd (Allocate key a))"
  by (rule Allocate_cases [of a key]) (auto intro: alloc_ok_append)

lemma loopback_eq [simp]: "loopback x = loopback y \<longleftrightarrow> x = y"
  by (simp add: loopback_def)

interpretation ipp: ip_port Allocate alloc_Release alloc_addr alloc_ok
proof
  fix s k a assume "alloc_ok s" and "alloc_addr s k = Some a"
  then show "Allocate k s = (Inr a, s)"
    by (auto simp: alloc_addr_def Allocate_def Allocate_known)
next
  fix s k a s'
  assume ok: "alloc_ok s" and none: "alloc_addr s k = None" and r: "Allocate k s = (Inr a, s')"
  then obtain w where w: "owner_octet s k = None" "map_of (assigned s) w = None" "a = loopback w"
    "s' = s\<lparr>assigned := assigned s @ [(w, k)]\<rparr>"
    using none r by (cases rule: Allocate_cases [OF ok, of k]) (auto simp: alloc_addr_def)
  then have "alloc_addr s' = (alloc_addr s)(k \<mapsto> a)"
    using owner_octet_append [OF w(1), of w] by (auto simp: alloc_addr_def)
  moreover have "a \<notin> ran (alloc_addr s)"
    using w(2,3) ok by (auto simp: ran_def alloc_addr_def owner_octet_lookup)
  ultimately show "a \<notin> ran (alloc_addr s) \<and> alloc_addr s' = (alloc_addr s)(k \<mapsto> a)" by simp
next
  fix s k e s' assume ok: "alloc_ok s" and r: "Allocate k s = (Inl e, s')"
  show "s' = s \<and> alloc_addr s k = None"
    using r by (cases rule: Allocate_cases [OF ok, of k]) (auto simp: alloc_addr_def)
next
  fix s k assume "alloc_ok s"
  then show "alloc_addr (alloc_Release k s) = (alloc_addr s)(k := None)"
    by (auto simp: alloc_addr_def owner_octet_Release fun_eq_iff)
next
  fix s assume "alloc_ok s"
  then show "inj_on (alloc_addr s) (dom (alloc_addr s))"
    by (auto simp: inj_on_def alloc_addr_def) (blast dest: owner_octet_inj)
qed (simp_all add: alloc_ok_Allocate alloc_ok_Release)

section \<open>Properties\<close>

text \<open>A history of calls: \<open>(key, True)\<close> allocates, \<open>(key, False)\<close> releases.\<close>

fun alloc_run :: "(string \<times> bool) list \<Rightarrow> Allocator \<Rightarrow> Allocator" where
  "alloc_run [] a = a"
| "alloc_run ((key, True) # xs) a = alloc_run xs (snd (Allocate key a))"
| "alloc_run ((key, False) # xs) a = alloc_run xs (alloc_Release key a)"

lemma alloc_run_eq: "alloc_run xs a = ipp.run_ports xs a"
  by (induction xs a rule: alloc_run.induct) simp_all

lemma alloc_run_ok [inv_intros]: "alloc_ok a \<Longrightarrow> alloc_ok (alloc_run xs a)"
  by (simp add: alloc_run_eq ipp.run_ports_ok)

lemma loopback_range: "w \<in> octets \<Longrightarrow> \<exists>n. 2 \<le> n \<and> n \<le> 254 \<and> loopback w = IPv4 127 0 0 n"
  by (auto simp: octets_def loopback_def minOctet_def maxOctet_def)

lemma alloc_addr_range: "alloc_ok a \<Longrightarrow> alloc_addr a k = Some x \<Longrightarrow> \<exists>n. 2 \<le> n \<and> n \<le> 254 \<and> x = IPv4 127 0 0 n"
  using map_of_Some_keys by (fastforce simp: alloc_addr_def owner_octet_lookup alloc_ok_def intro: loopback_range)

text \<open>
  C16: the probing loop stops for every key in every consistent map, its "wrapped around" error is dead
  code. What \<open>Allocate\<close> returns is an address in 127.0.0.2 to 127.0.0.254 that the key owns from then on,
  the one it had if it had one, and that no other key holds; every other key keeps what it had. It fails
  exactly when the key is new and all 253 addresses are taken, leaving the map as it was.
\<close>

theorem allocate_returns:
  assumes "alloc_ok a"
  shows "\<exists>r a'. alloc_Allocate key a = Some (r, a') \<and> alloc_ok a' \<and>
    (case r of
       Inr x \<Rightarrow> alloc_addr a' = (alloc_addr a)(key \<mapsto> x) \<and> (\<exists>n. 2 \<le> n \<and> n \<le> 254 \<and> x = IPv4 127 0 0 n) \<and>
         (alloc_addr a key = None \<or> alloc_addr a key = Some x) \<and> (\<forall>k. k \<noteq> key \<longrightarrow> alloc_addr a k \<noteq> Some x)
     | Inl err \<Rightarrow> err = Range_exhausted \<and> a' = a) \<and>
    (r = Inl Range_exhausted \<longleftrightarrow> alloc_addr a key = None \<and> 253 \<le> length (assigned a))"
proof -
  obtain r a' where ra: "alloc_Allocate key a = Some (r, a')" "Allocate key a = (r, a')"
    "r = Inl Range_exhausted \<longleftrightarrow> alloc_addr a key = None \<and> 253 \<le> length (assigned a)" "r \<noteq> Inl Probe_wrapped"
  proof (cases "owner_octet a key")
    case None
    show ?thesis
    proof (cases "253 \<le> length (assigned a)")
      case True
      with None assms that show ?thesis by (simp add: Allocate_full Allocate_def alloc_addr_def)
    next
      case False
      then have lt: "length (assigned a) < 253" by simp
      obtain w where "alloc_Allocate key a = Some (Inr (loopback w), a\<lparr>assigned := assigned a @ [(w, key)]\<rparr>)"
        by (rule Allocate_new [OF assms None lt]) simp
      then show ?thesis using that lt by (simp add: Allocate_def)
    qed
  qed (use that assms in \<open>simp add: Allocate_known Allocate_def alloc_addr_def\<close>)
  have ok: "alloc_ok a'" using ipp.allocate_ok [OF assms, of key] ra(2) by simp
  have "alloc_addr a' = (alloc_addr a)(key \<mapsto> x) \<and> (\<exists>n. 2 \<le> n \<and> n \<le> 254 \<and> x = IPv4 127 0 0 n) \<and>
      (alloc_addr a key = None \<or> alloc_addr a key = Some x) \<and> (\<forall>k. k \<noteq> key \<longrightarrow> alloc_addr a k \<noteq> Some x)" if "r = Inr x" for x
  proof -
    have get: "Allocate key a = (Inr x, a')" using ra(2) that by simp
    note addr = ipp.allocate_addr [OF assms get]
    then have "alloc_addr a' key = Some x" by simp
    moreover have "alloc_addr a key = None \<or> alloc_addr a key = Some x"
      using ipp.allocate_known [OF assms, of key] get by (cases "alloc_addr a key") auto
    moreover have "alloc_addr a k \<noteq> Some x" if "k \<noteq> key" for k
      using ipp.no_sharing [OF ok, of k x key] addr that by auto
    ultimately show ?thesis using addr alloc_addr_range [OF ok] by blast
  qed
  moreover have "err = Range_exhausted \<and> a' = a" if "r = Inl err" for err
    using ipp.allocate_fails [OF assms, of key err a'] ra(2,4) that by (cases err) auto
  ultimately show ?thesis using ra ok by (intro exI [of _ r] exI [of _ a']) (auto split: sum.splits)
qed

theorem allocate_returns_witness:
  "\<exists>x a'. alloc_Allocate ''dev/redis'' alloc_New = Some (Inr x, a') \<and> alloc_addr a' ''dev/redis'' = Some x"
proof -
  have "length (assigned alloc_New) < 253" by (simp add: alloc_New_def)
  then obtain r a' where "alloc_Allocate ''dev/redis'' alloc_New = Some (r, a')" "r \<noteq> Inl Range_exhausted"
    "case r of Inr x \<Rightarrow> alloc_addr a' = (alloc_addr alloc_New)(''dev/redis'' \<mapsto> x) \<and>
         (\<exists>n. 2 \<le> n \<and> n \<le> 254 \<and> x = IPv4 127 0 0 n) \<and>
         (alloc_addr alloc_New ''dev/redis'' = None \<or> alloc_addr alloc_New ''dev/redis'' = Some x) \<and>
         (\<forall>k. k \<noteq> ''dev/redis'' \<longrightarrow> alloc_addr alloc_New k \<noteq> Some x)
     | Inl err \<Rightarrow> err = Range_exhausted \<and> a' = alloc_New"
    using allocate_returns [OF alloc_ok_New, of "''dev/redis''"] by auto
  then show ?thesis by (cases r) auto
qed

text \<open>
  C15: over any history of allocations and releases that starts with an empty allocator, two keys
  never hold the same address, every address lies in 127.0.0.2 to 127.0.0.254, and a key keeps its
  address until it is released itself.
\<close>

theorem allocation_private_and_stable:
  assumes "a = alloc_run xs alloc_New"
  shows "(alloc_addr a k = Some x \<and> alloc_addr a k' = Some x \<longrightarrow> k = k')
    \<and> (alloc_addr a k = Some x \<longrightarrow> (\<exists>n. 2 \<le> n \<and> n \<le> 254 \<and> x = IPv4 127 0 0 n))
    \<and> (alloc_addr a k = Some x \<and> (k, False) \<notin> set ys \<longrightarrow> alloc_addr (alloc_run ys a) k = Some x)"
proof -
  have ok: "alloc_ok a" unfolding assms by (rule alloc_run_ok) simp
  show ?thesis
    using alloc_addr_range [OF ok] ipp.no_sharing [OF ok] ipp.run_ports_keeps [OF ok, of k x ys] by (auto simp: alloc_run_eq)
qed

theorem allocation_private_and_stable_witness:
  "alloc_addr (alloc_run [(''dev/redis'', True)] alloc_New) ''dev/redis'' \<noteq> None \<and>
   alloc_addr (alloc_run [(''dev/redis'', True)] alloc_New) ''dev/pg'' =
     alloc_addr (alloc_run [(''dev/pg'', False)] (alloc_run [(''dev/redis'', True)] alloc_New)) ''dev/pg''"
proof -
  let ?a = "alloc_run [(''dev/redis'', True)] alloc_New"
  have "alloc_addr ?a ''dev/redis'' \<noteq> None \<and> alloc_addr ?a ''dev/pg'' = None"
    by (rule Allocate_cases [OF alloc_ok_New, of "''dev/redis''"])
      (auto simp: alloc_New_def alloc_addr_def owner_octet_def)
  moreover from this obtain x where "alloc_addr ?a ''dev/redis'' = Some x" by auto
  ultimately show ?thesis
    using allocation_private_and_stable [of ?a "[(''dev/redis'', True)]" "''dev/redis''" x "''dev/pg''" "[]"]
      ipp.release_addr [OF alloc_run_ok [OF alloc_ok_New], of "''dev/pg''" "[(''dev/redis'', True)]"]
    by auto
qed

end
