(* ===== verification/Config.thy ===== *)
theory Config
  imports Go_Errors Go_Strings "HOL-Library.Multiset"
begin

text \<open>
  \<open>internal/config/config.go\<close>: the configuration, its defaults and its validation. The YAML
  decoder is a third-party package: \<open>Parse\<close> takes it as an argument. \<open>Profiles\<close> is a Go map, here
  the list of its entries in the order one \<open>range\<close> visits them.
\<close>

record ReconnectConfig =
  MaxBackoffSeconds :: int
  MaxAttempts :: int

record Defaults =
  Reconnect :: ReconnectConfig
  HealthCheckSeconds :: int

record Service =
  Name :: string
  DNSName :: string
  RemoteHost :: string
  RemotePort :: int
  LocalPort :: int
  Sigv4Service :: string

record Profile =
  AWSProfile :: string
  AWSRegion :: string
  pr_Target :: string
  TargetASG :: string
  Services :: "Service list"

record Config =
  cfg_Defaults :: Defaults
  Profiles :: "(string \<times> Profile) list"

section \<open>Defaults\<close>

definition default_port :: "Service \<Rightarrow> Service" where
  "default_port svc = (if LocalPort svc = 0 then svc\<lparr>LocalPort := RemotePort svc\<rparr> else svc)"

definition default_ports :: "Profile \<Rightarrow> Profile" where
  "default_ports profile = profile\<lparr>Services := map default_port (Services profile)\<rparr>"

definition applyDefaults :: "Config \<Rightarrow> Config" where
  "applyDefaults cfg =
     (let d = cfg_Defaults cfg;
          d = (if MaxBackoffSeconds (Reconnect d) = 0
               then d\<lparr>Reconnect := (Reconnect d)\<lparr>MaxBackoffSeconds := 30\<rparr>\<rparr> else d);
          d = (if HealthCheckSeconds d \<le> 0 then d\<lparr>HealthCheckSeconds := 10\<rparr> else d)
      in cfg\<lparr>cfg_Defaults := d, Profiles := map (\<lambda>(name, p). (name, default_ports p)) (Profiles cfg)\<rparr>)"

section \<open>Validation\<close>

text \<open>One constructor per message of \<open>validate\<close>, with the values it prints.\<close>

datatype config_error =
    No_profiles
  | AWSProfile_required string
  | AWSRegion_required string
  | Target_required string
  | Target_exclusive string
  | No_services string
  | Name_required string
  | Duplicate_service string string
  | DNSName_required string string
  | Duplicate_DNSName string string string
  | RemoteHost_required string string
  | RemotePort_required string string

text \<open>The loop over one profile's services; it threads \<open>serviceNames\<close> and \<open>dnsNames\<close>.\<close>

fun validate_services ::
  "string \<Rightarrow> string list \<Rightarrow> (string \<times> string) list \<Rightarrow> Service list \<Rightarrow>
   config_error + (string \<times> string) list" where
  "validate_services profileName serviceNames dnsNames [] = Inr dnsNames"
| "validate_services profileName serviceNames dnsNames (svc # rest) =
     (if Name svc = [] then Inl (Name_required profileName)
      else if Name svc \<in> set serviceNames then Inl (Duplicate_service profileName (Name svc))
      else if DNSName svc = [] then Inl (DNSName_required profileName (Name svc))
      else
        let qualifiedName = profileName @ ''/'' @ Name svc
        in case map_of dnsNames (DNSName svc) of
            Some existing \<Rightarrow> Inl (Duplicate_DNSName (DNSName svc) existing qualifiedName)
          | None \<Rightarrow>
              if RemoteHost svc = [] then Inl (RemoteHost_required profileName (Name svc))
              else if RemotePort svc = 0 then Inl (RemotePort_required profileName (Name svc))
              else validate_services profileName (Name svc # serviceNames)
                     (map_put (DNSName svc) qualifiedName dnsNames) rest)"

fun validate_profiles ::
  "(string \<times> string) list \<Rightarrow> (string \<times> Profile) list \<Rightarrow> config_error option" where
  "validate_profiles dnsNames [] = None"
| "validate_profiles dnsNames ((profileName, profile) # rest) =
     (if AWSProfile profile = [] then Some (AWSProfile_required profileName)
      else if AWSRegion profile = [] then Some (AWSRegion_required profileName)
      else if pr_Target profile = [] \<and> TargetASG profile = [] then Some (Target_required profileName)
      else if pr_Target profile \<noteq> [] \<and> TargetASG profile \<noteq> [] then Some (Target_exclusive profileName)
      else if Services profile = [] then Some (No_services profileName)
      else case validate_services profileName [] dnsNames (Services profile) of
          Inl err \<Rightarrow> Some err
        | Inr dnsNames' \<Rightarrow> validate_profiles dnsNames' rest)"

definition validate :: "Config \<Rightarrow> config_error option" where
  "validate cfg = (if Profiles cfg = [] then Some No_profiles else validate_profiles [] (Profiles cfg))"

datatype parse_error =
    Reading_config go_error
  | Parsing_config go_error
  | Config_validation config_error

definition Parse :: "(bytes \<Rightarrow> go_error + Config) \<Rightarrow> bytes \<Rightarrow> parse_error + Config" where
  "Parse unmarshal data =
     (case unmarshal data of
        Inl err \<Rightarrow> Inl (Parsing_config err)
      | Inr cfg \<Rightarrow>
          let cfg = applyDefaults cfg
          in case validate cfg of Some err \<Rightarrow> Inl (Config_validation err) | None \<Rightarrow> Inr cfg)"

definition Load :: "(bytes \<Rightarrow> go_error + Config) \<Rightarrow> go_error + bytes \<Rightarrow> parse_error + Config" where
  "Load unmarshal file =
     (case file of Inl err \<Rightarrow> Inl (Reading_config err) | Inr data \<Rightarrow> Parse unmarshal data)"

section \<open>The setup hash\<close>

text \<open>
  \<open>hash.go\<close>. The files are what \<open>os.ReadFile\<close> answers; the hexadecimal SHA-256 digest is an
  argument.
\<close>

definition HashFile :: "(bytes \<Rightarrow> string) \<Rightarrow> go_error + bytes \<Rightarrow> go_error + string" where
  "HashFile sha256_hex file =
     (case file of Inl err \<Rightarrow> Inl (Errorf_w ''reading config for hash'' err) | Inr data \<Rightarrow> Inr (sha256_hex data))"

definition SetupStale :: "(bytes \<Rightarrow> string) \<Rightarrow> go_error + bytes \<Rightarrow> go_error + bytes \<Rightarrow> bool" where
  "SetupStale sha256_hex hash_file config_file =
     (case hash_file of
        Inl _ \<Rightarrow> False
      | Inr savedHash \<Rightarrow>
          (case HashFile sha256_hex config_file of Inl _ \<Rightarrow> False | Inr currentHash \<Rightarrow> savedHash \<noteq> currentHash))"

text \<open>\<open>SaveSetupHash\<close>: what the hash file holds afterwards, unless a step fails.\<close>

definition SaveSetupHash ::
  "(bytes \<Rightarrow> string) \<Rightarrow> go_error + bytes \<Rightarrow> go_error option \<Rightarrow> go_error option \<Rightarrow> go_error + bytes" where
  "SaveSetupHash sha256_hex config_file mkdir_err write_err =
     (case HashFile sha256_hex config_file of
        Inl err \<Rightarrow> Inl err
      | Inr hash \<Rightarrow>
          (case mkdir_err of Some err \<Rightarrow> Inl err
           | None \<Rightarrow> (case write_err of Some err \<Rightarrow> Inl err | None \<Rightarrow> Inr hash)))"

section \<open>What a valid configuration is\<close>

text \<open>The declarative reading of \<open>validate\<close>: no order of profiles, no running map.\<close>

definition service_complete :: "Service \<Rightarrow> bool" where
  "service_complete svc \<longleftrightarrow>
     Name svc \<noteq> [] \<and> DNSName svc \<noteq> [] \<and> RemoteHost svc \<noteq> [] \<and> RemotePort svc \<noteq> 0"

definition profile_complete :: "Profile \<Rightarrow> bool" where
  "profile_complete p \<longleftrightarrow>
     AWSProfile p \<noteq> [] \<and> AWSRegion p \<noteq> [] \<and> (pr_Target p = [] \<longleftrightarrow> TargetASG p \<noteq> []) \<and>
     Services p \<noteq> [] \<and> list_all service_complete (Services p) \<and> distinct (map Name (Services p))"

definition config_services :: "Config \<Rightarrow> (string \<times> Service) list" where
  "config_services cfg = concat (map (\<lambda>(name, p). map (Pair name) (Services p)) (Profiles cfg))"

definition config_valid :: "Config \<Rightarrow> bool" where
  "config_valid cfg \<longleftrightarrow>
     Profiles cfg \<noteq> [] \<and> list_all (profile_complete \<circ> snd) (Profiles cfg) \<and>
     distinct (map (DNSName \<circ> snd) (config_services cfg))"

text \<open>\<open>profile + "/" + service.Name\<close>, the key the engine and the allocator use.\<close>

definition service_key :: "string \<Rightarrow> Service \<Rightarrow> string" where
  "service_key profile svc = profile @ ''/'' @ Name svc"

lemma validate_services_ok:
  "(\<exists>dns'. validate_services p names dns svcs = Inr dns') \<longleftrightarrow>
     list_all service_complete svcs \<and> distinct (map Name svcs) \<and> set (map Name svcs) \<inter> set names = {} \<and>
     distinct (map DNSName svcs) \<and> set (map DNSName svcs) \<inter> set (keys dns) = {}"
proof (induction p names dns svcs rule: validate_services.induct)
  case (2 p names dns svc rest)
  show ?case
  proof (cases "service_complete svc \<and> Name svc \<notin> set names \<and> DNSName svc \<notin> set (keys dns)")
    case True
    then show ?thesis
      using 2 by (auto simp: service_complete_def map_of_eq_None_keys [symmetric] set_keys_map_put Let_def)
  next
    case False
    then show ?thesis
      by (auto simp: service_complete_def Let_def map_of_eq_None_keys [symmetric] split: option.splits)
  qed
qed simp

lemma validate_services_keys:
  "validate_services p names dns svcs = Inr dns' \<Longrightarrow> set (keys dns') = set (keys dns) \<union> set (map DNSName svcs)"
  by (induction p names dns svcs rule: validate_services.induct)
    (auto simp: Let_def set_keys_map_put split: if_splits option.splits)

lemma disjoint_append:
  assumes "distinct xs" and "set xs \<inter> D = {}"
  shows "distinct (xs @ ys) \<and> set (xs @ ys) \<inter> D = {} \<longleftrightarrow> distinct ys \<and> set ys \<inter> (D \<union> set xs) = {}"
  using assms by auto

lemma validate_profiles_ok:
  "validate_profiles dns ps = None \<longleftrightarrow>
     list_all (profile_complete \<circ> snd) ps \<and>
     distinct (concat (map (map DNSName \<circ> Services \<circ> snd) ps)) \<and>
     set (concat (map (map DNSName \<circ> Services \<circ> snd) ps)) \<inter> set (keys dns) = {}"
proof (induction dns ps rule: validate_profiles.induct)
  case (2 dns p profile rest)
  show ?case
  proof (cases "AWSProfile profile \<noteq> [] \<and> AWSRegion profile \<noteq> [] \<and>
      (pr_Target profile = [] \<longleftrightarrow> TargetASG profile \<noteq> []) \<and> Services profile \<noteq> []")
    case head: True
    show ?thesis
    proof (cases "validate_services p [] dns (Services profile)")
      case (Inl err)
      then have "\<not> (\<exists>dns'. validate_services p [] dns (Services profile) = Inr dns')" by simp
      then show ?thesis
        using Inl head unfolding validate_services_ok by (auto simp: profile_complete_def)
    next
      case (Inr dns')
      then have ok: "list_all service_complete (Services profile)" "distinct (map Name (Services profile))"
        "distinct (map DNSName (Services profile))"
        "set (map DNSName (Services profile)) \<inter> set (keys dns) = {}"
        using validate_services_ok [of p "[]" dns "Services profile"] by auto
      have keys: "set (keys dns') = set (keys dns) \<union> set (map DNSName (Services profile))"
        using Inr by (rule validate_services_keys)
      have "validate_profiles dns ((p, profile) # rest) = None \<longleftrightarrow> validate_profiles dns' rest = None"
        using Inr head by auto
      moreover have "validate_profiles dns' rest = None \<longleftrightarrow>
          list_all (profile_complete \<circ> snd) rest \<and>
          distinct (concat (map (map DNSName \<circ> Services \<circ> snd) rest)) \<and>
          set (concat (map (map DNSName \<circ> Services \<circ> snd) rest)) \<inter> set (keys dns') = {}"
        using head Inr by (intro 2) auto
      moreover have "profile_complete profile" using head ok(1,2) by (simp add: profile_complete_def)
      ultimately show ?thesis
        using disjoint_append [OF ok(3,4), of "concat (map (map DNSName \<circ> Services \<circ> snd) rest)"]
        unfolding keys by (simp add: comp_def)
    qed
  next
    case False
    then show ?thesis by (auto simp: profile_complete_def)
  qed
qed simp

lemma dns_names_eq:
  "map (DNSName \<circ> snd) (config_services cfg) = concat (map (map DNSName \<circ> Services \<circ> snd) (Profiles cfg))"
  by (auto simp: config_services_def map_concat comp_def split_beta)

lemma validate_iff: "validate cfg = None \<longleftrightarrow> config_valid cfg"
  unfolding validate_def config_valid_def dns_names_eq by (simp add: validate_profiles_ok)

lemma config_services_perm:
  assumes "mset (Profiles cfg) = mset (Profiles cfg')"
  shows "mset (config_services cfg) = mset (config_services cfg')"
proof -
  have "mset (concat (map f ps)) = (\<Sum>x\<in>#mset ps. mset (f x))" for f :: "string \<times> Profile \<Rightarrow> (string \<times> Service) list" and ps
    by (induction ps) auto
  then show ?thesis using assms by (simp add: config_services_def)
qed

lemma config_valid_perm:
  assumes "mset (Profiles cfg) = mset (Profiles cfg')"
  shows "config_valid cfg \<longleftrightarrow> config_valid cfg'"
proof -
  have "set (Profiles cfg) = set (Profiles cfg')" using assms by (rule mset_eq_setD)
  moreover have "mset (map (DNSName \<circ> snd) (config_services cfg)) = mset (map (DNSName \<circ> snd) (config_services cfg'))"
    using config_services_perm [OF assms] by simp
  then have "distinct (map (DNSName \<circ> snd) (config_services cfg)) =
      distinct (map (DNSName \<circ> snd) (config_services cfg'))"
    by (rule mset_eq_imp_distinct_iff)
  ultimately show ?thesis by (auto simp: config_valid_def list_all_iff)
qed

text \<open>Defaults leave everything alone that validation reads.\<close>

lemma default_port_fields [simp]:
  "Name (default_port svc) = Name svc" "DNSName (default_port svc) = DNSName svc"
  "RemoteHost (default_port svc) = RemoteHost svc" "RemotePort (default_port svc) = RemotePort svc"
  "LocalPort (default_port svc) = 0 \<longleftrightarrow> LocalPort svc = 0 \<and> RemotePort svc = 0"
  "default_port (default_port svc) = default_port svc"
  by (simp_all add: default_port_def)

lemma service_complete_default [simp]: "service_complete (default_port svc) = service_complete svc"
  by (simp add: service_complete_def)

lemma profile_complete_default [simp]: "profile_complete (default_ports p) = profile_complete p"
  by (simp add: profile_complete_def default_ports_def list.pred_map comp_def)

lemma Profiles_applyDefaults:
  "Profiles (applyDefaults cfg) = map (\<lambda>(name, p). (name, default_ports p)) (Profiles cfg)"
  by (simp add: applyDefaults_def Let_def)

lemma config_services_applyDefaults:
  "config_services (applyDefaults cfg) = map (\<lambda>(name, svc). (name, default_port svc)) (config_services cfg)"
  by (auto simp: config_services_def Profiles_applyDefaults default_ports_def map_concat comp_def split_beta)

lemma config_valid_applyDefaults [simp]: "config_valid (applyDefaults cfg) = config_valid cfg"
  by (auto simp: config_valid_def config_services_applyDefaults Profiles_applyDefaults list.pred_map comp_def
      split_beta)

lemma applyDefaults_idem: "applyDefaults (applyDefaults cfg) = applyDefaults cfg"
  by (auto simp: applyDefaults_def Let_def default_ports_def comp_def split_beta)

lemma Parse_Inr:
  "Parse unmarshal data = Inr cfg \<longleftrightarrow>
     (\<exists>raw. unmarshal data = Inr raw \<and> config_valid raw \<and> cfg = applyDefaults raw)"
  using validate_iff [of "applyDefaults _"]
  by (auto simp: Parse_def Let_def split: sum.splits option.splits) (metis option.distinct(1))

text \<open>
  C19: \<open>validate\<close> accepts exactly the configurations that are valid in the declarative sense:
  profiles exist, each is complete with one kind of target and distinctly named complete services,
  and no two services of the whole file share a \<open>dns_name\<close>. So its verdict does not depend on the
  order in which Go's map iteration visits the profiles.
\<close>

theorem validate_exact:
  "(validate cfg = None \<longleftrightarrow> config_valid cfg) \<and>
   (mset ps = mset (Profiles cfg) \<longrightarrow> (validate (cfg\<lparr>Profiles := ps\<rparr>) = None \<longleftrightarrow> config_valid cfg))"
  using config_valid_perm [of "cfg\<lparr>Profiles := ps\<rparr>" cfg] by (simp add: validate_iff)

text \<open>A configuration with two services, used by witnesses.\<close>

definition sample_service :: "string \<Rightarrow> Service" where
  "sample_service n = \<lparr>Name = n, DNSName = n @ ''.dev'', RemoteHost = n @ ''.internal'',
     RemotePort = 5432, LocalPort = 0, Sigv4Service = []\<rparr>"

definition sample_profile :: "Service list \<Rightarrow> Profile" where
  "sample_profile svcs = \<lparr>AWSProfile = ''acme'', AWSRegion = ''eu-west-1'', pr_Target = [],
     TargetASG = ''bastion'', Services = svcs\<rparr>"

definition sample_config :: "(string \<times> Profile) list \<Rightarrow> Config" where
  "sample_config ps = \<lparr>cfg_Defaults = \<lparr>Reconnect = \<lparr>MaxBackoffSeconds = 0, MaxAttempts = 0\<rparr>,
     HealthCheckSeconds = 0\<rparr>, Profiles = ps\<rparr>"

definition two_profiles :: "(string \<times> Profile) list" where
  "two_profiles = [(''dev'', sample_profile [sample_service ''db'', sample_service ''os'']),
                   (''prod'', sample_profile [sample_service ''web''])]"

lemma sample_valid [simp]: "config_valid (sample_config two_profiles)"
  by code_simp

theorem validate_exact_witness:
  "validate ((sample_config two_profiles)\<lparr>Profiles := rev two_profiles\<rparr>) = None"
  using validate_exact [of "sample_config two_profiles" "rev two_profiles"]
  by (simp add: sample_config_def [of two_profiles]) (simp add: sample_config_def [symmetric])

text \<open>
  C20: a configuration that \<open>Parse\<close> returns is valid and normal: every service has a local and a
  remote port, the health check interval is positive, the backoff cap is set, and a second pass of
  the defaults changes nothing. A decoded file is refused for no other reason than being invalid.
\<close>

theorem Parse_normal:
  assumes "Parse unmarshal data = Inr cfg"
  shows "config_valid cfg \<and> applyDefaults cfg = cfg \<and>
    (\<forall>(p, svc)\<in>set (config_services cfg). LocalPort svc \<noteq> 0 \<and> RemotePort svc \<noteq> 0) \<and>
    HealthCheckSeconds (cfg_Defaults cfg) > 0 \<and> MaxBackoffSeconds (Reconnect (cfg_Defaults cfg)) \<noteq> 0 \<and>
    (\<forall>data'. unmarshal data' = Inr raw \<and> config_valid raw \<longrightarrow> Parse unmarshal data' = Inr (applyDefaults raw))"
proof -
  from assms obtain raw where raw: "config_valid raw" "cfg = applyDefaults raw" by (auto simp: Parse_Inr)
  have "RemotePort svc \<noteq> 0" if "(p, svc) \<in> set (config_services raw)" for p svc
    using that raw(1) by (auto simp: config_valid_def config_services_def profile_complete_def
        service_complete_def list_all_iff)
  then have "\<forall>(p, svc)\<in>set (config_services cfg). LocalPort svc \<noteq> 0 \<and> RemotePort svc \<noteq> 0"
    using raw(2) by (auto simp: config_services_applyDefaults)
  moreover have "HealthCheckSeconds (cfg_Defaults cfg) > 0" "MaxBackoffSeconds (Reconnect (cfg_Defaults cfg)) \<noteq> 0"
    by (auto simp: raw(2) applyDefaults_def Let_def)
  ultimately show ?thesis using raw by (simp add: applyDefaults_idem Parse_Inr)
qed

theorem Parse_normal_witness:
  "LocalPort (snd (hd (config_services (applyDefaults (sample_config two_profiles))))) = 5432 \<and>
   config_valid (applyDefaults (sample_config two_profiles)) \<and>
   HealthCheckSeconds (cfg_Defaults (applyDefaults (sample_config two_profiles))) > 0"
proof -
  have "Parse (\<lambda>_. Inr (sample_config two_profiles)) [] = Inr (applyDefaults (sample_config two_profiles))"
    by (simp add: Parse_Inr)
  note Parse_normal [OF this, of "sample_config two_profiles"]
  moreover have "LocalPort (snd (hd (config_services (applyDefaults (sample_config two_profiles))))) = 5432"
    by code_simp
  ultimately show ?thesis by blast
qed

text \<open>Keys: the first slash of a key ends the profile's name.\<close>

lemma service_key_inj:
  assumes "service_key p svc = service_key q svc'" and "CHR ''/'' \<notin> set p" and "CHR ''/'' \<notin> set q"
  shows "p = q \<and> Name svc = Name svc'"
proof -
  have "takeWhile (\<lambda>c. c \<noteq> CHR ''/'') (service_key r s) = r" if "CHR ''/'' \<notin> set r" for r and s :: Service
  proof -
    have "takeWhile (\<lambda>c. c \<noteq> CHR ''/'') (r @ CHR ''/'' # Name s) = takeWhile (\<lambda>c. c \<noteq> CHR ''/'') r"
      by (rule takeWhile_tail) simp
    also have "\<dots> = r" using that by (simp add: takeWhile_eq_all_conv) metis
    finally show ?thesis by (simp add: service_key_def)
  qed
  with assms have "p = q" by metis
  with assms(1) show ?thesis by (simp add: service_key_def)
qed

lemma config_keys_distinct:
  assumes "config_valid cfg" and "distinct (keys (Profiles cfg))"
    and "list_all (\<lambda>p. CHR ''/'' \<notin> set p) (keys (Profiles cfg))"
  shows "distinct (map (\<lambda>(p, svc). service_key p svc) (config_services cfg))"
proof -
  have "distinct (map (\<lambda>(p, svc). service_key p svc) (concat (map (\<lambda>(name, p). map (Pair name) (Services p)) ps)))"
    if "list_all (profile_complete \<circ> snd) ps" "distinct (keys ps)" "list_all (\<lambda>p. CHR ''/'' \<notin> set p) (keys ps)"
    for ps
    using that
  proof (induction ps)
    case (Cons e ps)
    obtain name p where e: "e = (name, p)" by (cases e)
    have "inj_on (\<lambda>svc. service_key name svc) (set (Services p))"
      using Cons.prems(1) by (auto simp: e profile_complete_def distinct_map inj_on_def service_key_def)
    moreover have "distinct (Services p)"
      using Cons.prems(1) by (auto simp: e profile_complete_def distinct_map)
    moreover have "service_key name svc \<noteq> service_key name' svc'"
      if "(name', p') \<in> set ps" for svc svc' name' p'
      using that Cons.prems(2,3) service_key_inj [of name svc name' svc']
      by (force simp: e keys_def list_all_iff)
    ultimately show ?case
      using Cons by (auto simp: e distinct_map comp_def)
  qed simp
  with assms show ?thesis by (auto simp: config_valid_def config_services_def)
qed

text \<open>
  in a valid configuration whose profile names contain no slash, the keys
  \<open>profile/service\<close> under which the engine keeps instances and the allocator keeps addresses are
  all different. Nothing in \<open>validate\<close> forbids the slash: the configuration at the end is
  accepted although two of its services share one key.
\<close>

lemma service_keys_distinct:
  assumes "validate cfg = None" and "distinct (keys (Profiles cfg))"
    and "list_all (\<lambda>p. CHR ''/'' \<notin> set p) (keys (Profiles cfg))"
  shows "distinct (map (\<lambda>(p, svc). service_key p svc) (config_services cfg)) \<and>
    (\<exists>bad. validate bad = None \<and> distinct (keys (Profiles bad)) \<and>
       \<not> distinct (map (\<lambda>(p, svc). service_key p svc) (config_services bad)))"
proof -
  let ?bad = "sample_config [(''a/b'', sample_profile [sample_service ''c'']),
    (''a'', sample_profile [(sample_service ''b/c'')\<lparr>DNSName := ''x.dev''\<rparr>])]"
  have "validate ?bad = None" "distinct (keys (Profiles ?bad))"
    "\<not> distinct (map (\<lambda>(p, svc). service_key p svc) (config_services ?bad))"
    by code_simp+
  then show ?thesis using assms config_keys_distinct validate_iff by blast
qed

lemma service_keys_distinct_witness:
  "distinct (map (\<lambda>(p, svc). service_key p svc) (config_services (sample_config two_profiles)))"
proof -
  have "list_all (\<lambda>p. CHR ''/'' \<notin> set p) (keys (Profiles (sample_config two_profiles)))"
    "distinct (keys (Profiles (sample_config two_profiles)))" by code_simp+
  then show ?thesis
    using service_keys_distinct [of "sample_config two_profiles"] by (simp add: validate_iff)
qed

end
