(* ===== verification/Ring_Buffer.thy ===== *)
theory Ring_Buffer
  imports Prelude
begin

text \<open>
  \<open>internal/session/ringbuffer.go\<close>: the bounded buffer that keeps the newest bytes a child wrote
  to stderr. \<open>copy\<close> is Go's: it copies as much as fits. The locale \<open>tail_buffer\<close> is what the
  session code relies on, a writer that remembers the last \<open>size\<close> bytes; the ring buffer
  implements it.
\<close>

section \<open>The contract\<close>

locale tail_buffer =
  fixes put :: "bytes \<Rightarrow> 'b \<Rightarrow> 'b"
    and contents :: "'b \<Rightarrow> bytes"
    and limit :: "'b \<Rightarrow> nat"
    and ok :: "'b \<Rightarrow> bool"
  assumes contents_write: "ok b \<Longrightarrow> contents (put p b) = last_n (limit b) (contents b @ p)"
    and limit_write: "ok b \<Longrightarrow> limit (put p b) = limit b"
    and ok_write: "ok b \<Longrightarrow> ok (put p b)"
    and contents_limit: "ok b \<Longrightarrow> length (contents b) \<le> limit b"
begin

lemma contents_writes:
  "ok b \<Longrightarrow> contents (fold put ps b) = last_n (limit b) (contents b @ concat ps)"
proof (induction ps arbitrary: b)
  case Nil
  then show ?case by (simp add: last_n_all contents_limit)
next
  case (Cons p ps)
  then show ?case
    by (simp add: ok_write limit_write contents_write last_n_append)
qed

lemma ok_writes: "ok b \<Longrightarrow> ok (fold put ps b) \<and> limit (fold put ps b) = limit b"
  by (induction ps arbitrary: b) (simp_all add: ok_write limit_write)

text \<open>How the bytes were split into writes does not matter.\<close>

lemma writes_concat:
  "ok b \<Longrightarrow> concat ps = concat qs \<Longrightarrow> contents (fold put ps b) = contents (fold put qs b)"
  by (simp add: contents_writes)

text \<open>Whatever was written last and fits is there to the byte.\<close>

lemma newest_kept:
  "ok b \<Longrightarrow> concat ps = old @ new \<Longrightarrow> length new \<le> limit b \<Longrightarrow>
   suffix new (contents (fold put ps b))"
proof -
  assume b: "ok b" and ps: "concat ps = old @ new" and len: "length new \<le> limit b"
  have "contents (fold put ps b) = drop (length (contents b @ old @ new) - limit b) (contents b @ old @ new)"
    by (simp add: contents_writes b ps last_n_def)
  also have "\<dots> = drop (length (contents b @ old @ new) - limit b) (contents b @ old) @ new"
    using len by simp
  finally show ?thesis by (simp add: suffix_def)
qed

end

section \<open>The ring buffer\<close>

record ringBuffer =
  rb_buf :: bytes
  rb_size :: nat
  rb_full :: bool
  rb_pos :: nat

text \<open>\<open>copy(dst[i:], src)\<close>.\<close>

definition copy_at :: "nat \<Rightarrow> 'a list \<Rightarrow> 'a list \<Rightarrow> 'a list" where
  "copy_at i src dst = take i dst @ take (length dst - i) src @ drop (i + length src) dst"

definition newRingBuffer :: "nat \<Rightarrow> ringBuffer" where
  "newRingBuffer capacity =
     \<lparr>rb_buf = replicate capacity (CHR 0x00), rb_size = capacity, rb_full = False, rb_pos = 0\<rparr>"

definition ring_Write :: "bytes \<Rightarrow> ringBuffer \<Rightarrow> nat \<times> ringBuffer" where
  "ring_Write p r =
     (let n = length p in
      if n \<ge> rb_size r then
        (n, r\<lparr>rb_buf := copy_at 0 (drop (n - rb_size r) p) (rb_buf r), rb_pos := 0, rb_full := True\<rparr>)
      else
        let past = rb_pos r + n;
            r1 = (if past \<le> rb_size r then r\<lparr>rb_buf := copy_at (rb_pos r) p (rb_buf r)\<rparr>
                  else
                    let first = rb_size r - rb_pos r;
                        buf1 = copy_at (rb_pos r) (take first p) (rb_buf r)
                    in r\<lparr>rb_buf := copy_at 0 (drop first p) buf1, rb_full := True\<rparr>);
            r2 = r1\<lparr>rb_pos := past mod rb_size r\<rparr>
        in (n, if past \<ge> rb_size r then r2\<lparr>rb_full := True\<rparr> else r2))"

definition ring_Bytes :: "ringBuffer \<Rightarrow> bytes" where
  "ring_Bytes r =
     (if \<not> rb_full r then copy_at 0 (take (rb_pos r) (rb_buf r)) (replicate (rb_pos r) (CHR 0x00))
      else
        let out = copy_at 0 (drop (rb_pos r) (rb_buf r)) (replicate (rb_size r) (CHR 0x00))
        in copy_at (rb_size r - rb_pos r) (take (rb_pos r) (rb_buf r)) out)"

definition ring_ok :: "ringBuffer \<Rightarrow> bool" where
  "ring_ok r \<longleftrightarrow> length (rb_buf r) = rb_size r \<and> (rb_pos r < rb_size r \<or> rb_pos r = 0)"

lemma ring_Bytes_eq:
  assumes "ring_ok r"
  shows "ring_Bytes r =
    (if rb_full r then drop (rb_pos r) (rb_buf r) @ take (rb_pos r) (rb_buf r)
     else take (rb_pos r) (rb_buf r))"
  using assms by (auto simp: ring_Bytes_def ring_ok_def copy_at_def Let_def)

lemma ring_ok_new [simp]: "ring_ok (newRingBuffer n)"
  by (simp add: ring_ok_def newRingBuffer_def)

lemma ring_Bytes_new [simp]: "ring_Bytes (newRingBuffer n) = []"
  by (simp add: ring_Bytes_eq) (simp add: newRingBuffer_def)

lemma ring_size_new [simp]: "rb_size (newRingBuffer n) = n"
  by (simp add: newRingBuffer_def)

lemma ring_size_Write [simp]: "rb_size (snd (ring_Write p r)) = rb_size r"
  by (simp add: ring_Write_def Let_def)

lemma ring_ok_Write: "ring_ok r \<Longrightarrow> ring_ok (snd (ring_Write p r))"
  by (auto simp: ring_Write_def ring_ok_def Let_def copy_at_def)

lemma length_ring_Bytes: "ring_ok r \<Longrightarrow> length (ring_Bytes r) \<le> rb_size r"
  by (auto simp: ring_Bytes_eq ring_ok_def)

text \<open>The three shapes of a write: it replaces everything, it fits before the end, it wraps.\<close>

lemma ring_Bytes_Write_large:
  assumes "ring_ok r" and "rb_size r \<le> length p"
  shows "ring_Bytes (snd (ring_Write p r)) = last_n (rb_size r) p"
proof -
  have "ring_ok (snd (ring_Write p r))" using assms(1) by (rule ring_ok_Write)
  then show ?thesis
    using assms by (auto simp: ring_Bytes_eq) (auto simp: ring_Write_def ring_ok_def Let_def copy_at_def last_n_def)
qed

lemma ring_Bytes_Write_fits:
  assumes ok: "ring_ok r" and p: "length p < rb_size r" and fits: "rb_pos r + length p < rb_size r"
  shows "ring_Bytes (snd (ring_Write p r)) = last_n (rb_size r) (ring_Bytes r @ p)"
proof -
  let ?r' = "snd (ring_Write p r)"
  have r': "rb_pos ?r' = rb_pos r + length p" "rb_full ?r' = rb_full r"
    "rb_buf ?r' = copy_at (rb_pos r) p (rb_buf r)"
    using p fits by (simp_all add: ring_Write_def Let_def)
  have len: "length (rb_buf r) = rb_size r" using ok by (simp add: ring_ok_def)
  show ?thesis
    using ring_ok_Write [OF ok, of p] ok fits len
    by (auto simp: ring_Bytes_eq r' copy_at_def last_n_def add.commute)
qed

lemma ring_Bytes_Write_wraps:
  assumes ok: "ring_ok r" and p: "length p < rb_size r" and wraps: "rb_size r \<le> rb_pos r + length p"
  shows "ring_Bytes (snd (ring_Write p r)) = last_n (rb_size r) (ring_Bytes r @ p)"
proof -
  let ?r' = "snd (ring_Write p r)" and ?k = "rb_size r - rb_pos r"
  have len: "length (rb_buf r) = rb_size r" and pos: "rb_pos r < rb_size r"
    using ok p by (auto simp: ring_ok_def)
  have "(rb_pos r + length p) mod rb_size r = rb_pos r + length p - rb_size r"
    using wraps p pos by (simp add: mod_if)
  then have r': "rb_pos ?r' = length p - ?k" "rb_full ?r'"
    "rb_buf ?r' = drop ?k p @ drop (length p - ?k) (take (rb_pos r) (rb_buf r)) @ take ?k p"
    using p wraps pos len by (auto simp: ring_Write_def Let_def copy_at_def)
  show ?thesis
    using ring_ok_Write [OF ok, of p] ok p wraps pos len
    by (auto simp: ring_Bytes_eq r' last_n_def add.commute)
qed

lemma ring_Bytes_Write:
  assumes "ring_ok r"
  shows "ring_Bytes (snd (ring_Write p r)) = last_n (rb_size r) (ring_Bytes r @ p)"
proof (cases "rb_size r \<le> length p")
  case True
  then show ?thesis using assms by (simp add: ring_Bytes_Write_large last_n_append_long)
next
  case False
  then show ?thesis
    using assms ring_Bytes_Write_fits ring_Bytes_Write_wraps
    by (cases "rb_pos r + length p < rb_size r") auto
qed

interpretation ring: tail_buffer "\<lambda>p r. snd (ring_Write p r)" ring_Bytes rb_size ring_ok
  by unfold_locales (simp_all add: ring_Bytes_Write ring_ok_Write length_ring_Bytes)

text \<open>
  C21: refinement to the abstract tail. However the child's output was cut into writes, the buffer
  answers exactly its last \<open>capacity\<close> bytes, and every write reports the whole of its input
  written, so the \<open>io.MultiWriter\<close> it sits in never stops early.
\<close>

theorem ring_buffer_keeps_tail:
  "ring_Bytes (fold (\<lambda>p r. snd (ring_Write p r)) ps (newRingBuffer capacity)) = last_n capacity (concat ps)
   \<and> fst (ring_Write p r) = length p"
proof -
  have "ring_Bytes (fold (\<lambda>p r. snd (ring_Write p r)) ps (newRingBuffer capacity)) =
      last_n capacity (concat ps)"
    using ring.contents_writes [OF ring_ok_new] by simp
  then show ?thesis by (simp add: ring_Write_def Let_def)
qed

end
