(* ===== verification/Session_Errors.thy ===== *)
theory Session_Errors
  imports Go_Strings Go_Errors Ring_Buffer
begin

text \<open>
  \<open>internal/session/errors.go\<close> and \<open>classify\<close> and \<open>wrapSessionErr\<close> of
  \<open>internal/session/manager.go\<close>: what a dead \<open>aws\<close> child said on stderr, read as one of two
  sentinel errors. \<open>ulower\<close> is Go's lower-case table outside ASCII (see \<open>Go_Strings\<close>).

  A slice expression out of range panics; where the code slices, the result is an option and
  \<open>None\<close> is the panic, which here would end the whole daemon, since no goroutine recovers.
\<close>

definition NL :: char where
  "NL = CHR 0x0A"

definition expiredPatterns :: "string list" where
  "expiredPatterns =
     [''Error loading SSO Token'',
      ''The SSO session associated with this profile has expired'',
      ''Token has expired and refresh failed'',
      ''ExpiredTokenException'',
      ''the security token included in the request is expired'',
      ''Your short-term credentials have expired'',
      ''the SSO session has expired or is invalid'',
      ''cached SSO token is expired'']"

definition targetNotConnectedPatterns :: "string list" where
  "targetNotConnectedPatterns = [''TargetNotConnected'']"

definition containsAnyPattern :: "(string \<Rightarrow> string) \<Rightarrow> bytes \<Rightarrow> string list \<Rightarrow> bool" where
  "containsAnyPattern ulower stderr patterns =
     (if length stderr = 0 then False
      else let lower = ToLower ulower stderr
           in list_ex (\<lambda>p. Contains lower (ToLower ulower p)) patterns)"

text \<open>\<open>s[i:j]\<close> on a slice whose capacity is its length.\<close>

definition slice :: "nat \<Rightarrow> nat \<Rightarrow> bytes \<Rightarrow> bytes option" where
  "slice i j s = (if i \<le> j \<and> j \<le> length s then Some (take (j - i) (drop i s)) else None)"

fun first_matching :: "(string \<Rightarrow> string) \<Rightarrow> bytes \<Rightarrow> string \<Rightarrow> string list \<Rightarrow> string option" where
  "first_matching ulower stderr lower [] = Some []"
| "first_matching ulower stderr lower (p # ps) =
     (case Index lower (ToLower ulower p) of
        None \<Rightarrow> first_matching ulower stderr lower ps
      | Some idx \<Rightarrow>
          let start = LastIndexByte_Suc (take idx lower) NL
          in (case IndexByte (drop idx lower) NL of
                None \<Rightarrow> map_option TrimSpace (slice start (length stderr) stderr)
              | Some e \<Rightarrow> map_option TrimSpace (slice start (idx + e) stderr)))"

definition firstMatchingLine :: "(string \<Rightarrow> string) \<Rightarrow> bytes \<Rightarrow> string list \<Rightarrow> string option" where
  "firstMatchingLine ulower stderr patterns =
     first_matching ulower stderr (ToLower ulower stderr) patterns"

definition matchesCredentialsExpired :: "(string \<Rightarrow> string) \<Rightarrow> bytes \<Rightarrow> bool" where
  "matchesCredentialsExpired ulower stderr = containsAnyPattern ulower stderr expiredPatterns"

definition expiredSnippet :: "(string \<Rightarrow> string) \<Rightarrow> bytes \<Rightarrow> string option" where
  "expiredSnippet ulower stderr = firstMatchingLine ulower stderr expiredPatterns"

definition matchesTargetNotConnected :: "(string \<Rightarrow> string) \<Rightarrow> bytes \<Rightarrow> bool" where
  "matchesTargetNotConnected ulower stderr = containsAnyPattern ulower stderr targetNotConnectedPatterns"

definition targetNotConnectedSnippet :: "(string \<Rightarrow> string) \<Rightarrow> bytes \<Rightarrow> string option" where
  "targetNotConnectedSnippet ulower stderr = firstMatchingLine ulower stderr targetNotConnectedPatterns"

definition ClassifyCredentials :: "(string \<Rightarrow> string) \<Rightarrow> go_error option \<Rightarrow> go_error option" where
  "ClassifyCredentials ulower err =
     (case err of
        None \<Rightarrow> None
      | Some e \<Rightarrow>
          if errors_Is e ErrCredentialsExpired \<or> \<not> matchesCredentialsExpired ulower (error_text e)
          then Some e
          else Some (Errorf_ww (Sentinel ErrCredentialsExpired) e))"

definition wrapSessionErr :: "sentinel \<Rightarrow> string \<Rightarrow> go_error \<Rightarrow> go_error" where
  "wrapSessionErr s snippet cause =
     (if snippet = [] then Errorf_ws (Sentinel s) (error_text cause)
      else Errorf_ws (Sentinel s) snippet)"

definition classify :: "(string \<Rightarrow> string) \<Rightarrow> bytes \<Rightarrow> go_error option \<Rightarrow> go_error option option" where
  "classify ulower stderr err =
     (case err of
        None \<Rightarrow> Some None
      | Some e \<Rightarrow>
          if matchesCredentialsExpired ulower stderr
          then map_option (\<lambda>sn. Some (wrapSessionErr ErrCredentialsExpired sn e))
                 (expiredSnippet ulower stderr)
          else if matchesTargetNotConnected ulower stderr
          then map_option (\<lambda>sn. Some (wrapSessionErr ErrTargetNotConnected sn e))
                 (targetNotConnectedSnippet ulower stderr)
          else Some (Some e))"

lemma errors_Is_wrapSessionErr [simp]: "errors_Is (wrapSessionErr s sn c) t \<longleftrightarrow> s = t"
  by (simp add: wrapSessionErr_def)

section \<open>Lines of ASCII text\<close>

abbreviation ascii :: "string \<Rightarrow> bool" where
  "ascii s \<equiv> list_all is_ascii s"

text \<open>The line around position \<open>i\<close>: back to the newline before it, on to the next one.\<close>

definition line_at :: "nat \<Rightarrow> string \<Rightarrow> string" where
  "line_at i s =
     (let start = LastIndexByte_Suc (take i s) NL
      in (case IndexByte (drop i s) NL of
            None \<Rightarrow> drop start s
          | Some e \<Rightarrow> take (i + e - start) (drop start s)))"

lemma map_lower_IndexByte: "IndexByte (map lower_byte s) NL = IndexByte s NL"
  by (induction s) (auto simp: NL_def lower_byte_newline)

lemma map_lower_LastIndexByte: "LastIndexByte_Suc (map lower_byte s) NL = LastIndexByte_Suc s NL"
  by (induction s) (auto simp: NL_def lower_byte_newline)

lemma line_at_eq:
  assumes "i \<le> length s"
  shows "line_at i s = drop (LastIndexByte_Suc (take i s) NL) (take i s) @
    (case IndexByte (drop i s) NL of None \<Rightarrow> drop i s | Some e \<Rightarrow> take e (drop i s))"
proof -
  have start: "LastIndexByte_Suc (take i s) NL \<le> i"
    using LastIndexByte_Suc_bound [of "take i s" NL] assms by simp
  then have "drop (LastIndexByte_Suc (take i s) NL) s =
      drop (LastIndexByte_Suc (take i s) NL) (take i s) @ drop i s"
    using assms
    by (metis append_take_drop_id drop_append drop_drop diff_is_0_eq drop0 length_take min.absorb2)
  with start assms show ?thesis by (simp add: line_at_def Let_def split: option.splits)
qed

lemma line_at_slice:
  assumes "i \<le> length s"
  shows "(case IndexByte (drop i s) NL of
      None \<Rightarrow> slice (LastIndexByte_Suc (take i s) NL) (length s) s
    | Some e \<Rightarrow> slice (LastIndexByte_Suc (take i s) NL) (i + e) s) = Some (line_at i s)"
proof -
  have start: "LastIndexByte_Suc (take i s) NL \<le> i"
    using LastIndexByte_Suc_bound [of "take i s" NL] assms by simp
  have "i + e < length s" if "IndexByte (drop i s) NL = Some e" for e
    using IndexByte_Some [OF that] assms by auto
  then show ?thesis
    using start assms by (auto simp: line_at_def slice_def Let_def split: option.splits)
qed

lemma first_matching_ascii:
  assumes "ascii stderr" and "list_all ascii ps"
  shows "first_matching u stderr (map lower_byte stderr) ps =
    Some (case find (\<lambda>p. Contains (map lower_byte stderr) (map lower_byte p)) ps of
      None \<Rightarrow> []
    | Some p \<Rightarrow> TrimSpace (line_at (the (Index (map lower_byte stderr) (map lower_byte p))) stderr))"
  using assms(2)
proof (induction ps)
  case (Cons p ps)
  show ?case
  proof (cases "Index (map lower_byte stderr) (map lower_byte p)")
    case None
    with Cons show ?thesis by (simp add: ToLower_ascii Contains_def)
  next
    case (Some i)
    have "i \<le> length stderr" using Index_Some [OF Some] by simp
    note line = line_at_slice [OF this]
    have "(case IndexByte (drop i stderr) NL of
        None \<Rightarrow> map_option TrimSpace (slice (LastIndexByte_Suc (take i stderr) NL) (length stderr) stderr)
      | Some e \<Rightarrow> map_option TrimSpace (slice (LastIndexByte_Suc (take i stderr) NL) (i + e) stderr))
      = map_option TrimSpace (Some (line_at i stderr))"
      unfolding line [symmetric] by (simp split: option.splits)
    with Some Cons.prems show ?thesis
      by (simp add: ToLower_ascii Contains_def Let_def drop_map take_map
          map_lower_IndexByte map_lower_LastIndexByte)
  qed
qed simp

text \<open>The line around a match holds no newline, is a block between newlines, and holds the match.\<close>

lemma line_at_no_newline: "i \<le> length s \<Longrightarrow> NL \<notin> set (line_at i s)"
  using LastIndexByte_Suc_drop [of NL "take i s"]
  by (auto simp: line_at_eq IndexByte_None dest: IndexByte_Some split: option.splits)

lemma line_at_sublist: "sublist (line_at i s) s"
  by (auto simp: line_at_def Let_def split: option.splits
      intro: sublist_order.order_trans [OF prefix_imp_sublist suffix_imp_sublist] take_is_prefix suffix_drop)

lemma newline_free_match:
  assumes "take n (drop i s) = m" and "length m = n" and "NL \<notin> set m" and "i + n \<le> length s"
  shows "sublist m (line_at i s)"
proof -
  have i: "i \<le> length s" using assms(4) by simp
  show ?thesis
  proof (cases "IndexByte (drop i s) NL")
    case None
    have "sublist m (drop i s)" using assms(1) by (metis prefix_imp_sublist take_is_prefix)
    with None show ?thesis
      by (simp add: line_at_eq [OF i]) (metis sublist_append)
  next
    case (Some e)
    have "n \<le> e"
    proof (rule ccontr)
      assume "\<not> n \<le> e"
      then have "m ! e = drop i s ! e" and "e < length m" using assms(1,2) by auto
      with IndexByte_Some [OF Some] assms(3) show False by (metis nth_mem)
    qed
    then have "prefix m (take e (drop i s))"
      using assms(1) by (metis min.absorb1 take_is_prefix take_take)
    then have "sublist m (take e (drop i s))" by (rule prefix_imp_sublist)
    with Some show ?thesis
      by (simp add: line_at_eq [OF i]) (metis sublist_append)
  qed
qed

text \<open>Where the line sits: everything before it ends with a newline or is empty, and so on after.\<close>

lemma line_at_is_line:
  assumes "i \<le> length s"
  shows "line_at i s \<in> set (Split s NL)"
proof -
  let ?b = "LastIndexByte_Suc (take i s) NL"
  obtain pre where pre: "take i s = pre @ drop ?b (take i s)" "pre = [] \<or> last pre = NL"
  proof (cases ?b)
    case (Suc j)
    then have "j < length (take i s)" "take i s ! j = NL"
      using LastIndexByte_Suc_nth [OF Suc] by simp_all
    then have "take ?b (take i s) = take j (take i s) @ [NL]"
      by (metis Suc take_Suc_conv_app_nth)
    then show ?thesis
      using that [of "take ?b (take i s)"] by (metis append_take_drop_id last_snoc)
  qed (use that [of "[]"] in simp)
  let ?line = "line_at i s"
  have s: "s = pre @ drop ?b (take i s) @ drop i s"
    using pre(1) append_take_drop_id [of i s] by (metis append_assoc)
  have "\<exists>post. s = pre @ ?line @ post \<and> (post = [] \<or> hd post = NL)"
  proof (cases "IndexByte (drop i s) NL")
    case None
    then have "?line = drop ?b (take i s) @ drop i s" by (simp add: line_at_eq [OF assms])
    with s show ?thesis by (intro exI [of _ "[]"]) simp
  next
    case (Some e)
    then have "?line = drop ?b (take i s) @ take e (drop i s)" by (simp add: line_at_eq [OF assms])
    then have "?line @ drop e (drop i s) = drop ?b (take i s) @ drop i s" by (simp del: drop_drop)
    moreover have "hd (drop e (drop i s)) = NL"
      using IndexByte_Some [OF Some] hd_drop_conv_nth [of e "drop i s"] by presburger
    ultimately show ?thesis using s by metis
  qed
  then obtain post where "s = pre @ ?line @ post" "post = [] \<or> hd post = NL" by blast
  then show ?thesis
    using Split_block [OF pre(2) _ line_at_no_newline [OF assms]] by metis
qed

section \<open>Properties\<close>

text \<open>Some pattern occurs, letter case aside.\<close>

definition mentions :: "string list \<Rightarrow> string \<Rightarrow> bool" where
  "mentions ps s \<longleftrightarrow> (\<exists>p\<in>set ps. sublist (map lower_byte p) (map lower_byte s))"

lemma ascii_patterns [simp]: "list_all ascii expiredPatterns" "list_all ascii targetNotConnectedPatterns"
  by (simp_all add: expiredPatterns_def targetNotConnectedPatterns_def is_ascii_def byte_def)

lemma lower_byte_NL: "lower_byte c = NL \<Longrightarrow> c = NL"
proof (cases "65 \<le> byte c \<and> byte c \<le> 90")
  case True
  assume "lower_byte c = NL"
  moreover have "of_char (lower_byte c) = byte c + 32"
    using True by (simp add: lower_byte_def of_char_of)
  ultimately have "byte c + 32 = 10" by (simp add: NL_def)
  with True show ?thesis by simp
next
  case False
  then show "lower_byte c = NL \<Longrightarrow> c = NL" by (simp only: lower_byte_def if_False)
qed

lemma lower_byte_t: "lower_byte (CHR ''t'') = CHR ''t''" "lower_byte (CHR ''T'') = CHR ''t''"
  by (simp_all add: lower_byte_def byte_def) code_simp

lemma patterns_letters_raw:
  "list_all (\<lambda>p. NL \<notin> set p \<and> (CHR ''t'' \<in> set p \<or> CHR ''T'' \<in> set p))
    (expiredPatterns @ targetNotConnectedPatterns)"
  by (simp add: expiredPatterns_def targetNotConnectedPatterns_def NL_def)

lemma patterns_letters:
  assumes "p \<in> set (expiredPatterns @ targetNotConnectedPatterns)"
  shows "NL \<notin> set (map lower_byte p) \<and> CHR ''t'' \<in> set (map lower_byte p)"
proof -
  have "NL \<notin> set p" and t: "CHR ''t'' \<in> set p \<or> CHR ''T'' \<in> set p"
    using patterns_letters_raw assms unfolding list_all_iff by blast+
  then have "NL \<notin> set (map lower_byte p)"
    by (simp add: image_iff) (metis lower_byte_NL)
  moreover from t have "CHR ''t'' \<in> lower_byte ` set p"
    using lower_byte_t by (metis imageI)
  ultimately show ?thesis by simp
qed

lemma patterns_one_line:
  "p \<in> set expiredPatterns \<union> set targetNotConnectedPatterns \<Longrightarrow> NL \<notin> set (map lower_byte p)"
  using patterns_letters [of p] by simp

lemma patterns_have_t:
  "p \<in> set expiredPatterns \<union> set targetNotConnectedPatterns \<Longrightarrow> CHR ''t'' \<in> set (map lower_byte p)"
  using patterns_letters [of p] by simp

lemma containsAnyPattern_ascii:
  assumes "ascii s" and "list_all ascii ps" and "[] \<notin> set ps"
  shows "containsAnyPattern u s ps \<longleftrightarrow> mentions ps s"
  using assms
  by (cases s) (auto simp: containsAnyPattern_def mentions_def ToLower_ascii Contains_iff list_ex_iff list_all_iff)

lemma letter_t_no_space:
  "CHR ''t'' \<notin> \<Union> (set ` set space_runes) \<and> CHR ''T'' \<notin> \<Union> (set ` set space_runes)"
proof -
  have "list_all (list_all (\<lambda>c. byte c \<noteq> 116 \<and> byte c \<noteq> 84)) space_runes"
    by (simp add: space_runes_def byte_def)
  moreover have "byte (CHR ''t'') = 116" "byte (CHR ''T'') = 84" by (simp_all add: byte_def)
  ultimately show ?thesis unfolding list_all_iff by fastforce
qed

lemma t_survives_trim:
  assumes "CHR ''t'' \<in> set (map lower_byte s)"
  shows "TrimSpace s \<noteq> []"
proof -
  obtain c where c: "c \<in> set s" "lower_byte c = CHR ''t''" using assms by auto
  have "c = CHR ''t'' \<or> c = CHR ''T''"
  proof (cases "65 \<le> byte c \<and> byte c \<le> 90")
    case True
    then have "of_char (lower_byte c) = byte c + 32"
      by (simp add: lower_byte_def of_char_of)
    then have "of_char c = (of_char CHR ''T'' :: nat)" using c(2) by (simp add: byte_def)
    then show ?thesis by (simp only: of_char_eq_iff) simp
  next
    case False
    then have "lower_byte c = c" by (simp only: lower_byte_def if_False)
    then show ?thesis using c(2) by simp
  qed
  then have "c \<notin> \<Union> (set ` set space_runes)"
    using letter_t_no_space by blast
  with c(1) show ?thesis using TrimSpace_keeps by fastforce
qed

text \<open>On ASCII the snippet is a whole line of the text that mentions a pattern.\<close>

lemma snippet_ascii:
  assumes "ascii s" and "mentions ps s" and "set ps \<subseteq> set expiredPatterns \<union> set targetNotConnectedPatterns"
  obtains line where "firstMatchingLine u s ps = Some (TrimSpace line)" "line \<in> set (Split s NL)"
    "mentions ps line" "TrimSpace line \<noteq> []"
proof -
  let ?low = "map lower_byte s"
  have ps: "list_all ascii ps"
    using assms(3) ascii_patterns by (fastforce simp: list_all_iff)
  obtain p0 where p0: "p0 \<in> set ps" "Contains ?low (map lower_byte p0)"
    using assms(2) by (auto simp: mentions_def Contains_iff)
  then obtain p where p: "find (\<lambda>p. Contains ?low (map lower_byte p)) ps = Some p"
    using find_None_iff [of "\<lambda>p. Contains ?low (map lower_byte p)" ps] by fastforce
  then have "p \<in> set ps" and "Contains ?low (map lower_byte p)"
    by (auto simp: find_Some_iff)
  then obtain i where i: "Index ?low (map lower_byte p) = Some i" and pset: "p \<in> set ps"
    by (auto simp: Contains_def)
  let ?line = "line_at i s"
  have len: "i + length p \<le> length s" "take (length p) (drop i ?low) = map lower_byte p"
    using Index_Some [OF i] by simp_all
  have low_line: "map lower_byte ?line = line_at i ?low"
    by (simp add: line_at_def Let_def map_lower_IndexByte map_lower_LastIndexByte
        take_map drop_map split: option.splits)
  have "NL \<notin> set (map lower_byte p)" using patterns_one_line assms(3) pset by blast
  then have sub: "sublist (map lower_byte p) (map lower_byte ?line)"
    unfolding low_line using newline_free_match [of "length p" i ?low "map lower_byte p"] len by simp
  have "CHR ''t'' \<in> set (map lower_byte p)" using patterns_have_t assms(3) pset by blast
  then have "TrimSpace ?line \<noteq> []"
    using t_survives_trim set_mono_sublist [OF sub] by blast
  moreover have "firstMatchingLine u s ps = Some (TrimSpace ?line)"
    using first_matching_ascii [OF assms(1) ps, of u] p i assms(1)
    by (simp add: firstMatchingLine_def ToLower_ascii)
  moreover have "?line \<in> set (Split s NL)" using line_at_is_line len(1) by simp
  moreover have "mentions ps ?line" using pset sub by (auto simp: mentions_def)
  ultimately show ?thesis using that by blast
qed

lemma nonempty_patterns [simp]: "[] \<notin> set expiredPatterns" "[] \<notin> set targetNotConnectedPatterns"
  by (simp_all add: expiredPatterns_def targetNotConnectedPatterns_def)

lemma classify_ascii_text:
  assumes "ascii stderr"
  shows "classify u stderr None = Some None \<and> (\<exists>e'. classify u stderr (Some e) = Some (Some e') \<and>
    (if mentions expiredPatterns stderr then
       errors_Is e' ErrCredentialsExpired \<and> \<not> errors_Is e' ErrTargetNotConnected \<and>
       (\<exists>line. line \<in> set (Split stderr NL) \<and> mentions expiredPatterns line \<and>
          TrimSpace line \<noteq> [] \<and> error_text e' = ''aws credentials expired: '' @ TrimSpace line)
     else if mentions targetNotConnectedPatterns stderr then
       errors_Is e' ErrTargetNotConnected \<and> \<not> errors_Is e' ErrCredentialsExpired \<and>
       (\<exists>line. line \<in> set (Split stderr NL) \<and> mentions targetNotConnectedPatterns line \<and>
          TrimSpace line \<noteq> [] \<and> error_text e' = ''aws ssm target not connected: '' @ TrimSpace line)
     else e' = e))"
proof -
  note match = containsAnyPattern_ascii [OF assms ascii_patterns(1) nonempty_patterns(1)]
    containsAnyPattern_ascii [OF assms ascii_patterns(2) nonempty_patterns(2)]
  note defs = classify_def matchesCredentialsExpired_def matchesTargetNotConnected_def
    expiredSnippet_def targetNotConnectedSnippet_def match
  consider (expired) "mentions expiredPatterns stderr"
    | (target) "\<not> mentions expiredPatterns stderr" "mentions targetNotConnectedPatterns stderr"
    | (other) "\<not> mentions expiredPatterns stderr" "\<not> mentions targetNotConnectedPatterns stderr"
    by blast
  then show ?thesis
  proof cases
    case expired
    then obtain line where "firstMatchingLine u stderr expiredPatterns = Some (TrimSpace line)"
      "line \<in> set (Split stderr NL)" "mentions expiredPatterns line" "TrimSpace line \<noteq> []"
      by (rule snippet_ascii [OF assms]) auto
    with expired show ?thesis by (auto simp: defs) (auto simp: wrapSessionErr_def)
  next
    case target
    obtain line where "firstMatchingLine u stderr targetNotConnectedPatterns = Some (TrimSpace line)"
      "line \<in> set (Split stderr NL)" "mentions targetNotConnectedPatterns line" "TrimSpace line \<noteq> []"
      by (rule snippet_ascii [OF assms target(2)]) auto
    with target show ?thesis by (auto simp: defs) (auto simp: wrapSessionErr_def)
  next
    case other
    then show ?thesis by (simp add: defs)
  qed
qed

text \<open>
  the reading of a dead child's stderr, for ASCII text. It never panics; expired credentials
  win over a lost target; each verdict wraps its own sentinel and carries a line of the text that
  names the condition, trimmed and not empty; anything else is the exit error itself, and a clean
  exit is no error.
\<close>

lemma classify_ascii:
  assumes "ascii stderr"
  shows "classify u stderr None = Some None \<and> (\<exists>e'. classify u stderr (Some e) = Some (Some e') \<and>
    (if mentions expiredPatterns stderr then
       errors_Is e' ErrCredentialsExpired \<and> \<not> errors_Is e' ErrTargetNotConnected \<and>
       (\<exists>line. line \<in> set (Split stderr NL) \<and> mentions expiredPatterns line \<and>
          TrimSpace line \<noteq> [] \<and> error_text e' = ''aws credentials expired: '' @ TrimSpace line)
     else if mentions targetNotConnectedPatterns stderr then
       errors_Is e' ErrTargetNotConnected \<and> \<not> errors_Is e' ErrCredentialsExpired \<and>
       (\<exists>line. line \<in> set (Split stderr NL) \<and> mentions targetNotConnectedPatterns line \<and>
          TrimSpace line \<noteq> [] \<and> error_text e' = ''aws ssm target not connected: '' @ TrimSpace line)
     else e' = e))"
  using assms by (rule classify_ascii_text)

lemma classify_ascii_witness:
  "\<exists>e'. classify id ''TargetNotConnected'' (Some (Opaque ''exit status 254'')) = Some (Some e')
    \<and> errors_Is e' ErrTargetNotConnected"
proof -
  let ?s = "''TargetNotConnected''"
  have "ascii ?s" by (simp add: is_ascii_def byte_def)
  moreover have "mentions targetNotConnectedPatterns ?s"
    by (simp add: mentions_def targetNotConnectedPatterns_def)
  moreover have "\<not> mentions expiredPatterns ?s"
    unfolding mentions_def expiredPatterns_def by (auto dest!: sublist_length_le)
  ultimately show ?thesis
    using classify_ascii [of ?s id "Opaque ''exit status 254''"]
    by auto
qed

text \<open>
  bytes that are not UTF-8 break the snippet. \<open>strings.ToLower\<close> replaces each such byte by the
  three bytes of U+FFFD, the indices into the lowered text no longer fit the original, and the slice
  expression runs past its end: with two stray continuation bytes before the message, as an 8 KiB
  tail that starts inside a multi-byte rune leaves them, \<open>classify\<close> panics.
\<close>

lemma classify_panics_on_invalid_utf8:
  "classify u ([CHR 0x80, CHR 0x80] @ ''TargetNotConnected'' @ [NL]) (Some e) = None"
proof -
  let ?s = "[CHR 0x80, CHR 0x80] @ ''TargetNotConnected'' @ [NL]"
  have low: "ToLower u ?s = rune_error @ rune_error @ ''targetnotconnected'' @ [NL]"
    by (simp add: ToLower_def NL_def is_ascii_def byte_def in_range_def lower_byte_def) code_simp
  have pats: "map (ToLower u) expiredPatterns = map (map lower_byte) expiredPatterns"
    "map (ToLower u) targetNotConnectedPatterns = map (map lower_byte) targetNotConnectedPatterns"
    using ascii_patterns by (auto simp: list_all_iff ToLower_ascii)
  have low_target: "ToLower u ''TargetNotConnected'' = ''targetnotconnected''"
    by (simp add: ToLower_def is_ascii_def byte_def lower_byte_def) code_simp
  have "\<not> list_ex (Contains (rune_error @ rune_error @ ''targetnotconnected'' @ [NL]))
      (map (map lower_byte) expiredPatterns)"
    by code_simp
  then have "\<not> matchesCredentialsExpired u ?s"
    by (simp add: matchesCredentialsExpired_def containsAnyPattern_def Let_def low
        pats(1) [symmetric] list_ex_iff del: append.simps)
  moreover have idx: "Index (rune_error @ rune_error @ ''targetnotconnected'' @ [NL]) ''targetnotconnected'' = Some 6"
    by code_simp
  then have "matchesTargetNotConnected u ?s"
    by (simp add: matchesTargetNotConnected_def containsAnyPattern_def Let_def low
        targetNotConnectedPatterns_def Contains_def low_target del: append.simps)
  moreover have "targetNotConnectedSnippet u ?s = None"
    unfolding targetNotConnectedSnippet_def firstMatchingLine_def low targetNotConnectedPatterns_def
      first_matching.simps low_target idx
    by code_simp
  ultimately show ?thesis by (simp add: classify_def del: append.simps)
qed

text \<open>
  \<open>ClassifyCredentials\<close> only ever adds the credentials sentinel: it keeps every sentinel the
  error had and its text at the end, adds the sentinel exactly when the text names an expiry,
  leaves nil alone, and a second pass changes nothing.
\<close>

lemma ClassifyCredentials_adds_sentinel:
  "ClassifyCredentials u None = None \<and> (\<exists>e'. ClassifyCredentials u (Some e) = Some e' \<and>
     suffix (error_text e) (error_text e') \<and>
     (errors_Is e' t \<longleftrightarrow> errors_Is e t \<or>
        t = ErrCredentialsExpired \<and> matchesCredentialsExpired u (error_text e)) \<and>
     ClassifyCredentials u (Some e') = Some e')"
  by (auto simp: ClassifyCredentials_def suffix_def)

end
