(* ===== verification/Go_Channels.thy ===== *)
theory Go_Channels
  imports Prelude
begin

text \<open>
  Go's buffered channels, as the code uses them: the capacity, the values waiting in order, and
  whether the channel was closed. A send on a closed channel and a second close panic; a panic is
  \<open>None\<close>. The locale \<open>lossy_queue\<close> is the contract of every
  \<open>select { case ch <- v: default: }\<close> of the program: the engine's event channel, the bus's
  subscriber channels and the watcher's one-slot channel are its instances.
\<close>

record 'a chan =
  ch_cap :: nat
  ch_buf :: "'a list"
  ch_closed :: bool

definition make_chan :: "nat \<Rightarrow> 'a chan" where
  "make_chan n = \<lparr>ch_cap = n, ch_buf = [], ch_closed = False\<rparr>"

text \<open>\<open>select { case ch <- v: default: }\<close>.\<close>

definition try_send :: "'a \<Rightarrow> 'a chan \<Rightarrow> 'a chan option" where
  "try_send v ch =
     (if ch_closed ch then None
      else if length (ch_buf ch) < ch_cap ch then Some (ch\<lparr>ch_buf := ch_buf ch @ [v]\<rparr>)
      else Some ch)"

text \<open>\<open>close(ch)\<close>.\<close>

definition close_chan :: "'a chan \<Rightarrow> 'a chan option" where
  "close_chan ch = (if ch_closed ch then None else Some (ch\<lparr>ch_closed := True\<rparr>))"

text \<open>
  \<open>v, ok := <-ch\<close>: a waiting value comes first, also after the close; then a closed channel
  gives \<open>ok = false\<close>, an open one blocks.
\<close>

datatype 'a received = Value 'a | Closed | Blocked

definition chan_recv :: "'a chan \<Rightarrow> 'a received \<times> 'a chan" where
  "chan_recv ch =
     (case ch_buf ch of
        v # vs \<Rightarrow> (Value v, ch\<lparr>ch_buf := vs\<rparr>)
      | [] \<Rightarrow> (if ch_closed ch then Closed else Blocked, ch))"

section \<open>The contract of a queue that drops when full\<close>

datatype 'a queue_op = Offer 'a | Poll

primrec offered :: "'a queue_op list \<Rightarrow> 'a list" where
  "offered [] = []"
| "offered (x # xs) = (case x of Offer v \<Rightarrow> v # offered xs | Poll \<Rightarrow> offered xs)"

locale lossy_queue =
  fixes offer :: "'a \<Rightarrow> 'q \<Rightarrow> 'q"
    and poll :: "'q \<Rightarrow> ('a \<times> 'q) option"
    and waiting :: "'q \<Rightarrow> 'a list"
    and capacity :: "'q \<Rightarrow> nat"
    and ok :: "'q \<Rightarrow> bool"
  assumes offer_room: "ok q \<Longrightarrow> length (waiting q) < capacity q \<Longrightarrow> waiting (offer v q) = waiting q @ [v]"
    and offer_full: "ok q \<Longrightarrow> capacity q \<le> length (waiting q) \<Longrightarrow> waiting (offer v q) = waiting q"
    and offer_capacity: "ok q \<Longrightarrow> capacity (offer v q) = capacity q"
    and offer_ok: "ok q \<Longrightarrow> ok (offer v q)"
    and poll_empty: "ok q \<Longrightarrow> poll q = None \<longleftrightarrow> waiting q = []"
    and poll_waiting: "ok q \<Longrightarrow> poll q = Some (v, q') \<Longrightarrow> waiting q = v # waiting q'"
    and poll_capacity: "ok q \<Longrightarrow> poll q = Some (v, q') \<Longrightarrow> capacity q' = capacity q"
    and poll_ok: "ok q \<Longrightarrow> poll q = Some (v, q') \<Longrightarrow> ok q'"
begin

text \<open>A run of sends and receives: what was received, and the queue left over.\<close>

fun run :: "'a queue_op list \<Rightarrow> 'q \<Rightarrow> 'a list \<times> 'q" where
  "run [] q = ([], q)"
| "run (Offer v # xs) q = run xs (offer v q)"
| "run (Poll # xs) q =
     (case poll q of
        None \<Rightarrow> run xs q
      | Some (v, q') \<Rightarrow> (case run xs q' of (vs, q'') \<Rightarrow> (v # vs, q'')))"

lemma offer_subseq: "ok q \<Longrightarrow> subseq (waiting (offer v q)) (waiting q @ [v])"
  by (cases "length (waiting q) < capacity q") (auto simp: offer_room offer_full)

text \<open>Nothing is invented, repeated or reordered: what came out is a subsequence of what went in.\<close>

lemma run_subseq:
  "ok q \<Longrightarrow> run xs q = (vs, q') \<Longrightarrow> subseq (vs @ waiting q') (waiting q @ offered xs)"
proof (induction xs q arbitrary: vs q' rule: run.induct)
  case (1 q)
  then show ?case by simp
next
  case (2 v xs q)
  then have "subseq (vs @ waiting q') (waiting (offer v q) @ offered xs)"
    by (simp add: offer_ok)
  also have "subseq (waiting (offer v q) @ offered xs) ((waiting q @ [v]) @ offered xs)"
    using offer_subseq [OF "2.prems"(1)] by (rule list_emb_append_mono) simp
  finally show ?case by simp
next
  case (3 xs q)
  show ?case
  proof (cases "poll q")
    case None
    with 3 show ?thesis by simp
  next
    case (Some p)
    obtain v q1 where p: "p = (v, q1)" by (cases p)
    obtain us q2 where r: "run xs q1 = (us, q2)" by (cases "run xs q1")
    have "subseq (us @ waiting q2) (waiting q1 @ offered xs)"
      using "3.IH"(2) [OF Some p [symmetric]] poll_ok [of q v q1] "3.prems"(1) Some p r by simp
    with "3.prems" Some p r poll_waiting [of q v q1] show ?thesis by auto
  qed
qed

lemma run_bounded:
  "ok q \<Longrightarrow> length (waiting q) \<le> capacity q \<Longrightarrow> run xs q = (vs, q') \<Longrightarrow>
   length (waiting q') \<le> capacity q \<and> capacity q' = capacity q \<and> ok q'"
proof (induction xs q arbitrary: vs q' rule: run.induct)
  case (2 v xs q)
  have "length (waiting (offer v q)) \<le> capacity q"
    using "2.prems" by (cases "length (waiting q) < capacity q") (auto simp: offer_room offer_full)
  with 2 show ?case by (simp add: offer_ok offer_capacity)
next
  case (3 xs q)
  show ?case
  proof (cases "poll q")
    case None
    with 3 show ?thesis by simp
  next
    case (Some p)
    obtain v q1 where p: "p = (v, q1)" by (cases p)
    obtain us q2 where r: "run xs q1 = (us, q2)" by (cases "run xs q1")
    note poll1 = Some [unfolded p]
    have "length (waiting q1) \<le> capacity q1"
      using poll_waiting [OF "3.prems"(1) poll1] poll_capacity [OF "3.prems"(1) poll1] "3.prems"(2)
      by simp
    then show ?thesis
      using "3.IH"(2) [OF Some p [symmetric] poll_ok [OF "3.prems"(1) poll1] _ r]
        poll_capacity [OF "3.prems"(1) poll1] "3.prems"(3) poll1 r by simp
  qed
qed simp

text \<open>With room for all of them, a burst of sends is delivered whole.\<close>

lemma burst_delivered:
  "ok q \<Longrightarrow> length (waiting q) + length vs \<le> capacity q \<Longrightarrow>
   waiting (fold offer vs q) = waiting q @ vs"
proof (induction vs arbitrary: q)
  case (Cons v vs)
  then show ?case
    using Cons.IH [of "offer v q"] by (simp add: offer_room offer_ok offer_capacity)
qed simp

text \<open>In any case it keeps the first ones that fit.\<close>

lemma burst_prefix:
  "ok q \<Longrightarrow> length (waiting q) \<le> capacity q \<Longrightarrow>
   waiting (fold offer vs q) = waiting q @ take (capacity q - length (waiting q)) vs"
proof (induction vs arbitrary: q)
  case (Cons v vs)
  show ?case
  proof (cases "length (waiting q) < capacity q")
    case True
    then have "capacity q - length (waiting q) = Suc (capacity q - Suc (length (waiting q)))"
      by simp
    with True Cons.IH [of "offer v q"] Cons.prems show ?thesis
      by (simp add: offer_room offer_ok offer_capacity)
  next
    case False
    with Cons.IH [of "offer v q"] Cons.prems show ?thesis
      by (simp add: offer_full offer_ok offer_capacity)
  qed
qed simp

end

text \<open>Buffered channels that are never closed keep the contract.\<close>

definition chan_offer :: "'a \<Rightarrow> 'a chan \<Rightarrow> 'a chan" where
  "chan_offer v ch = (case try_send v ch of Some ch' \<Rightarrow> ch' | None \<Rightarrow> ch)"

definition chan_poll :: "'a chan \<Rightarrow> ('a \<times> 'a chan) option" where
  "chan_poll ch = (case chan_recv ch of (Value v, ch') \<Rightarrow> Some (v, ch') | _ \<Rightarrow> None)"

definition chan_open :: "'a chan \<Rightarrow> bool" where
  "chan_open ch = (\<not> ch_closed ch)"

interpretation chq: lossy_queue chan_offer chan_poll ch_buf ch_cap chan_open
  by unfold_locales
    (auto simp: chan_offer_def chan_poll_def chan_open_def try_send_def chan_recv_def
      split: list.splits if_splits)

end
