(* ===== verification/Engine_Events.thy ===== *)
theory Engine_Events
  imports State_Machine Backoff Ip_Allocator Config Session_Errors Go_Channels
begin

text \<open>
  \<open>internal/engine/events.go\<close> and the data of \<open>engine.go\<close>: the events, the instance of a running
  service, its guarded transition, and the engine's event channel.
\<close>

section \<open>Events\<close>

text \<open>One constructor per message \<open>emitLog\<close> is called with, holding what its format prints.\<close>

datatype log_message =
    Already_running
  | Failed_to_remove_DNS go_error
  | Error_stopping_session go_error
  | Dropped_sessions string nat
  | Invalid_transition_to_Starting ServiceState go_error
  | Start_failed go_error
  | Target_rotated_out string go_error
  | Reconnecting_in duration nat
  | Connected_via string int int
  | Cannot_transition_to ServiceState go_error
  | Credentials_expired_for string

datatype log_level = Info | Warn | Error

datatype event =
    ServiceStateChanged (evt_Profile: string) (evt_Service: string) (evt_DNSName: string)
      (evt_From: ServiceState) (evt_To: ServiceState) (evt_Error: "go_error option") instant
  | LogEntry log_level log_message (evt_Profile: string) (evt_Service: string) instant
  | ProfileDone (evt_Profile: string) instant
  | CredentialsExpired (evt_Profile: string) string (evt_Service: string) (evt_Detail: string) instant

section \<open>The event channel\<close>

text \<open>
  \<open>emit\<close> is a send that drops when the 100 slots are full; \<open>events_after\<close> is the channel after a
  burst of emits.
\<close>

definition events_cap :: nat where
  "events_cap = 100"

definition emit :: "event \<Rightarrow> event chan \<Rightarrow> event chan" where
  "emit evt ch = chan_offer evt ch"

section \<open>Instances\<close>

text \<open>\<open>net.IP.String\<close> of an IPv4 address.\<close>

fun ip_String :: "ip \<Rightarrow> string" where
  "ip_String (IPv4 a b c d) =
     Join [show_nat (unat a), show_nat (unat b), show_nat (unat c), show_nat (unat d)] ''.''"

lemma show_nat_no_dot: "CHR ''.'' \<notin> set (show_nat n)"
  using show_nat_digits [of "CHR ''.''" n] by (auto simp: is_digit_def)

lemma ip_String_inj: "ip_String i = ip_String j \<longleftrightarrow> i = j"
proof (cases i; cases j)
  fix a b c d a' b' c' d'
  assume i: "i = IPv4 a b c d" and j: "j = IPv4 a' b' c' d'"
  have split: "Split (ip_String (IPv4 a b c d)) CHR ''.'' = map (\<lambda>w. show_nat (unat w)) [a, b, c, d]" for a b c d
    using show_nat_no_dot by (simp add: Split_append_sep Split_absent)
  show ?thesis
  proof
    assume eq: "ip_String i = ip_String j"
    show "i = j"
      using arg_cong [OF eq, of "\<lambda>s. Split s CHR ''.''"]
      by (simp only: i j split) (simp add: show_nat_inj word_unat_eq_iff)
  qed simp
qed

text \<open>
  Sessions and proxies are the numbers under which the service's own lists below know them; a nil
  one is \<open>None\<close>. \<open>si_cancel\<close> tells whether the cancel function is set yet.
\<close>

record serviceInstance =
  si_profile :: string
  si_service :: Service
  si_state :: ServiceState
  si_session :: "nat option"
  si_tcpProxy :: "nat option"
  si_cancel :: bool
  si_backoff :: Backoff
  si_connectedAt :: "instant option"
  si_lastError :: "go_error option"
  si_localIP :: string

text \<open>\<open>serviceInstance.transition\<close>.\<close>

definition transition :: "ServiceState \<Rightarrow> serviceInstance \<Rightarrow> go_error option \<times> serviceInstance" where
  "transition to si =
     (case Transition (si_state si) to of
        Some err \<Rightarrow> (Some err, si)
      | None \<Rightarrow> (None, si\<lparr>si_state := to\<rparr>))"

lemma transition_cases:
  obtains (refused) err where "transition to si = (Some err, si)" "Transition (si_state si) to = Some err"
  | (moved) "transition to si = (None, si\<lparr>si_state := to\<rparr>)" "Transition (si_state si) to = None"
  by (cases "Transition (si_state si) to") (auto simp: transition_def)

definition stateChange ::
  "serviceInstance \<Rightarrow> ServiceState \<Rightarrow> ServiceState \<Rightarrow> go_error option \<Rightarrow> instant \<Rightarrow> event" where
  "stateChange si from to err now =
     ServiceStateChanged (si_profile si) (Name (si_service si)) (DNSName (si_service si)) from to err now"

definition logEntry :: "serviceInstance \<Rightarrow> log_level \<Rightarrow> log_message \<Rightarrow> instant \<Rightarrow> event" where
  "logEntry si level msg now = LogEntry level msg (si_profile si) (Name (si_service si)) now"

section \<open>Status\<close>

record ServiceStatus =
  st_Profile :: string
  st_ServiceName :: string
  st_DNSName :: string
  st_LocalAddr :: string
  st_State :: ServiceState
  st_ConnectedAt :: "instant option"
  st_Error :: "go_error option"

definition status_of :: "serviceInstance \<Rightarrow> ServiceStatus" where
  "status_of si =
     \<lparr>st_Profile = si_profile si, st_ServiceName = Name (si_service si), st_DNSName = DNSName (si_service si),
      st_LocalAddr = si_localIP si @ '':'' @ show_int (LocalPort (si_service si)), st_State = si_state si,
      st_ConnectedAt = si_connectedAt si, st_Error = si_lastError si\<rparr>"

section \<open>Delivery\<close>

text \<open>
  whatever the engine emits and however the daemon keeps up, the daemon receives a subsequence
  of the emitted events in their order, nothing twice and nothing invented; at most 100 wait; and
  nothing is lost as long as no more than 100 are emitted between two receives of an empty channel.
\<close>

lemma events_delivered_in_order:
  assumes "chq.run ops (make_chan events_cap) = (received, ch)"
  shows "subseq (received @ ch_buf ch) (offered ops) \<and> length (ch_buf ch) \<le> 100 \<and>
    ch_buf (fold emit burst (make_chan events_cap)) = take 100 burst"
proof -
  have ok: "chan_open (make_chan events_cap)" by (simp add: chan_open_def make_chan_def)
  have "ch_buf (fold emit burst (make_chan events_cap)) = take 100 burst"
    using chq.burst_prefix [OF ok, of burst]
    by (simp add: emit_def [abs_def] make_chan_def events_cap_def)
  moreover have "length (ch_buf ch) \<le> 100"
    using chq.run_bounded [OF ok _ assms] by (simp add: make_chan_def events_cap_def)
  ultimately show ?thesis
    using chq.run_subseq [OF ok assms] by (simp add: make_chan_def)
qed

lemma events_delivered_in_order_witness:
  "\<exists>received ch. chq.run [Offer (ProfileDone ''dev'' 1), Poll, Offer (ProfileDone ''prod'' 2)] (make_chan events_cap)
     = (received, ch) \<and> subseq (received @ ch_buf ch) [ProfileDone ''dev'' 1, ProfileDone ''prod'' 2]"
proof -
  obtain received ch where r:
    "chq.run [Offer (ProfileDone ''dev'' 1), Poll, Offer (ProfileDone ''prod'' 2)] (make_chan events_cap) = (received, ch)"
    by fastforce
  from events_delivered_in_order [OF r] r show ?thesis by auto
qed

end
