(* ===== verification/Bastion.thy ===== *)
theory Bastion
  imports Config
begin

text \<open>
  \<open>internal/bastion/asg.go\<close>: the SSM target of a profile, pinned or looked up in its auto-scaling
  group and cached until \<open>Invalidate\<close>. The AWS clients are third-party code: an answer of the
  autoscaling client is a value, the SSM paginator is the list of the answers its pages give, and
  the client factory is a function from profile and region. \<open>%q\<close> of \<open>fmt\<close> is the argument
  \<open>quote\<close>. \<open>r.mu\<close> is held through \<open>Resolve\<close>, so each call is one atomic step on the cache.
\<close>

section \<open>Answers of AWS\<close>

record Instance =
  LifecycleState :: string
  as_InstanceId :: "string option"

record InstanceInformation =
  PingStatus :: string
  ii_InstanceId :: "string option"

type_synonym asg_client = "string \<Rightarrow> go_error + Instance list list"
type_synonym ssm_client = "string list \<Rightarrow> (go_error + InstanceInformation list) list"
type_synonym client_factory = "string \<Rightarrow> string \<Rightarrow> go_error + (asg_client \<times> ssm_client)"

section \<open>The lookup\<close>

definition in_service :: "Instance list \<Rightarrow> string list" where
  "in_service insts =
     remdups (List.map_filter (\<lambda>i. if LifecycleState i = ''InService'' then as_InstanceId i else None) insts)"

fun online_in_page :: "string list \<Rightarrow> InstanceInformation list \<Rightarrow> string option" where
  "online_in_page inService [] = None"
| "online_in_page inService (info # rest) =
     (case (PingStatus info = ''Online'', ii_InstanceId info) of
        (True, Some i) \<Rightarrow> if i \<in> set inService then Some i else online_in_page inService rest
      | _ \<Rightarrow> online_in_page inService rest)"

fun online_in_pages :: "string list \<Rightarrow> (go_error + InstanceInformation list) list \<Rightarrow> go_error + string option" where
  "online_in_pages inService [] = Inr None"
| "online_in_pages inService (Inl err # pages) = Inl err"
| "online_in_pages inService (Inr page # pages) =
     (case online_in_page inService page of
        Some i \<Rightarrow> Inr (Some i)
      | None \<Rightarrow> online_in_pages inService pages)"

definition lookupOnlineInstance ::
  "(string \<Rightarrow> string) \<Rightarrow> asg_client \<Rightarrow> ssm_client \<Rightarrow> string \<Rightarrow> go_error + string" where
  "lookupOnlineInstance quote asg_client ssm_client asgName =
     (case asg_client asgName of
        Inl err \<Rightarrow> Inl (Errorf_w (''describing asg '' @ quote asgName) err)
      | Inr [] \<Rightarrow> Inl (Opaque (''asg '' @ quote asgName @ '' not found''))
      | Inr (grp # _) \<Rightarrow>
          let inService = in_service grp
          in if inService = [] then Inl (Opaque (''asg '' @ quote asgName @ '' has no in-service instances''))
             else case online_in_pages inService (ssm_client inService) of
                 Inl err \<Rightarrow> Inl (Errorf_w (''describing ssm info for asg '' @ quote asgName) err)
               | Inr (Some i) \<Rightarrow> Inr i
               | Inr None \<Rightarrow> Inl (Opaque (''asg '' @ quote asgName @ '': no ssm-online instances among '' @
                     show_nat (length inService) @ '' candidates'')))"

section \<open>The cache\<close>

record cacheKey =
  ck_awsProfile :: string
  ck_awsRegion :: string
  ck_targetASG :: string

definition keyFor :: "Profile \<Rightarrow> cacheKey" where
  "keyFor p = \<lparr>ck_awsProfile = AWSProfile p, ck_awsRegion = AWSRegion p, ck_targetASG = TargetASG p\<rparr>"

record ASGResolver =
  cache :: "(cacheKey \<times> string) list"

definition NewASGResolver :: ASGResolver where
  "NewASGResolver = \<lparr>cache = []\<rparr>"

definition Resolve ::
  "(string \<Rightarrow> string) \<Rightarrow> client_factory \<Rightarrow> Profile \<Rightarrow> ASGResolver \<Rightarrow> (go_error + string) \<times> ASGResolver" where
  "Resolve quote factory p r =
     (if pr_Target p \<noteq> [] then (Inr (pr_Target p), r)
      else if TargetASG p = [] then
        (Inl (Opaque (''bastion: profile '' @ quote (AWSProfile p) @ '' has neither target nor target_asg'')), r)
      else case map_of (cache r) (keyFor p) of
          Some i \<Rightarrow> (Inr i, r)
        | None \<Rightarrow>
            (case factory (AWSProfile p) (AWSRegion p) of
               Inl err \<Rightarrow>
                 (Inl (Errorf_w (''bastion: building aws clients for profile '' @ quote (AWSProfile p)) err), r)
             | Inr (asgClient, ssmClient) \<Rightarrow>
                 (case lookupOnlineInstance quote asgClient ssmClient (TargetASG p) of
                    Inl err \<Rightarrow> (Inl err, r)
                  | Inr i \<Rightarrow> (Inr i, r\<lparr>cache := map_put (keyFor p) i (cache r)\<rparr>))))"

definition Invalidate :: "Profile \<Rightarrow> ASGResolver \<Rightarrow> ASGResolver" where
  "Invalidate p r = r\<lparr>cache := map_del (keyFor p) (cache r)\<rparr>"

section \<open>Lemmas\<close>

lemma in_service_iff:
  "i \<in> set (in_service insts) \<longleftrightarrow>
     (\<exists>inst\<in>set insts. LifecycleState inst = ''InService'' \<and> as_InstanceId inst = Some i)"
  by (induction insts) (auto simp: in_service_def List.map_filter_simps split: option.splits if_splits)

lemma online_in_page_Some:
  "online_in_page ids page = Some i \<Longrightarrow>
     i \<in> set ids \<and> (\<exists>info\<in>set page. PingStatus info = ''Online'' \<and> ii_InstanceId info = Some i)"
  by (induction ids page rule: online_in_page.induct) (auto split: bool.splits option.splits if_splits)

lemma online_in_page_None:
  "online_in_page ids page = None \<longleftrightarrow>
     (\<forall>info\<in>set page. \<forall>i. PingStatus info = ''Online'' \<and> ii_InstanceId info = Some i \<longrightarrow> i \<notin> set ids)"
  by (induction ids page rule: online_in_page.induct) (auto split: bool.splits option.splits)

lemma online_in_pages_Some:
  "online_in_pages ids pages = Inr (Some i) \<Longrightarrow>
     i \<in> set ids \<and> (\<exists>page info. Inr page \<in> set pages \<and> info \<in> set page \<and>
       PingStatus info = ''Online'' \<and> ii_InstanceId info = Some i)"
  by (induction ids pages rule: online_in_pages.induct)
    (auto split: option.splits dest!: online_in_page_Some)

text \<open>When every page is served, an online in-service instance on any of them is enough.\<close>

lemma online_in_pages_finds:
  assumes "\<And>err. Inl err \<notin> set pages" and "Inr page \<in> set pages" and "info \<in> set page"
    and "PingStatus info = ''Online''" and "ii_InstanceId info = Some i" and "i \<in> set ids"
  shows "\<exists>i'. online_in_pages ids pages = Inr (Some i')"
  using assms
proof (induction ids pages rule: online_in_pages.induct)
  case (3 ids p pages)
  then show ?case
    using online_in_page_None [of ids p] by (cases "online_in_page ids p") auto
qed auto

lemma Resolve_cached:
  assumes "Resolve quote factory p r = (Inr i, r')" and "keyFor q = keyFor p" and "pr_Target q = pr_Target p"
  shows "Resolve quote' factory' q r' = (Inr i, r')"
proof -
  have "TargetASG q = TargetASG p" using assms(2) by (simp add: keyFor_def)
  with assms show ?thesis
    by (auto simp: Resolve_def split: if_splits option.splits sum.splits prod.splits)
qed

lemma Resolve_others:
  "Resolve quote factory p r = (res, r') \<Longrightarrow> k \<noteq> keyFor p \<Longrightarrow> map_of (cache r') k = map_of (cache r) k"
  by (auto simp: Resolve_def split: if_splits option.splits sum.splits prod.splits)

lemma Invalidate_cache: "map_of (cache (Invalidate p r)) = (map_of (cache r))(keyFor p := None)"
  by (simp add: Invalidate_def)

text \<open>
  what a fresh lookup may answer. Every instance it returns was reported in service by the
  auto-scaling group and online by SSM; and when AWS serves every page, it returns an instance as
  soon as one on any page is both.
\<close>

lemma lookup_online:
  assumes "asg_client asgName = Inr (grp # groups)"
  shows "(lookupOnlineInstance quote asg_client ssm_client asgName = Inr i \<longrightarrow>
      (\<exists>inst\<in>set grp. LifecycleState inst = ''InService'' \<and> as_InstanceId inst = Some i) \<and>
      (\<exists>page info. Inr page \<in> set (ssm_client (in_service grp)) \<and> info \<in> set page \<and>
         PingStatus info = ''Online'' \<and> ii_InstanceId info = Some i)) \<and>
    ((\<forall>err. Inl err \<notin> set (ssm_client (in_service grp))) \<and>
      (\<exists>page info i. Inr page \<in> set (ssm_client (in_service grp)) \<and> info \<in> set page \<and>
         PingStatus info = ''Online'' \<and> ii_InstanceId info = Some i \<and> i \<in> set (in_service grp)) \<longrightarrow>
      (\<exists>i. lookupOnlineInstance quote asg_client ssm_client asgName = Inr i))"
proof (intro conjI impI)
  assume "lookupOnlineInstance quote asg_client ssm_client asgName = Inr i"
  then have "online_in_pages (in_service grp) (ssm_client (in_service grp)) = Inr (Some i)"
    using assms by (auto simp: lookupOnlineInstance_def Let_def split: if_splits sum.splits option.splits)
  from online_in_pages_Some [OF this]
  show "\<exists>inst\<in>set grp. LifecycleState inst = ''InService'' \<and> as_InstanceId inst = Some i"
    "\<exists>page info. Inr page \<in> set (ssm_client (in_service grp)) \<and> info \<in> set page \<and>
       PingStatus info = ''Online'' \<and> ii_InstanceId info = Some i"
    by (auto simp: in_service_iff)
next
  assume *: "(\<forall>err. Inl err \<notin> set (ssm_client (in_service grp))) \<and>
      (\<exists>page info i. Inr page \<in> set (ssm_client (in_service grp)) \<and> info \<in> set page \<and>
         PingStatus info = ''Online'' \<and> ii_InstanceId info = Some i \<and> i \<in> set (in_service grp))"
  then have "\<exists>i. online_in_pages (in_service grp) (ssm_client (in_service grp)) = Inr (Some i)"
    using online_in_pages_finds by blast
  moreover have "in_service grp \<noteq> []" using * by auto
  ultimately show "\<exists>i. lookupOnlineInstance quote asg_client ssm_client asgName = Inr i"
    using assms by (auto simp: lookupOnlineInstance_def Let_def)
qed

text \<open>Two pages; the online instance is on the second.\<close>

definition sample_asg :: asg_client where
  "sample_asg name = Inr [[\<lparr>LifecycleState = ''Terminating'', as_InstanceId = Some ''i-0''\<rparr>,
     \<lparr>LifecycleState = ''InService'', as_InstanceId = Some ''i-1''\<rparr>]]"

definition sample_ssm :: ssm_client where
  "sample_ssm ids = [Inr [\<lparr>PingStatus = ''Online'', ii_InstanceId = Some ''i-0''\<rparr>],
     Inr [\<lparr>PingStatus = ''Online'', ii_InstanceId = Some ''i-1''\<rparr>]]"

lemma lookup_online_witness:
  "\<exists>i. lookupOnlineInstance id sample_asg sample_ssm ''bastion'' = Inr i"
proof -
  let ?g = "[\<lparr>LifecycleState = ''Terminating'', as_InstanceId = Some ''i-0''\<rparr>,
     \<lparr>LifecycleState = ''InService'', as_InstanceId = Some ''i-1''\<rparr>]"
  have asg: "sample_asg ''bastion'' = Inr (?g # [])" by (simp add: sample_asg_def)
  have "in_service ?g = [''i-1'']" by code_simp
  then show ?thesis
    using lookup_online [of sample_asg "''bastion''" ?g "[]" id sample_ssm "''i-1''", OF asg] by (auto simp: sample_ssm_def)
qed

text \<open>
  one lookup serves every profile with the same AWS profile, region and grp. After a
  successful \<open>Resolve\<close> each later one for that triple answers the same instance whatever AWS would
  say; \<open>Invalidate\<close> forgets that triple and no other, so that the next \<open>Resolve\<close> asks AWS anew; a
  failed lookup caches nothing; and a pinned target is answered without any of this.
\<close>

lemma resolve_caches_until_invalidated:
  assumes "Resolve quote factory p r = (Inr i, r')"
    and "AWSProfile q = AWSProfile p" and "AWSRegion q = AWSRegion p"
    and "TargetASG q = TargetASG p" and "pr_Target q = pr_Target p"
  shows "Resolve quote factory' q r' = (Inr i, r') \<and>
    (pr_Target p = [] \<longrightarrow> Resolve quote (\<lambda>_ _. Inl e) q (Invalidate p r') =
       (Inl (Errorf_w (''bastion: building aws clients for profile '' @ quote (AWSProfile p)) e), Invalidate p r')) \<and>
    (keyFor other \<noteq> keyFor p \<longrightarrow>
       map_of (cache (Invalidate p r')) (keyFor other) = map_of (cache r) (keyFor other)) \<and>
    (pr_Target p \<noteq> [] \<longrightarrow> i = pr_Target p \<and> r' = r)"
proof -
  have key: "keyFor q = keyFor p" using assms by (simp add: keyFor_def)
  have "TargetASG p \<noteq> []" if "pr_Target p = []"
    using that assms(1) by (auto simp: Resolve_def split: if_splits)
  then have "pr_Target p = [] \<longrightarrow> Resolve quote (\<lambda>_ _. Inl e) q (Invalidate p r') =
       (Inl (Errorf_w (''bastion: building aws clients for profile '' @ quote (AWSProfile p)) e), Invalidate p r')"
    using assms(2-5) by (simp add: Resolve_def key Invalidate_cache)
  moreover have "pr_Target p \<noteq> [] \<longrightarrow> i = pr_Target p \<and> r' = r"
    using assms(1) by (auto simp: Resolve_def)
  ultimately show ?thesis
    using Resolve_cached [OF assms(1) key assms(5)] Resolve_others [OF assms(1), of "keyFor other"]
    by (simp add: Invalidate_cache)
qed

lemma resolve_caches_until_invalidated_witness:
  "\<exists>r'. Resolve id (\<lambda>_ _. Inr (sample_asg, sample_ssm)) (sample_profile []) NewASGResolver = (Inr ''i-1'', r') \<and>
    Resolve id (\<lambda>_ _. Inl (Opaque ''down'')) (sample_profile []) r' = (Inr ''i-1'', r')"
proof -
  have "fst (Resolve id (\<lambda>_ _. Inr (sample_asg, sample_ssm)) (sample_profile []) NewASGResolver) = Inr ''i-1''"
    by code_simp
  then obtain r' where
    "Resolve id (\<lambda>_ _. Inr (sample_asg, sample_ssm)) (sample_profile []) NewASGResolver = (Inr ''i-1'', r')"
    by (metis prod.collapse)
  then show ?thesis
    using resolve_caches_until_invalidated
      [of id "\<lambda>_ _. Inr (sample_asg, sample_ssm)" "sample_profile []" NewASGResolver "''i-1''" r' "sample_profile []"]
    by blast
qed

end
