(* ===== verification/Session_Manager.thy ===== *)
theory Session_Manager
  imports Session_Errors Ip_Allocator
begin

text \<open>
  \<open>internal/session/manager.go\<close>: the \<open>aws ssm start-session\<close> child of one connection. Modelled
  are the command line, the end of a session (what is left of its process group, then the error
  \<open>Wait\<close> hands out) and \<open>Stop\<close>. Processes, signals and clocks belong to the operating system:
  what \<open>kill(2)\<close> answers, whether the group still has members at the i-th look and what the clock
  says are arguments.
\<close>

definition stderrCaptureSize :: nat where
  "stderrCaptureSize = 8 * 1024"

definition groupGrace :: duration where
  "groupGrace = 2 * second"

section \<open>The command line\<close>

record StartParams =
  sp_AWSProfile :: string
  sp_AWSRegion :: string
  sp_Target :: string
  sp_RemoteHost :: string
  sp_RemotePort :: int
  sp_LocalIP :: ip
  sp_LocalPort :: int

definition param_json :: "StartParams \<Rightarrow> string" where
  "param_json p =
     ''{\"host\":[\"'' @ sp_RemoteHost p @ ''\"],\"portNumber\":[\"'' @ show_int (sp_RemotePort p) @
     ''\"],\"localPortNumber\":[\"'' @ show_int (sp_LocalPort p) @ ''\"]}''"

definition buildSSMArgs :: "StartParams \<Rightarrow> string list" where
  "buildSSMArgs params =
     (let args = [''ssm'', ''start-session'', ''--target'', sp_Target params,
                  ''--document-name'', ''AWS-StartPortForwardingSessionToRemoteHost'',
                  ''--parameters'', param_json params];
          args = (if sp_AWSProfile params \<noteq> [] then args @ [''--profile'', sp_AWSProfile params] else args);
          args = (if sp_AWSRegion params \<noteq> [] then args @ [''--region'', sp_AWSRegion params] else args)
      in args)"

section \<open>Signals\<close>

datatype signal = SIGTERM | SIGKILL

datatype kill_result = Kill_ok | Kill_ESRCH | Kill_error go_error

definition signalGroup :: "kill_result \<Rightarrow> go_error option" where
  "signalGroup r = (case r of Kill_ok \<Rightarrow> None | Kill_ESRCH \<Rightarrow> None | Kill_error e \<Rightarrow> Some e)"

text \<open>
  What a call of \<open>Stop\<close> meets: the session done on entry, the answers of the two \<open>kill\<close> calls,
  the session done before the context ran out, and the context's error.
\<close>

record stop_env =
  se_done_on_entry :: bool
  se_term :: kill_result
  se_done_in_time :: bool
  se_kill :: kill_result
  se_ctx_err :: go_error

definition session_Stop :: "stop_env \<Rightarrow> signal list \<times> go_error option" where
  "session_Stop env =
     (if se_done_on_entry env then ([], None)
      else case signalGroup (se_term env) of
        Some e \<Rightarrow> ([SIGTERM], Some (Errorf_w ''sending SIGTERM'' e))
      | None \<Rightarrow>
          if se_done_in_time env then ([SIGTERM], None)
          else (case signalGroup (se_kill env) of
              Some e \<Rightarrow> ([SIGTERM, SIGKILL], Some (Errorf_w ''sending SIGKILL'' e))
            | None \<Rightarrow> ([SIGTERM, SIGKILL], Some (se_ctx_err env))))"

text \<open>
  The polling loop of \<open>terminateGroup\<close>. \<open>clock i\<close> is \<open>time.Now()\<close> before the i-th sleep,
  \<open>alive i\<close> is \<open>groupAlive()\<close> after it; the result is whether SIGKILL is sent, and the polls
  made. \<open>None\<close> would be a loop that never ends.
\<close>

partial_function (option) term_loop ::
  "(nat \<Rightarrow> instant) \<Rightarrow> (nat \<Rightarrow> bool) \<Rightarrow> instant \<Rightarrow> nat \<Rightarrow> (bool \<times> nat) option" where
  "term_loop clock alive deadline i =
     (if clock i < deadline
      then (if \<not> alive i then Some (False, Suc i) else term_loop clock alive deadline (Suc i))
      else Some (True, i))"

definition terminateGroup ::
  "kill_result \<Rightarrow> bool \<Rightarrow> (nat \<Rightarrow> instant) \<Rightarrow> (nat \<Rightarrow> bool) \<Rightarrow> (signal list) option" where
  "terminateGroup term alive_now clock alive =
     (if signalGroup term \<noteq> None \<or> \<not> alive_now then Some [SIGTERM]
      else
        let deadline = clock 0 + groupGrace
        in map_option (\<lambda>(kill, polls). if kill then [SIGTERM, SIGKILL] else [SIGTERM])
             (term_loop clock alive deadline 0))"

section \<open>The error a session ends with\<close>

definition captured :: "bytes list \<Rightarrow> bytes" where
  "captured writes =
     ring_Bytes (fold (\<lambda>p r. snd (ring_Write p r)) writes (newRingBuffer stderrCaptureSize))"

text \<open>
  \<open>wait\<close>: after \<open>cmd.Wait\<close> answered \<open>exit_err\<close> and the group is dealt with, the session's error
  is set and \<open>done\<close> closed; the pair is what \<open>Wait\<close> returns and the signals sent on the way.
\<close>

definition session_wait ::
  "(string \<Rightarrow> string) \<Rightarrow> bytes list \<Rightarrow> go_error option \<Rightarrow> kill_result \<Rightarrow> bool \<Rightarrow> (nat \<Rightarrow> instant) \<Rightarrow>
   (nat \<Rightarrow> bool) \<Rightarrow> (go_error option \<times> signal list) option" where
  "session_wait ulower writes exit_err term alive_now clock alive =
     Option.bind (terminateGroup term alive_now clock alive)
       (\<lambda>sigs. map_option (\<lambda>e. (e, sigs)) (classify ulower (captured writes) exit_err))"

section \<open>Properties\<close>

lemma Cut_quote:
  assumes "CHR ''\"'' \<notin> set b" and eq: "b @ CHR ''\"'' # r = b' @ CHR ''\"'' # r'" and "CHR ''\"'' \<notin> set b'"
  shows "b = b' \<and> r = r'"
proof -
  have "takeWhile (\<lambda>c. c \<noteq> CHR ''\"'') (b @ CHR ''\"'' # r) = b"
    "takeWhile (\<lambda>c. c \<noteq> CHR ''\"'') (b' @ CHR ''\"'' # r') = b'"
    using takeWhile_tail [of "\<lambda>c. c \<noteq> CHR ''\"''"] takeWhile_eq_all_conv [of "\<lambda>c. c \<noteq> CHR ''\"''"]
      assms(1,3) by force+
  with eq have "b = b'" by simp
  with eq show ?thesis by simp
qed

lemma is_digit_quote: "\<not> is_digit (CHR ''\"'')" "\<not> is_digit (CHR ''-'')"
  by (simp_all add: is_digit_def)

lemma show_int_no_quote: "CHR ''\"'' \<notin> set (show_int i)"
  using show_nat_digits is_digit_quote by (auto simp: show_int_def)

lemma show_int_inj: "show_int i = show_int j \<longleftrightarrow> i = j"
proof
  assume eq: "show_int i = show_int j"
  have hd: "hd (show_nat n) \<noteq> CHR ''-''" for n
    using show_nat_digits [OF hd_in_set [OF show_nat_nonempty], of n] is_digit_quote(2) by metis
  have sign: "hd (show_int k) = CHR ''-'' \<longleftrightarrow> k < 0" for k
    using hd [of "nat k"] by (simp add: show_int_def)
  have "i < 0 \<longleftrightarrow> j < 0"
    using sign [of i] sign [of j] eq by (simp del: hd_append)
  moreover have "show_nat (nat (if i < 0 then - i else i)) = show_nat (nat (if j < 0 then - j else j))"
    using eq calculation by (simp add: show_int_def split: if_splits)
  then have "nat (if i < 0 then - i else i) = nat (if j < 0 then - j else j)"
    by (simp only: show_nat_inj)
  ultimately show "i = j" by (simp split: if_splits)
qed simp

lemma param_json_inj:
  assumes "param_json p = param_json q" and "CHR ''\"'' \<notin> set (sp_RemoteHost p)"
    and "CHR ''\"'' \<notin> set (sp_RemoteHost q)"
  shows "sp_RemoteHost p = sp_RemoteHost q \<and> sp_RemotePort p = sp_RemotePort q \<and> sp_LocalPort p = sp_LocalPort q"
proof -
  let ?ports = "\<lambda>p. ''],\"portNumber\":[\"'' @ show_int (sp_RemotePort p) @
     ''\"],\"localPortNumber\":[\"'' @ show_int (sp_LocalPort p) @ ''\"]}''"
  have "sp_RemoteHost p @ CHR ''\"'' # ?ports p = sp_RemoteHost q @ CHR ''\"'' # ?ports q"
    using assms(1) by (simp add: param_json_def)
  from Cut_quote [OF assms(2) this assms(3)]
  have host: "sp_RemoteHost p = sp_RemoteHost q" and ports: "?ports p = ?ports q" by simp_all
  let ?local = "\<lambda>p. ''],\"localPortNumber\":[\"'' @ show_int (sp_LocalPort p) @ ''\"]}''"
  have "show_int (sp_RemotePort p) @ CHR ''\"'' # ?local p = show_int (sp_RemotePort q) @ CHR ''\"'' # ?local q"
    using ports by simp
  from Cut_quote [OF show_int_no_quote this show_int_no_quote]
  have "show_int (sp_RemotePort p) = show_int (sp_RemotePort q)" and loc: "?local p = ?local q" by simp_all
  moreover have "show_int (sp_LocalPort p) = show_int (sp_LocalPort q)" using loc by simp
  ultimately show ?thesis using host by (simp add: show_int_inj)
qed

text \<open>
  the command line determines the session: two parameter sets with the same arguments agree
  on everything but the local address, which the command line does not carry, as long as no host
  contains a double quote (the code pastes the host into JSON without escaping it).
\<close>

lemma buildSSMArgs_injective:
  assumes "buildSSMArgs p = buildSSMArgs q"
    and "CHR ''\"'' \<notin> set (sp_RemoteHost p)" and "CHR ''\"'' \<notin> set (sp_RemoteHost q)"
  shows "q = p\<lparr>sp_LocalIP := sp_LocalIP q\<rparr>"
proof -
  have json: "param_json p = param_json q" and "sp_Target p = sp_Target q"
    using assms(1) by (auto simp: buildSSMArgs_def Let_def split: if_splits)
  moreover have "sp_AWSProfile p = sp_AWSProfile q \<and> sp_AWSRegion p = sp_AWSRegion q"
    using assms(1) by (auto simp: buildSSMArgs_def Let_def split: if_splits)
  ultimately show ?thesis using param_json_inj [OF json assms(2,3)] by (simp add: StartParams.equality)
qed

lemma buildSSMArgs_injective_witness:
  "buildSSMArgs \<lparr>sp_AWSProfile = ''dev'', sp_AWSRegion = [], sp_Target = ''i-1'', sp_RemoteHost = ''db'',
      sp_RemotePort = 5432, sp_LocalIP = loopback 1, sp_LocalPort = 40000\<rparr>
   \<noteq> buildSSMArgs \<lparr>sp_AWSProfile = ''dev'', sp_AWSRegion = [], sp_Target = ''i-1'', sp_RemoteHost = ''db'',
      sp_RemotePort = 5432, sp_LocalIP = loopback 1, sp_LocalPort = 40001\<rparr>"
  using buildSSMArgs_injective
    [of "\<lparr>sp_AWSProfile = ''dev'', sp_AWSRegion = [], sp_Target = ''i-1'', sp_RemoteHost = ''db'',
      sp_RemotePort = 5432, sp_LocalIP = loopback 1, sp_LocalPort = 40000\<rparr>"
     "\<lparr>sp_AWSProfile = ''dev'', sp_AWSRegion = [], sp_Target = ''i-1'', sp_RemoteHost = ''db'',
      sp_RemotePort = 5432, sp_LocalIP = loopback 1, sp_LocalPort = 40001\<rparr>"]
  by auto

text \<open>The loop, once the clock is known to move on by at least one sleep per turn.\<close>

lemma clock_advances:
  assumes "\<And>i. clock i + 20 * millisecond \<le> clock (Suc i)"
  shows "clock 0 + int n * (20 * millisecond) \<le> clock n"
proof (induction n)
  case (Suc n)
  then show ?case using assms [of n] by (simp add: algebra_simps)
qed simp

lemma term_loop_returns:
  assumes clock: "\<And>i. clock i + 20 * millisecond \<le> clock (Suc i)"
    and deadline: "deadline = clock 0 + groupGrace" and "i \<le> 100"
  shows "\<exists>kill n. term_loop clock alive deadline i = Some (kill, n) \<and> i \<le> n \<and> n \<le> 100 \<and>
    (if kill then deadline \<le> clock n \<and> (\<forall>j. i \<le> j \<and> j < n \<longrightarrow> alive j) else i < n \<and> \<not> alive (n - 1))"
  using \<open>i \<le> 100\<close>
proof (induction rule: inc_induct)
  case base
  have "deadline \<le> clock 100"
    using clock_advances [of clock 100] clock deadline by (simp add: groupGrace_def millisecond_def)
  then have "term_loop clock alive deadline 100 = Some (True, 100)"
    by (subst term_loop.simps) simp
  with \<open>deadline \<le> clock 100\<close> show ?case by (intro exI [of _ True] exI [of _ 100]) auto
next
  case (step i)
  consider (dead) "clock i < deadline" "\<not> alive i" | (late) "deadline \<le> clock i"
    | (again) "clock i < deadline" "alive i" by linarith
  then show ?case
  proof cases
    case dead
    then have "term_loop clock alive deadline i = Some (False, Suc i)" by (subst term_loop.simps) simp
    with dead step.hyps show ?thesis by (intro exI [of _ False] exI [of _ "Suc i"]) simp
  next
    case late
    then have "term_loop clock alive deadline i = Some (True, i)" by (subst term_loop.simps) simp
    with late step.hyps show ?thesis by (intro exI [of _ True] exI [of _ i]) auto
  next
    case again
    then have "term_loop clock alive deadline i = term_loop clock alive deadline (Suc i)"
      by (subst term_loop.simps) simp
    moreover obtain kill n where r: "term_loop clock alive deadline (Suc i) = Some (kill, n)"
      "Suc i \<le> n" "n \<le> 100" "if kill then deadline \<le> clock n \<and> (\<forall>j. Suc i \<le> j \<and> j < n \<longrightarrow> alive j)
        else Suc i < n \<and> \<not> alive (n - 1)"
      using step.IH by blast
    moreover have "alive j" if "\<forall>j. Suc i \<le> j \<and> j < n \<longrightarrow> alive j" "i \<le> j" "j < n" for j
      using that again(2) by (cases "j = i") auto
    ultimately show ?thesis by (intro exI [of _ kill] exI [of _ n]) (auto split: if_splits)
  qed
qed

lemma terminateGroup_returns:
  assumes "\<And>i. clock i + 20 * millisecond \<le> clock (Suc i)"
  shows "\<exists>sigs. terminateGroup term alive_now clock alive = Some sigs \<and>
    (sigs = [SIGTERM] \<and> (signalGroup term \<noteq> None \<or> \<not> alive_now \<or> (\<exists>i<100. \<not> alive i)) \<or>
     sigs = [SIGTERM, SIGKILL] \<and> signalGroup term = None \<and> alive_now \<and>
       (\<exists>n\<le>100. clock 0 + groupGrace \<le> clock n \<and> (\<forall>i<n. alive i)))"
proof (cases "signalGroup term \<noteq> None \<or> \<not> alive_now")
  case False
  obtain kill n where r: "term_loop clock alive (clock 0 + groupGrace) 0 = Some (kill, n)" "n \<le> 100"
    "if kill then clock 0 + groupGrace \<le> clock n \<and> (\<forall>j. 0 \<le> j \<and> j < n \<longrightarrow> alive j)
     else 0 < n \<and> \<not> alive (n - 1)"
    using term_loop_returns [of clock "clock 0 + groupGrace" 0 alive, OF assms] by auto
  have "\<exists>i<100. \<not> alive i" if "\<not> kill"
    using that r(2,3) by (intro exI [of _ "n - 1"]) auto
  with False r show ?thesis by (cases kill) (auto simp: terminateGroup_def Let_def)
qed (auto simp: terminateGroup_def)

text \<open>
  clearing up after a dead child always ends, after at most 100 polls. SIGKILL follows SIGTERM
  exactly when the group was alive at every look until the grace period had passed; otherwise the
  group was seen empty, or the first signal failed.
\<close>

lemma terminateGroup_ends:
  assumes "\<And>i. clock i + 20 * millisecond \<le> clock (Suc i)"
  shows "\<exists>sigs. terminateGroup term alive_now clock alive = Some sigs \<and>
    (sigs = [SIGTERM] \<and> (signalGroup term \<noteq> None \<or> \<not> alive_now \<or> (\<exists>i<100. \<not> alive i)) \<or>
     sigs = [SIGTERM, SIGKILL] \<and> signalGroup term = None \<and> alive_now \<and>
       (\<exists>n\<le>100. clock 0 + groupGrace \<le> clock n \<and> (\<forall>i<n. alive i)))"
  using assms by (rule terminateGroup_returns)

lemma terminateGroup_ends_witness:
  "\<exists>sigs. terminateGroup Kill_ok True (\<lambda>i. int i * (20 * millisecond)) (\<lambda>i. True) = Some sigs \<and>
    SIGKILL \<in> set sigs"
  using terminateGroup_ends [of "\<lambda>i. int i * (20 * millisecond)" Kill_ok True "\<lambda>i. True"]
  by (auto simp: algebra_simps signalGroup_def)

lemma captured_tail: "captured writes = last_n 8192 (concat writes)"
  using ring.contents_writes [OF ring_ok_new] by (simp add: captured_def stderrCaptureSize_def)

lemma ascii_last_n: "ascii s \<Longrightarrow> ascii (last_n n s)"
  by (auto simp: list_all_iff last_n_def dest: in_set_dropD)

text \<open>
  C17: what the engine learns of a dead child. A session whose \<open>aws\<close> exited without an error ends without
  one. If it failed and its output is ASCII, then whatever the pieces the output was written in and
  however the group has to be cleared, \<open>Wait\<close> answers, and its verdict is the one the last 8 KiB of the
  output call for: expired credentials first, then a lost target, otherwise the exit error itself.
  (On other output the search may cut into a rune or, on bytes that are not UTF-8, out of range.)
\<close>

theorem session_wait_verdict:
  assumes clock: "\<And>i. clock i + 20 * millisecond \<le> clock (Suc i)"
    and ascii: "exit_err \<noteq> None \<Longrightarrow> ascii (concat writes)"
  shows "\<exists>verdict sigs. session_wait u writes exit_err term alive_now clock alive = Some (verdict, sigs) \<and>
    (case exit_err of
       None \<Rightarrow> verdict = None
     | Some e \<Rightarrow> \<exists>e'. verdict = Some e' \<and>
         (if mentions expiredPatterns (last_n 8192 (concat writes)) then errors_Is e' ErrCredentialsExpired
          else if mentions targetNotConnectedPatterns (last_n 8192 (concat writes))
          then errors_Is e' ErrTargetNotConnected \<and> \<not> errors_Is e' ErrCredentialsExpired
          else e' = e))"
proof -
  obtain sigs where sigs: "terminateGroup term alive_now clock alive = Some sigs"
    using terminateGroup_returns [of clock "term" alive_now alive, OF clock] by blast
  show ?thesis
  proof (cases exit_err)
    case None
    then show ?thesis using sigs by (simp add: session_wait_def classify_def)
  next
    case (Some e)
    obtain e' where e': "classify u (captured writes) (Some e) = Some (Some e')"
      and verdict: "if mentions expiredPatterns (captured writes) then errors_Is e' ErrCredentialsExpired
       else if mentions targetNotConnectedPatterns (captured writes)
       then errors_Is e' ErrTargetNotConnected \<and> \<not> errors_Is e' ErrCredentialsExpired
       else e' = e"
      using classify_ascii_text [of "captured writes" u e] ascii_last_n [OF ascii, of 8192] Some
      by (auto simp: captured_tail split: if_splits)
    have "session_wait u writes (Some e) term alive_now clock alive = Some (Some e', sigs)"
      using sigs e' by (simp add: session_wait_def)
    with verdict show ?thesis unfolding captured_tail Some by auto
  qed
qed

theorem session_wait_verdict_witness:
  "\<exists>e' sigs. session_wait id [''Error: Expired'', ''TokenException'', [NL]] (Some (Opaque ''exit status 255''))
      Kill_ok True (\<lambda>i. int i * (20 * millisecond)) (\<lambda>i. i < 3) = Some (Some e', sigs) \<and>
    errors_Is e' ErrCredentialsExpired"
proof -
  let ?w = "[''Error: Expired'', ''TokenException'', [NL]]"
  have asc: "ascii (concat ?w)" by (simp add: is_ascii_def byte_def NL_def)
  have "containsAnyPattern id (concat ?w) expiredPatterns" by code_simp
  then have "mentions expiredPatterns (concat ?w)"
    using containsAnyPattern_ascii [OF asc ascii_patterns(1) nonempty_patterns(1)] by blast
  moreover have "last_n 8192 (concat ?w) = concat ?w" by (rule last_n_all) (simp add: NL_def)
  ultimately show ?thesis
    using session_wait_verdict [of "\<lambda>i. int i * (20 * millisecond)" "Some (Opaque ''exit status 255'')" ?w id
        Kill_ok True "\<lambda>i. i < 3", OF _ asc]
    by (auto simp: algebra_simps)
qed

text \<open>
  \<open>Stop\<close> never signals a session that is already done, whose group number may belong to
  others by then. Otherwise it sends SIGTERM first and SIGKILL only after the context ran out, and
  it reports success exactly when the session was done within the time it was given.
\<close>

lemma session_Stop_signals:
  "(fst (session_Stop env) =
      (if se_done_on_entry env then []
       else if signalGroup (se_term env) = None \<and> \<not> se_done_in_time env then [SIGTERM, SIGKILL]
       else [SIGTERM])) \<and>
   (snd (session_Stop env) = None \<longleftrightarrow>
      se_done_on_entry env \<or> se_done_in_time env \<and> (se_term env = Kill_ok \<or> se_term env = Kill_ESRCH))"
  by (auto simp: session_Stop_def signalGroup_def split: option.splits kill_result.splits)

end
