(* ===== verification/Service_Loop.thy ===== *)
theory Service_Loop
  imports Engine_Events Bastion Session_Manager
begin

text \<open>
  The life of one service, \<open>internal/engine/engine.go\<close>: the goroutine \<open>runService\<close> with \<open>connect\<close>,
  \<open>credentialsExpired\<close> and \<open>reconnecting\<close>, any number of concurrent \<open>stopService\<close> calls with the
  cleaning up \<open>Stop\<close> does after them, and any number of \<open>DropSessions\<close> passes.

  Go runs these interleaved, so each is a program counter whose steps are the stretches of code
  between two points where another goroutine can be seen: one section under \<open>si.mu\<close>, one call of
  another component, one \<open>select\<close>, one \<open>emit\<close>. What the outside world answers in a step is the record
  \<open>answers\<close>; the runner's and the stoppers' steps are functions, and \<open>step\<close> is their interleaving.
\<close>

section \<open>State\<close>

text \<open>
  A session is live until its \<open>done\<close> channel closes with the error \<open>Wait\<close> returns. \<open>Stop_failed\<close>
  marks one whose \<open>Stop\<close> was called and returned an error without the session being done: its process
  may still run, and it can still end later or be stopped again (\<open>session_dies\<close>, \<open>stop_session\<close>).
\<close>

datatype session_status = Live | Stop_failed | Ended "go_error option"

text \<open>
  The successful calls of the ports, in order, with what they were given (\<open>ports.go\<close>): a nil IP is
  \<open>None\<close>.
\<close>

record ProxyConfig =
  ListenAddr :: string
  TargetAddr :: string
  px_Sigv4Service :: string
  RealHost :: string
  px_AWSProfile :: string
  px_AWSRegion :: string

datatype port_call =
    DNS_Add string "ip option"
  | DNS_Remove string "ip option"
  | Start_session nat StartParams
  | Start_proxy nat ProxyConfig

text \<open>
  \<open>targetRotationRetryDelay\<close> is what \<open>runService\<close> waits after its target rotated away.
\<close>

definition targetRotationRetryDelay :: duration where
  "targetRotationRetryDelay = 500 * millisecond"

text \<open>
  The shared state: the instance, its context, the sessions and proxies started for it (a proxy is
  \<open>True\<close> until stopped), the allocator, the bastion cache, the calls of the ports and everything
  handed to \<open>emit\<close>.
\<close>

record shared =
  si :: serviceInstance
  cancelled :: bool
  sessions :: "session_status list"
  proxies :: "bool list"
  ips :: Allocator
  bastion :: ASGResolver
  calls :: "port_call list"
  emitted :: "event list"

record answers =
  a_now :: instant
  a_dns :: "go_error option"
  a_port :: "go_error + int"
  a_factory :: client_factory
  a_start :: "go_error option"
  a_proxy :: "go_error option"
  a_stop :: "go_error option"
  a_wait :: "go_error option"
  a_timer :: bool
  a_quote :: "string \<Rightarrow> string"
  a_ulower :: "string \<Rightarrow> string"
  a_oor :: "float64 \<Rightarrow> duration"

definition emit_one :: "event \<Rightarrow> shared \<Rightarrow> shared" where
  "emit_one evt w = w\<lparr>emitted := emitted w @ [evt]\<rparr>"

definition log_call :: "port_call \<Rightarrow> shared \<Rightarrow> shared" where
  "log_call c w = w\<lparr>calls := calls w @ [c]\<rparr>"

definition set_si :: "serviceInstance \<Rightarrow> shared \<Rightarrow> shared" where
  "set_si s w = w\<lparr>si := s\<rparr>"

text \<open>
  \<open>sess.Stop(stopCtx)\<close>: a session that is done is left alone; otherwise, without an error it is
  done, with one it may live on, which \<open>Stop_failed\<close> records, and a warning is logged.
\<close>

definition stop_session :: "answers \<Rightarrow> nat \<Rightarrow> shared \<Rightarrow> event list \<times> shared" where
  "stop_session a k w =
     (case sessions w ! k of
        Ended e \<Rightarrow> ([], w)
      | _ \<Rightarrow>
          (case a_stop a of
             None \<Rightarrow> ([], w\<lparr>sessions := (sessions w)[k := Ended (a_wait a)]\<rparr>)
           | Some err \<Rightarrow>
               ([logEntry (si w) Warn (Error_stopping_session err) (a_now a)],
                w\<lparr>sessions := (sessions w)[k := Stop_failed]\<rparr>)))"

definition stop_proxy :: "nat \<Rightarrow> shared \<Rightarrow> shared" where
  "stop_proxy p w = w\<lparr>proxies := (proxies w)[p := False]\<rparr>"

definition svc_key :: "shared \<Rightarrow> string" where
  "svc_key w = service_key (si_profile (si w)) (si_service (si w))"

text \<open>\<open>ip, _ := e.ips.Allocate(key)\<close>.\<close>

definition allocate_ip :: "shared \<Rightarrow> ip option \<times> shared" where
  "allocate_ip w =
     (case Allocate (svc_key w) (ips w) of
        (Inr i, a) \<Rightarrow> (Some i, w\<lparr>ips := a\<rparr>)
      | (Inl _, a) \<Rightarrow> (None, w\<lparr>ips := a\<rparr>))"

definition ip_text :: "ip option \<Rightarrow> string" where
  "ip_text i = (case i of None \<Rightarrow> ''<nil>'' | Some i \<Rightarrow> ip_String i)"

section \<open>The service loop\<close>

datatype runner =
    R_emit "event list" runner
  | R_top
  | R_from
  | R_starting ServiceState
  \<comment> \<open>\<open>connect\<close>\<close>
  | R_allocate
  | R_add_dns "ip option"
  | R_free_port "ip option"
  | R_resolve "ip option" int
  | R_start_session "ip option" int string
  | R_start_proxy "ip option" int nat
  | R_commit "ip option" int nat nat
  | R_stop_proxy nat nat go_error
  | R_stop_session nat go_error
  | R_connected int nat
  \<comment> \<open>the error path\<close>
  | R_connect_failed go_error
  \<comment> \<open>the session path\<close>
  | R_wait nat
  | R_session_ended "go_error option"
  | R_take_proxy "go_error option"
  | R_drain_proxy nat "go_error option"
  \<comment> \<open>\<open>reconnecting\<close> and \<open>credentialsExpired\<close>, each two sections\<close>
  | R_reconnecting ServiceState "go_error option"
  | R_to_reconnecting ServiceState "go_error option"
  | R_expired ServiceState go_error
  | R_to_failed ServiceState go_error
  | R_reconnected ServiceState "go_error option"
  | R_rotation
  | R_backoff
  | R_delay duration
  | R_done

text \<open>What the loop does with a failed \<open>connect\<close> once the context was found alive.\<close>

definition after_connect_error :: "answers \<Rightarrow> go_error \<Rightarrow> runner" where
  "after_connect_error a err =
     (case ClassifyCredentials (a_ulower a) (Some err) of
        Some err' \<Rightarrow>
          if errors_Is err' ErrCredentialsExpired then R_expired Starting err'
          else R_reconnecting Starting (Some err)
      | None \<Rightarrow> R_reconnecting Starting (Some err))"

text \<open>The proxy's listen address and the session's parameters are what \<open>connect\<close> passes on.\<close>

definition dns_step :: "ip option \<Rightarrow> answers \<Rightarrow> shared \<Rightarrow> runner \<times> shared" where
  "dns_step i a w =
     (case a_dns a of
        Some err \<Rightarrow> (R_connect_failed (Errorf_w ''adding DNS entry'' err), w)
      | None \<Rightarrow> (R_free_port i, log_call (DNS_Add (DNSName (si_service (si w))) i) w))"

definition resolve_step :: "Profile \<Rightarrow> ip option \<Rightarrow> int \<Rightarrow> answers \<Rightarrow> shared \<Rightarrow> runner \<times> shared" where
  "resolve_step profile i port a w =
     (case Resolve (a_quote a) (a_factory a) profile (bastion w) of
        (Inl err, b) \<Rightarrow> (R_connect_failed (Errorf_w ''resolving SSM target'' err), w\<lparr>bastion := b\<rparr>)
      | (Inr target, b) \<Rightarrow> (R_start_session i port target, w\<lparr>bastion := b\<rparr>))"

definition session_params :: "Profile \<Rightarrow> serviceInstance \<Rightarrow> string \<Rightarrow> int \<Rightarrow> StartParams" where
  "session_params profile s target port =
     \<lparr>sp_AWSProfile = AWSProfile profile, sp_AWSRegion = AWSRegion profile, sp_Target = target,
      sp_RemoteHost = RemoteHost (si_service s), sp_RemotePort = RemotePort (si_service s),
      sp_LocalIP = IPv4 127 0 0 1, sp_LocalPort = port\<rparr>"

definition start_session_step ::
  "Profile \<Rightarrow> ip option \<Rightarrow> int \<Rightarrow> string \<Rightarrow> answers \<Rightarrow> shared \<Rightarrow> runner \<times> shared" where
  "start_session_step profile i port target a w =
     (case a_start a of
        Some err \<Rightarrow> (R_connect_failed err, w)
      | None \<Rightarrow>
          (R_start_proxy i port (length (sessions w)),
           log_call (Start_session (length (sessions w)) (session_params profile (si w) target port))
             (w\<lparr>sessions := sessions w @ [Live]\<rparr>)))"

definition proxy_config :: "Profile \<Rightarrow> serviceInstance \<Rightarrow> ip option \<Rightarrow> int \<Rightarrow> ProxyConfig" where
  "proxy_config profile s i port =
     \<lparr>ListenAddr = ip_text i @ '':'' @ show_int (LocalPort (si_service s)),
      TargetAddr = ''127.0.0.1:'' @ show_int port, px_Sigv4Service = Sigv4Service (si_service s),
      RealHost = RemoteHost (si_service s), px_AWSProfile = AWSProfile profile,
      px_AWSRegion = AWSRegion profile\<rparr>"

definition start_proxy_step ::
  "Profile \<Rightarrow> ip option \<Rightarrow> int \<Rightarrow> nat \<Rightarrow> answers \<Rightarrow> shared \<Rightarrow> runner \<times> shared" where
  "start_proxy_step profile i port k a w =
     (case a_proxy a of
        Some err \<Rightarrow> (R_stop_session k (Errorf_w ''starting proxy'' err), w)
      | None \<Rightarrow>
          (R_commit i port k (length (proxies w)),
           log_call (Start_proxy (length (proxies w)) (proxy_config profile (si w) i port))
             (w\<lparr>proxies := proxies w @ [True]\<rparr>)))"

text \<open>The commit under \<open>si.mu\<close>; on an error the deferred function stops the proxy, then the session.\<close>

definition commit_step :: "int \<Rightarrow> nat \<Rightarrow> nat \<Rightarrow> answers \<Rightarrow> shared \<Rightarrow> runner \<times> shared" where
  "commit_step port k p a w =
     (if cancelled w then (R_stop_proxy k p (Sentinel Canceled), w)
      else case Transition (si_state (si w)) Connected of
          Some err \<Rightarrow> (R_stop_proxy k p err, w)
        | None \<Rightarrow>
            (R_connected port k,
             set_si ((si w)\<lparr>si_state := Connected, si_session := Some k, si_tcpProxy := Some p,
               si_lastError := None, si_connectedAt := Some (a_now a)\<rparr>) w))"

definition connected_step :: "int \<Rightarrow> nat \<Rightarrow> answers \<Rightarrow> shared \<Rightarrow> runner \<times> shared" where
  "connected_step port k a w =
     (let w = set_si ((si w)\<lparr>si_backoff := MarkConnected (a_now a) (si_backoff (si w))\<rparr>) w
      in (R_emit [stateChange (si w) Starting Connected None (a_now a),
                  logEntry (si w) Info
                    (Connected_via (si_localIP (si w)) (LocalPort (si_service (si w))) port) (a_now a)]
            (R_wait k), w))"

text \<open>The second section of \<open>reconnecting\<close> and of \<open>credentialsExpired\<close>.\<close>

definition to_reconnecting_step ::
  "ServiceState \<Rightarrow> go_error option \<Rightarrow> answers \<Rightarrow> shared \<Rightarrow> runner \<times> shared" where
  "to_reconnecting_step from err a w =
     (case transition Reconnecting (si w) of
        (Some terr, s) \<Rightarrow>
          (R_emit [logEntry s log_level.Error (Cannot_transition_to Reconnecting terr) (a_now a)] R_done, w)
      | (None, s) \<Rightarrow>
          (R_emit [stateChange s from Reconnecting err (a_now a)] (R_reconnected from err), set_si s w))"

definition to_failed_step ::
  "Profile \<Rightarrow> ServiceState \<Rightarrow> go_error \<Rightarrow> answers \<Rightarrow> shared \<Rightarrow> runner \<times> shared" where
  "to_failed_step profile from err a w =
     (case transition Failed (si w) of
        (Some terr, s) \<Rightarrow>
          (R_emit [logEntry s log_level.Error (Cannot_transition_to Failed terr) (a_now a)] R_done, w)
      | (None, s) \<Rightarrow>
          (R_emit
             [stateChange s from Failed (Some err) (a_now a),
              CredentialsExpired (si_profile s) (AWSProfile profile) (Name (si_service s))
                (error_text err) (a_now a),
              logEntry s log_level.Error (Credentials_expired_for (AWSProfile profile)) (a_now a)]
             R_done, set_si s w))"

text \<open>What follows a successful \<open>reconnecting\<close>: on the error path a log, on the session path the two checks.\<close>

definition reconnected_step ::
  "Profile \<Rightarrow> ServiceState \<Rightarrow> go_error option \<Rightarrow> answers \<Rightarrow> shared \<Rightarrow> runner \<times> shared" where
  "reconnected_step profile from err a w =
     (if from = Starting then
        (case err of
           Some e \<Rightarrow> R_emit [logEntry (si w) Warn (Start_failed e) (a_now a)] R_backoff
         | None \<Rightarrow> R_backoff, w)
      else case err of
          None \<Rightarrow> (R_backoff, w)
        | Some e \<Rightarrow>
            if errors_Is e ErrCredentialsExpired then (R_expired Reconnecting e, w)
            else if errors_Is e ErrTargetNotConnected \<and> TargetASG profile \<noteq> [] then
              (R_emit [logEntry (si w) Warn (Target_rotated_out (TargetASG profile) e) (a_now a)] R_rotation,
               w\<lparr>bastion := Invalidate profile (bastion w)\<rparr>)
            else (R_backoff, w))"

definition backoff_step :: "answers \<Rightarrow> shared \<Rightarrow> runner \<times> shared" where
  "backoff_step a w =
     (let b = si_backoff (si w);
          b = (if ShouldReset (a_now a) b then backoff_Reset b else b);
          (delay, b) = NextDelay (a_oor a) b;
          w = set_si ((si w)\<lparr>si_backoff := b\<rparr>) w
      in (R_emit [logEntry (si w) Info (Reconnecting_in delay (Attempt b)) (a_now a)] (R_delay delay), w))"

text \<open>\<open>select\<close> on the context and a timer: cancelled and elapsed, Go picks either.\<close>

definition wait_or_cancel :: "answers \<Rightarrow> shared \<Rightarrow> runner \<times> shared" where
  "wait_or_cancel a w = (if cancelled w \<and> \<not> a_timer a then R_done else R_top, w)"

definition run_enabled :: "runner \<Rightarrow> answers \<Rightarrow> shared \<Rightarrow> bool" where
  "run_enabled pc a w =
     (case pc of
        R_done \<Rightarrow> False
      | R_wait k \<Rightarrow> (case sessions w ! k of Ended _ \<Rightarrow> True | _ \<Rightarrow> False)
      | R_rotation \<Rightarrow> a_timer a \<or> cancelled w
      | R_delay _ \<Rightarrow> a_timer a \<or> cancelled w
      | _ \<Rightarrow> True)"

fun run_step :: "Profile \<Rightarrow> answers \<Rightarrow> runner \<times> shared \<Rightarrow> runner \<times> shared" where
  "run_step profile a (R_emit [] pc, w) = (pc, w)"
| "run_step profile a (R_emit (e # es) pc, w) = (R_emit es pc, emit_one e w)"
| "run_step profile a (R_top, w) = (if cancelled w then R_done else R_from, w)"
| "run_step profile a (R_from, w) = (R_starting (si_state (si w)), w)"
| "run_step profile a (R_starting from, w) =
     (case transition Starting (si w) of
        (Some err, s) \<Rightarrow>
          (R_emit [logEntry s log_level.Error (Invalid_transition_to_Starting from err) (a_now a)] R_done, w)
      | (None, s) \<Rightarrow>
          (R_emit [stateChange s from Starting None (a_now a)] R_allocate, set_si s w))"
| "run_step profile a (R_allocate, w) = (case allocate_ip w of (i, w') \<Rightarrow> (R_add_dns i, w'))"
| "run_step profile a (R_add_dns i, w) = dns_step i a w"
| "run_step profile a (R_free_port i, w) =
     (case a_port a of Inl err \<Rightarrow> (R_connect_failed err, w) | Inr port \<Rightarrow> (R_resolve i port, w))"
| "run_step profile a (R_resolve i port, w) = resolve_step profile i port a w"
| "run_step profile a (R_start_session i port target, w) =
     start_session_step profile i port target a w"
| "run_step profile a (R_start_proxy i port k, w) = start_proxy_step profile i port k a w"
| "run_step profile a (R_commit i port k p, w) = commit_step port k p a w"
| "run_step profile a (R_stop_proxy k p err, w) = (R_stop_session k err, stop_proxy p w)"
| "run_step profile a (R_stop_session k err, w) =
     (case stop_session a k w of (evts, w') \<Rightarrow> (R_emit evts (R_connect_failed err), w'))"
| "run_step profile a (R_connected port k, w) = connected_step port k a w"
| "run_step profile a (R_connect_failed err, w) =
     (if cancelled w then R_done else after_connect_error a err, w)"
| "run_step profile a (R_wait k, w) =
     (case sessions w ! k of Ended e \<Rightarrow> (R_session_ended e, w) | _ \<Rightarrow> (R_wait k, w))"
| "run_step profile a (R_session_ended e, w) = (if cancelled w then R_done else R_take_proxy e, w)"
| "run_step profile a (R_take_proxy e, w) =
     (case si_tcpProxy (si w) of None \<Rightarrow> R_reconnecting Connected e | Some p \<Rightarrow> R_drain_proxy p e,
      set_si ((si w)\<lparr>si_tcpProxy := None, si_session := None\<rparr>) w)"
| "run_step profile a (R_drain_proxy p e, w) = (R_reconnecting Connected e, stop_proxy p w)"
| "run_step profile a (R_reconnecting from e, w) =
     (R_to_reconnecting from e, set_si ((si w)\<lparr>si_lastError := e\<rparr>) w)"
| "run_step profile a (R_to_reconnecting from e, w) = to_reconnecting_step from e a w"
| "run_step profile a (R_expired from e, w) =
     (R_to_failed from e, set_si ((si w)\<lparr>si_lastError := Some e\<rparr>) w)"
| "run_step profile a (R_to_failed from e, w) = to_failed_step profile from e a w"
| "run_step profile a (R_reconnected from e, w) = reconnected_step profile from e a w"
| "run_step profile a (R_rotation, w) = wait_or_cancel a w"
| "run_step profile a (R_backoff, w) = backoff_step a w"
| "run_step profile a (R_delay d, w) = wait_or_cancel a w"
| "run_step profile a (R_done, w) = (R_done, w)"

section \<open>Stopping\<close>

datatype stopper =
    S_emit "event list" stopper
  | S_cancel
  | S_read
  | S_stopping ServiceState "nat option"
  | S_session "nat option"
  | S_take_proxy
  | S_proxy nat
  | S_disconnected
  | S_allocate
  | S_release "ip option"
  | S_remove_dns "ip option"
  | S_done

definition stopping_step :: "ServiceState \<Rightarrow> nat option \<Rightarrow> answers \<Rightarrow> shared \<Rightarrow> stopper \<times> shared" where
  "stopping_step current sess a w =
     (if current \<noteq> Disconnected \<and> current \<noteq> Stopping then
        (case transition Stopping (si w) of
           (Some err, s) \<Rightarrow>
             (S_emit [logEntry s Warn (Cannot_transition_to Stopping err) (a_now a)] (S_session sess), w)
         | (None, s) \<Rightarrow>
             (S_emit [stateChange s current Stopping None (a_now a)] (S_session sess), set_si s w))
      else (S_session sess, w))"

text \<open>\<open>stopService\<close>, then the part of \<open>Stop\<close> after all its \<open>stopService\<close> calls.\<close>

fun stop_step :: "answers \<Rightarrow> stopper \<times> shared \<Rightarrow> stopper \<times> shared" where
  "stop_step a (S_emit [] pc, w) = (pc, w)"
| "stop_step a (S_emit (e # es) pc, w) = (S_emit es pc, emit_one e w)"
| "stop_step a (S_cancel, w) = (S_read, w\<lparr>cancelled := True\<rparr>)"
| "stop_step a (S_read, w) = (S_stopping (si_state (si w)) (si_session (si w)), w)"
| "stop_step a (S_stopping current sess, w) = stopping_step current sess a w"
| "stop_step a (S_session None, w) = (S_take_proxy, w)"
| "stop_step a (S_session (Some k), w) =
     (case stop_session a k w of (evts, w') \<Rightarrow> (S_emit evts S_take_proxy, w'))"
| "stop_step a (S_take_proxy, w) =
     (case si_tcpProxy (si w) of None \<Rightarrow> S_disconnected | Some p \<Rightarrow> S_proxy p,
      set_si ((si w)\<lparr>si_tcpProxy := None\<rparr>) w)"
| "stop_step a (S_proxy p, w) = (S_disconnected, stop_proxy p w)"
| "stop_step a (S_disconnected, w) =
     (case transition Disconnected (si w) of
        (Some err, s) \<Rightarrow>
          (S_emit [logEntry s Warn (Cannot_transition_to Disconnected err) (a_now a)] S_allocate, w)
      | (None, s) \<Rightarrow>
          (S_emit [stateChange s Stopping Disconnected None (a_now a)] S_allocate, set_si s w))"
| "stop_step a (S_allocate, w) = (case allocate_ip w of (i, w') \<Rightarrow> (S_release i, w'))"
| "stop_step a (S_release i, w) = (S_remove_dns i, w\<lparr>ips := alloc_Release (svc_key w) (ips w)\<rparr>)"
| "stop_step a (S_remove_dns i, w) =
     (case a_dns a of
        None \<Rightarrow> (S_done, log_call (DNS_Remove (DNSName (si_service (si w))) i) w)
      | Some err \<Rightarrow>
          (S_emit [LogEntry log_level.Error (Failed_to_remove_DNS err) [] [] (a_now a)] S_done, w))"
| "stop_step a (S_done, w) = (S_done, w)"

section \<open>Dropping sessions\<close>

text \<open>
  \<open>DropSessions\<close> on this instance: what it reads under \<open>si.mu\<close>, then the \<open>Stop\<close> of that session and
  the warning when it fails.
\<close>

datatype dropper = D_stop nat | D_emit "event list"

definition drop_read :: "shared \<Rightarrow> nat option" where
  "drop_read w = (if si_state (si w) = Connected then si_session (si w) else None)"

fun drop_step :: "answers \<Rightarrow> dropper \<times> shared \<Rightarrow> dropper \<times> shared" where
  "drop_step a (D_stop k, w) = (case stop_session a k w of (evts, w') \<Rightarrow> (D_emit evts, w'))"
| "drop_step a (D_emit (e # es), w) = (D_emit es, emit_one e w)"
| "drop_step a (D_emit [], w) = (D_emit [], w)"

section \<open>Interleaving\<close>

record system =
  rt :: runner
  sh :: shared
  stoppers :: "stopper list"
  droppers :: "dropper list"

text \<open>
  A step of the system: the runner, a stopper, a new \<open>Stop\<close> call, a pass of \<open>DropSessions\<close> that
  saw a session, the \<open>Stop\<close> it then makes, a session that ends by itself, the daemon's own context
  ending, and other services using the allocator.
\<close>

inductive step :: "Profile \<Rightarrow> system \<Rightarrow> system \<Rightarrow> bool" for profile where
  runner: "run_enabled (rt s) a (sh s) \<Longrightarrow> run_step profile a (rt s, sh s) = (pc, w) \<Longrightarrow>
    step profile s (s\<lparr>rt := pc, sh := w\<rparr>)"
| stopper: "i < length (stoppers s) \<Longrightarrow> stop_step a (stoppers s ! i, sh s) = (pc, w) \<Longrightarrow>
    step profile s (s\<lparr>stoppers := (stoppers s)[i := pc], sh := w\<rparr>)"
| new_stop: "step profile s (s\<lparr>stoppers := stoppers s @ [S_cancel]\<rparr>)"
| new_drop: "drop_read (sh s) = Some k \<Longrightarrow> step profile s (s\<lparr>droppers := droppers s @ [D_stop k]\<rparr>)"
| dropper: "i < length (droppers s) \<Longrightarrow> drop_step a (droppers s ! i, sh s) = (pc, w) \<Longrightarrow>
    step profile s (s\<lparr>droppers := (droppers s)[i := pc], sh := w\<rparr>)"
| session_dies: "k < length (sessions (sh s)) \<Longrightarrow> \<not> (\<exists>e'. sessions (sh s) ! k = Ended e') \<Longrightarrow>
    step profile s (s\<lparr>sh := (sh s)\<lparr>sessions := (sessions (sh s))[k := Ended e]\<rparr>\<rparr>)"
| shutdown: "step profile s (s\<lparr>sh := (sh s)\<lparr>cancelled := True\<rparr>\<rparr>)"
| others: "a = alloc_run xs (ips (sh s)) \<Longrightarrow> svc_key (sh s) \<notin> fst ` set xs \<Longrightarrow>
    step profile s (s\<lparr>sh := (sh s)\<lparr>ips := a\<rparr>\<rparr>)"

text \<open>What \<open>Start\<close> creates for a service whose address was allocated.\<close>

definition new_instance :: "string \<Rightarrow> Service \<Rightarrow> Backoff \<Rightarrow> ip \<Rightarrow> serviceInstance" where
  "new_instance profile svc b i =
     \<lparr>si_profile = profile, si_service = svc, si_state = Disconnected, si_session = None,
      si_tcpProxy = None, si_cancel = False, si_backoff = b, si_connectedAt = None, si_lastError = None,
      si_localIP = ip_String i\<rparr>"

definition initial :: "system \<Rightarrow> bool" where
  "initial s \<longleftrightarrow> rt s = R_top \<and> stoppers s = [] \<and> droppers s = [] \<and>
     si_state (si (sh s)) = Disconnected \<and> si_session (si (sh s)) = None \<and> si_tcpProxy (si (sh s)) = None \<and>
     si_connectedAt (si (sh s)) = None \<and> sessions (sh s) = [] \<and> proxies (sh s) = [] \<and> emitted (sh s) = [] \<and>
     calls (sh s) = [] \<and> \<not> cancelled (sh s)"

inductive reachable :: "Profile \<Rightarrow> system \<Rightarrow> bool" for profile where
  init: "initial s \<Longrightarrow> reachable profile s"
| more: "reachable profile s \<Longrightarrow> step profile s s' \<Longrightarrow> reachable profile s'"

end
