(* ===== verification/Service_Safety.thy ===== *)
theory Service_Safety
  imports Service_Loop
begin

text \<open>
  What holds of a service in every interleaving of its loop with stops, dropped sessions, dying
  sessions and the daemon's shutdown: the invariants of \<open>Service_Loop.step\<close> and the properties they
  give.
\<close>

section \<open>What the loop has done at each point\<close>

text \<open>The instance as the loop left it, as long as nobody cancelled the service.\<close>

definition bare :: "serviceInstance \<Rightarrow> bool" where
  "bare s \<longleftrightarrow> si_session s = None \<and> si_tcpProxy s = None"

definition serving :: "nat \<Rightarrow> serviceInstance \<Rightarrow> bool" where
  "serving k s \<longleftrightarrow> si_state s = Connected \<and> si_session s = Some k \<and> si_tcpProxy s \<noteq> None"

fun agrees :: "runner \<Rightarrow> serviceInstance \<Rightarrow> bool" where
  "agrees (R_emit es pc) s = agrees pc s"
| "agrees R_top s = (bare s \<and> si_state s \<in> {Disconnected, Reconnecting})"
| "agrees R_from s = (bare s \<and> si_state s \<in> {Disconnected, Reconnecting})"
| "agrees (R_starting from) s = (bare s \<and> si_state s = from \<and> from \<in> {Disconnected, Reconnecting})"
| "agrees (R_connected port k) s = serving k s"
| "agrees (R_wait k) s = serving k s"
| "agrees (R_session_ended e) s = (\<exists>k. serving k s)"
| "agrees (R_take_proxy e) s = (\<exists>k. serving k s)"
| "agrees (R_drain_proxy p e) s = (bare s \<and> si_state s = Connected)"
| "agrees (R_reconnecting from e) s = (bare s \<and> si_state s = from \<and> from \<in> {Starting, Connected})"
| "agrees (R_to_reconnecting from e) s =
     (bare s \<and> si_state s = from \<and> from \<in> {Starting, Connected} \<and> si_lastError s = e)"
| "agrees (R_expired from e) s =
     (bare s \<and> si_state s = from \<and> from \<in> {Starting, Reconnecting} \<and> errors_Is e ErrCredentialsExpired)"
| "agrees (R_to_failed from e) s =
     (bare s \<and> si_state s = from \<and> from \<in> {Starting, Reconnecting} \<and> errors_Is e ErrCredentialsExpired \<and>
      si_lastError s = Some e)"
| "agrees (R_reconnected from e) s = (bare s \<and> si_state s = Reconnecting \<and> si_lastError s = e)"
| "agrees R_rotation s = (bare s \<and> si_state s = Reconnecting)"
| "agrees R_backoff s = (bare s \<and> si_state s = Reconnecting)"
| "agrees (R_delay d) s = (bare s \<and> si_state s = Reconnecting)"
| "agrees R_done s = (bare s \<and> si_state s = Failed \<and> error_Is (si_lastError s) ErrCredentialsExpired)"
| "agrees _ s = (bare s \<and> si_state s = Starting)"

lemmas run_defs = dns_step_def resolve_step_def start_session_step_def start_proxy_step_def commit_step_def
  connected_step_def to_reconnecting_step_def to_failed_step_def reconnected_step_def backoff_step_def
  wait_or_cancel_def after_connect_error_def allocate_ip_def set_si_def emit_one_def log_call_def stop_proxy_def
  transition_def Let_def

lemmas run_splits = option.splits sum.splits prod.splits if_splits session_status.splits

lemma stop_session_frame [simp]:
  "si (snd (stop_session a k w)) = si w" "cancelled (snd (stop_session a k w)) = cancelled w"
  "proxies (snd (stop_session a k w)) = proxies w" "calls (snd (stop_session a k w)) = calls w"
  "length (sessions (snd (stop_session a k w))) = length (sessions w)"
  by (auto simp: stop_session_def split: session_status.splits option.splits)

lemma run_agrees:
  assumes "agrees pc (si w)" and "\<not> cancelled w" and "run_step profile a (pc, w) = (pc', w')"
  shows "agrees pc' (si w') \<and> \<not> cancelled w'"
  using assms
  by (cases "(profile, a, (pc, w))" rule: run_step.cases)
    (auto simp: run_defs stop_session_def bare_def serving_def split: run_splits)

fun S_settled :: "stopper \<Rightarrow> stopper" where
  "S_settled (S_emit es pc) = S_settled pc"
| "S_settled pc = pc"

lemma stop_cancels:
  assumes "S_settled pc \<noteq> S_cancel \<longrightarrow> cancelled w" and "stop_step a (pc, w) = (pc', w')"
  shows "(S_settled pc' \<noteq> S_cancel \<longrightarrow> cancelled w') \<and> (cancelled w \<longrightarrow> cancelled w') \<and>
    (\<not> cancelled w' \<longrightarrow> si w' = si w)"
  using assms
  by (cases "(a, (pc, w))" rule: stop_step.cases)
    (auto simp: run_defs stop_session_def stopping_step_def split: run_splits)

lemma drop_frame:
  assumes "drop_step a (d, w) = (d', w')"
  shows "si w' = si w \<and> cancelled w' = cancelled w \<and> proxies w' = proxies w"
  using assms
  by (cases "(a, (d, w))" rule: drop_step.cases)
    (auto simp: emit_one_def stop_session_def split: run_splits)

lemma run_cancelled: "run_step profile a (pc, w) = (pc', w') \<Longrightarrow> cancelled w' = cancelled w"
  by (cases "(profile, a, (pc, w))" rule: run_step.cases)
    (auto simp: run_defs stop_session_def split: run_splits)

definition undisturbed :: "system \<Rightarrow> bool" where
  "undisturbed s \<longleftrightarrow> (\<forall>pc\<in>set (stoppers s). S_settled pc \<noteq> S_cancel \<longrightarrow> cancelled (sh s)) \<and>
     (\<not> cancelled (sh s) \<longrightarrow> agrees (rt s) (si (sh s)))"

lemma undisturbed_reachable: "reachable profile s \<Longrightarrow> undisturbed s"
proof (induction rule: reachable.induct)
  case (init s)
  then show ?case by (auto simp: initial_def undisturbed_def bare_def)
next
  case (more s s')
  from more.hyps(2) more.IH show ?case
  proof (cases rule: step.cases)
    case (runner a pc w)
    then show ?thesis
      using more.IH run_agrees run_cancelled unfolding undisturbed_def
      by (metis (no_types, lifting) system.ext_inject system.surjective system.update_convs(1,2))
  next
    case (stopper i a pc w)
    then have "S_settled (stoppers s ! i) \<noteq> S_cancel \<longrightarrow> cancelled (sh s)"
      using more.IH nth_mem [OF stopper(2)] unfolding undisturbed_def by blast
    from stop_cancels [OF this stopper(3)] more.IH show ?thesis
      unfolding undisturbed_def stopper(1)
      by (auto dest!: subsetD [OF set_update_subset_insert])
  next
    case (dropper i a pc w)
    from drop_frame [OF dropper(3)] more.IH show ?thesis
      unfolding undisturbed_def dropper(1) by simp
  qed (auto simp: undisturbed_def)
qed


section \<open>Who is responsible for a session\<close>

text \<open>The session the loop started and has neither stored nor stopped yet.\<close>

fun carries :: "runner \<Rightarrow> nat option" where
  "carries (R_emit es pc) = carries pc"
| "carries (R_start_proxy i port k) = Some k"
| "carries (R_commit i port k p) = Some k"
| "carries (R_stop_proxy k p err) = Some k"
| "carries (R_stop_session k err) = Some k"
| "carries _ = None"

text \<open>What the loop knows about \<open>si.session\<close>, cancelled or not: only the loop writes it.\<close>

definition ended :: "nat \<Rightarrow> shared \<Rightarrow> bool" where
  "ended k w \<longleftrightarrow> k < length (sessions w) \<and> (\<exists>e. sessions w ! k = Ended e)"

fun stores :: "runner \<Rightarrow> shared \<Rightarrow> bool" where
  "stores (R_emit es pc) w = stores pc w"
| "stores (R_connected port k) w = (si_session (si w) = Some k \<and> k < length (sessions w))"
| "stores (R_wait k) w = (si_session (si w) = Some k \<and> k < length (sessions w))"
| "stores (R_session_ended e) w = (\<exists>k. si_session (si w) = Some k \<and> ended k w)"
| "stores (R_take_proxy e) w = (\<exists>k. si_session (si w) = Some k \<and> ended k w)"
| "stores R_done w = (\<forall>k. si_session (si w) = Some k \<longrightarrow> ended k w)"
| "stores (R_start_proxy i port k) w = (si_session (si w) = None \<and> k < length (sessions w))"
| "stores (R_commit i port k p) w = (si_session (si w) = None \<and> k < length (sessions w))"
| "stores _ w = (si_session (si w) = None)"

definition live :: "nat \<Rightarrow> shared \<Rightarrow> bool" where
  "live k w \<longleftrightarrow> k < length (sessions w) \<and> sessions w ! k = Live"

lemma live_frame [simp]:
  "live k (w\<lparr>si := x0\<rparr>) = live k w"
  "live k (w\<lparr>cancelled := x1\<rparr>) = live k w"
  "live k (w\<lparr>proxies := x2\<rparr>) = live k w"
  "live k (w\<lparr>ips := x3\<rparr>) = live k w"
  "live k (w\<lparr>bastion := x4\<rparr>) = live k w"
  "live k (w\<lparr>calls := x5\<rparr>) = live k w"
  "live k (w\<lparr>emitted := x6\<rparr>) = live k w"
  by (simp_all add: live_def)

lemma ended_frame [simp]:
  "ended k (w\<lparr>si := x0\<rparr>) = ended k w"
  "ended k (w\<lparr>cancelled := x1\<rparr>) = ended k w"
  "ended k (w\<lparr>proxies := x2\<rparr>) = ended k w"
  "ended k (w\<lparr>ips := x3\<rparr>) = ended k w"
  "ended k (w\<lparr>bastion := x4\<rparr>) = ended k w"
  "ended k (w\<lparr>calls := x5\<rparr>) = ended k w"
  "ended k (w\<lparr>emitted := x6\<rparr>) = ended k w"
  by (simp_all add: ended_def)

lemma live_new [simp]:
  "live k (w\<lparr>sessions := sessions w @ [Live]\<rparr>) \<longleftrightarrow> live k w \<or> k = length (sessions w)"
  by (auto simp: live_def nth_append less_Suc_eq)

lemma ended_new: "ended k w \<Longrightarrow> ended k (w\<lparr>sessions := sessions w @ [Live]\<rparr>)"
  by (auto simp: ended_def nth_append)

lemma ended_not_live: "ended k w \<Longrightarrow> \<not> live k w"
  by (auto simp: ended_def live_def)

lemma ended_Wait [simp]: "sessions w ! k = Ended e \<Longrightarrow> k < length (sessions w) \<Longrightarrow> ended k w"
  by (auto simp: ended_def)

lemma stores_frame:
  assumes "stores pc w" and "si_session (si w') = si_session (si w)"
    and "length (sessions w) \<le> length (sessions w')" and "\<And>k. ended k w \<Longrightarrow> ended k w'"
  shows "stores pc w'"
  using assms by (induction pc) auto

lemma stop_session_live:
  assumes "stop_session a k w = (evts, w')"
  shows "live k' w' \<Longrightarrow> live k' w \<and> k' \<noteq> k" "ended k' w \<Longrightarrow> ended k' w'"
    "si w' = si w" "length (sessions w') = length (sessions w)" "cancelled w' = cancelled w"
    "proxies w' = proxies w"
  using assms
  by (cases "k' = k"; auto simp: stop_session_def live_def ended_def split: run_splits)+

lemma run_stores:
  assumes "stores pc w" and "run_step profile a (pc, w) = (pc', w')"
  shows "stores pc' w'"
proof (cases "\<exists>e es pc2. pc = R_emit (e # es) pc2")
  case True
  then obtain e es pc2 where pc: "pc = R_emit (e # es) pc2" by blast
  have "stores pc2 (emit_one e w)"
    using assms(1) unfolding pc by (auto simp: emit_one_def intro: stores_frame [of _ w])
  then show ?thesis using assms(2) pc by auto
next
  case False
  with assms show ?thesis
    by (cases "(profile, a, (pc, w))" rule: run_step.cases)
      (auto simp: run_defs dest: stop_session_live(3) split: run_splits)
qed

lemma run_live:
  assumes "stores pc w" and "live k w \<Longrightarrow> carries pc = Some k \<or> si_session (si w) = Some k"
    and "live k w'" and "run_step profile a (pc, w) = (pc', w')"
  shows "carries pc' = Some k \<or> si_session (si w') = Some k"
  using assms
  by (cases "(profile, a, (pc, w))" rule: run_step.cases)
    (auto simp: run_defs ended_not_live dest: stop_session_live split: run_splits)

text \<open>A stopper that will still stop session \<open>k\<close>, if that is the stored one.\<close>

fun will_stop :: "stopper \<Rightarrow> nat \<Rightarrow> bool" where
  "will_stop (S_emit es pc) k = will_stop pc k"
| "will_stop S_cancel k = True"
| "will_stop S_read k = True"
| "will_stop (S_stopping current sess) k = (sess = Some k)"
| "will_stop (S_session sess) k = (sess = Some k)"
| "will_stop _ k = False"

lemma will_stop_fresh: "S_settled pc = S_cancel \<Longrightarrow> will_stop pc k"
  by (induction pc) auto

lemma run_stored:
  assumes "stores pc w" and "live k w'" and "si_session (si w') = Some k"
    and "run_step profile a (pc, w) = (pc', w')"
  shows "live k w \<and> si_session (si w) = Some k \<or> \<not> cancelled w"
  using assms
  by (cases "(profile, a, (pc, w))" rule: run_step.cases)
    (auto simp: run_defs ended_not_live dest: stop_session_live split: run_splits)

lemma stop_frame:
  assumes "stop_step a (pc, w) = (pc', w')"
  shows "si_session (si w') = si_session (si w) \<and> length (sessions w') = length (sessions w) \<and>
    (live k w' \<longrightarrow> live k w) \<and> (ended k w \<longrightarrow> ended k w')"
  using assms
  by (cases "(a, (pc, w))" rule: stop_step.cases)
    (auto simp: run_defs stopping_step_def dest: stop_session_live split: run_splits)

lemma stop_will_stop:
  assumes "live k w \<and> si_session (si w) = Some k \<longrightarrow> will_stop pc k" and "live k w'" and "si_session (si w') = Some k"
    and "stop_step a (pc, w) = (pc', w')"
  shows "will_stop pc' k"
  using assms
  by (cases "(a, (pc, w))" rule: stop_step.cases)
    (auto simp: run_defs stopping_step_def dest: stop_session_live split: run_splits)

lemma drop_sessions_frame:
  assumes "drop_step a (d, w) = (d', w')"
  shows "length (sessions w') = length (sessions w) \<and> (live k w' \<longrightarrow> live k w) \<and> (ended k w \<longrightarrow> ended k w')"
  using assms
  by (cases "(a, (d, w))" rule: drop_step.cases)
    (auto simp: emit_one_def dest: stop_session_live split: run_splits)

definition owned :: "system \<Rightarrow> bool" where
  "owned s \<longleftrightarrow> stores (rt s) (sh s) \<and>
     (\<forall>k. live k (sh s) \<longrightarrow> carries (rt s) = Some k \<or> si_session (si (sh s)) = Some k) \<and>
     (\<forall>pc\<in>set (stoppers s). \<forall>k. live k (sh s) \<and> si_session (si (sh s)) = Some k \<longrightarrow> will_stop pc k)"

text \<open>A step that neither moves the loop nor touches \<open>si.session\<close> and only ends sessions.\<close>

lemma owned_frame:
  assumes "owned s" and "rt s' = rt s" and "si_session (si (sh s')) = si_session (si (sh s))"
    and "length (sessions (sh s')) = length (sessions (sh s))"
    and "\<And>k. live k (sh s') \<Longrightarrow> live k (sh s)" and "\<And>k. ended k (sh s) \<Longrightarrow> ended k (sh s')"
    and "\<And>pc k. pc \<in> set (stoppers s') \<Longrightarrow> live k (sh s') \<Longrightarrow> si_session (si (sh s')) = Some k \<Longrightarrow> will_stop pc k"
  shows "owned s'"
  using assms stores_frame [of "rt s" "sh s" "sh s'"] unfolding owned_def by simp

lemma owned_reachable: "reachable profile s \<Longrightarrow> owned s"
proof (induction rule: reachable.induct)
  case (init s)
  then show ?case by (auto simp: initial_def owned_def live_def)
next
  case (more s s')
  note own = more.IH
  note stop = own [unfolded owned_def, THEN conjunct2, THEN conjunct2]
  from more.hyps(2) show ?case
  proof (cases rule: step.cases)
    case (runner a pc w)
    have "will_stop pc' k" if "pc' \<in> set (stoppers s)" "live k w" "si_session (si w) = Some k" for pc' k
      using run_stored [OF _ that(2,3) runner(3)] own undisturbed_reachable [OF more.hyps(1)] that(1)
        will_stop_fresh unfolding owned_def undisturbed_def by blast
    then show ?thesis
      using run_stores [OF _ runner(3)] run_live [OF _ _ _ runner(3)] own
      unfolding owned_def runner(1) by simp
  next
    case (stopper i a pc w)
    note frame = stop_frame [OF stopper(3)]
    show ?thesis unfolding stopper(1)
    proof (rule owned_frame [OF own]; simp add: frame)
      fix pc' k assume pc': "pc' \<in> set ((stoppers s)[i := pc])" and k: "live k w" "si_session (si (sh s)) = Some k"
      show "will_stop pc' k"
      proof (cases "pc' = pc")
        case True
        have "live k (sh s) \<and> si_session (si (sh s)) = Some k \<longrightarrow> will_stop (stoppers s ! i) k"
          using stop nth_mem [OF stopper(2)] by blast
        from stop_will_stop [OF this k(1) _ stopper(3)] k(2) frame True show ?thesis by simp
      next
        case False
        then have "pc' \<in> set (stoppers s)" using pc' set_update_subset_insert by fastforce
        then show ?thesis using stop k frame by blast
      qed
    qed
  next
    case (dropper i a pc w)
    show ?thesis unfolding dropper(1)
      using drop_frame [OF dropper(3)] drop_sessions_frame [OF dropper(3)] stop
      by (intro owned_frame [OF own]) auto
  next
    case (session_dies k e)
    show ?thesis unfolding session_dies(1)
      using stop session_dies(2)
      by (intro owned_frame [OF own]) (auto simp: live_def ended_def nth_list_update split: if_splits)
  qed (use own stop in \<open>auto simp: intro!: owned_frame [OF own]\<close>)
qed


section \<open>Who is responsible for a proxy\<close>

definition open_proxy :: "nat \<Rightarrow> shared \<Rightarrow> bool" where
  "open_proxy p w \<longleftrightarrow> p < length (proxies w) \<and> proxies w ! p"

fun run_proxy :: "runner \<Rightarrow> nat option" where
  "run_proxy (R_emit es pc) = run_proxy pc"
| "run_proxy (R_commit i port k p) = Some p"
| "run_proxy (R_stop_proxy k p err) = Some p"
| "run_proxy (R_drain_proxy p e) = Some p"
| "run_proxy _ = None"

fun stop_holds :: "stopper \<Rightarrow> nat option" where
  "stop_holds (S_emit es pc) = stop_holds pc"
| "stop_holds (S_proxy p) = Some p"
| "stop_holds _ = None"

text \<open>A stopper past the point where it took the proxy.\<close>

fun took_proxy :: "stopper \<Rightarrow> bool" where
  "took_proxy (S_emit es pc) = took_proxy pc"
| "took_proxy S_cancel = False"
| "took_proxy S_read = False"
| "took_proxy (S_stopping current sess) = False"
| "took_proxy (S_session sess) = False"
| "took_proxy S_take_proxy = False"
| "took_proxy _ = True"

lemma took_proxy_fresh: "S_settled pc = S_cancel \<Longrightarrow> \<not> took_proxy pc"
  by (induction pc) auto

lemma open_proxy_frame [simp]:
  "open_proxy p (w\<lparr>si := x0\<rparr>) = open_proxy p w"
  "open_proxy p (w\<lparr>cancelled := x1\<rparr>) = open_proxy p w"
  "open_proxy p (w\<lparr>sessions := x2\<rparr>) = open_proxy p w"
  "open_proxy p (w\<lparr>ips := x3\<rparr>) = open_proxy p w"
  "open_proxy p (w\<lparr>bastion := x4\<rparr>) = open_proxy p w"
  "open_proxy p (w\<lparr>calls := x5\<rparr>) = open_proxy p w"
  "open_proxy p (w\<lparr>emitted := x6\<rparr>) = open_proxy p w"
  by (simp_all add: open_proxy_def)

lemma open_proxy_new [simp]:
  "open_proxy p (w\<lparr>proxies := proxies w @ [True]\<rparr>) \<longleftrightarrow> open_proxy p w \<or> p = length (proxies w)"
  by (auto simp: open_proxy_def nth_append less_Suc_eq)

lemma open_proxy_closed [simp]:
  "open_proxy p (w\<lparr>proxies := (proxies w)[q := False]\<rparr>) \<longleftrightarrow> open_proxy p w \<and> p \<noteq> q"
  by (cases "p = q") (auto simp: open_proxy_def)

lemma open_proxy_stop_session: "stop_session a k w = (evts, w') \<Longrightarrow> open_proxy p w' = open_proxy p w"
  by (auto simp: stop_session_def split: run_splits)

lemma run_proxies:
  assumes "run_step profile a (pc, w) = (pc', w')"
  shows "open_proxy p w' \<Longrightarrow> open_proxy p w \<longrightarrow> run_proxy pc = Some p \<or> si_tcpProxy (si w) = Some p \<Longrightarrow>
      stores pc w \<Longrightarrow> si_session (si w) = None \<longrightarrow> si_tcpProxy (si w) = None \<Longrightarrow>
      run_proxy pc' = Some p \<or> si_tcpProxy (si w') = Some p"
    and "si_session (si w) = None \<longrightarrow> si_tcpProxy (si w) = None \<Longrightarrow> stores pc w \<Longrightarrow>
      si_session (si w') = None \<longrightarrow> si_tcpProxy (si w') = None"
    and "si_tcpProxy (si w') = Some p \<Longrightarrow> si_tcpProxy (si w) = Some p \<or> \<not> cancelled w \<and> run_proxy pc = Some p"
    and "open_proxy p w \<Longrightarrow> open_proxy p w' \<or> run_proxy pc = Some p"
  using assms
  by (cases "(profile, a, (pc, w))" rule: run_step.cases;
      auto simp: run_defs open_proxy_stop_session dest: stop_session_live split: run_splits)+

lemma stop_proxies:
  assumes "stop_step a (pc, w) = (pc', w')"
  shows "open_proxy p w' \<Longrightarrow> open_proxy p w \<and> (stop_holds pc = Some p \<longrightarrow> stop_holds pc' = Some p) \<and>
      (si_tcpProxy (si w) = Some p \<longrightarrow> si_tcpProxy (si w') = Some p \<or> stop_holds pc' = Some p)"
    and "si_tcpProxy (si w') = Some q \<Longrightarrow> si_tcpProxy (si w) = Some q \<and> (took_proxy pc' \<longrightarrow> took_proxy pc)"
  using assms
  by (cases "(a, (pc, w))" rule: stop_step.cases;
      auto simp: run_defs stopping_step_def open_proxy_stop_session dest: stop_session_live split: run_splits)+

definition proxies_owned :: "system \<Rightarrow> bool" where
  "proxies_owned s \<longleftrightarrow>
     (\<forall>p. open_proxy p (sh s) \<longrightarrow> run_proxy (rt s) = Some p \<or> si_tcpProxy (si (sh s)) = Some p \<or>
        (\<exists>pc\<in>set (stoppers s). stop_holds pc = Some p)) \<and>
     (si_session (si (sh s)) = None \<longrightarrow> si_tcpProxy (si (sh s)) = None) \<and>
     (\<forall>pc\<in>set (stoppers s). took_proxy pc \<longrightarrow> si_tcpProxy (si (sh s)) = None)"

lemma proxies_owned_run:
  assumes "proxies_owned s" and "undisturbed s" and "owned s"
    and "run_step profile a (rt s, sh s) = (pc, w)"
  shows "proxies_owned (s\<lparr>rt := pc, sh := w\<rparr>)"
proof -
  note r = run_proxies [OF assms(4)]
  have st: "stores (rt s) (sh s)" using assms(3) by (simp add: owned_def)
  have so: "si_session (si (sh s)) = None \<longrightarrow> si_tcpProxy (si (sh s)) = None"
    using assms(1) by (simp add: proxies_owned_def)
  have "run_proxy pc = Some p \<or> si_tcpProxy (si w) = Some p \<or> (\<exists>pc\<in>set (stoppers s). stop_holds pc = Some p)"
    if p: "open_proxy p w" for p
    using r(1) [OF p _ st so] assms(1) by (auto simp: proxies_owned_def)
  moreover have "si_tcpProxy (si w) = None" if "pc' \<in> set (stoppers s)" "took_proxy pc'" for pc'
  proof (rule ccontr)
    assume "si_tcpProxy (si w) \<noteq> None"
    then obtain p where p: "si_tcpProxy (si w) = Some p" by auto
    have "si_tcpProxy (si (sh s)) = None" using that assms(1) by (auto simp: proxies_owned_def)
    then have "\<not> cancelled (sh s)" using r(3) [OF p] by simp
    then show False using that assms(2) took_proxy_fresh by (auto simp: undisturbed_def)
  qed
  ultimately show ?thesis using r(2) [OF so st] by (auto simp: proxies_owned_def)
qed

lemma proxies_owned_stop:
  assumes "proxies_owned s" and i: "i < length (stoppers s)"
    and stop: "stop_step a (stoppers s ! i, sh s) = (pc, w)"
  shows "proxies_owned (s\<lparr>stoppers := (stoppers s)[i := pc], sh := w\<rparr>)"
proof -
  note r = stop_proxies [OF stop]
  let ?st = "(stoppers s)[i := pc]"
  have pc: "pc \<in> set ?st" using i by (rule set_update_memI)
  have old: "pc' \<in> set ?st" if "pc' \<in> set (stoppers s)" "pc' \<noteq> stoppers s ! i" for pc'
    using that by (metis in_set_conv_nth length_list_update nth_list_update_neq)
  have "run_proxy (rt s) = Some p \<or> si_tcpProxy (si w) = Some p \<or> (\<exists>pc\<in>set ?st. stop_holds pc = Some p)"
    if p: "open_proxy p w" for p
  proof -
    consider "run_proxy (rt s) = Some p" | "si_tcpProxy (si (sh s)) = Some p"
      | pc' where "pc' \<in> set (stoppers s)" "stop_holds pc' = Some p"
      using r(1) [OF p] assms(1) by (auto simp: proxies_owned_def)
    then show ?thesis using r(1) [OF p] pc old by cases metis+
  qed
  moreover have "si_session (si w) = si_session (si (sh s))" using stop_frame [OF stop] by simp
  moreover have "si_tcpProxy (si w) = None" if pc': "pc' \<in> set ?st" "took_proxy pc'" for pc'
  proof (rule ccontr)
    assume "si_tcpProxy (si w) \<noteq> None"
    then obtain q where q: "si_tcpProxy (si w) = Some q" by auto
    have "took_proxy pc' \<longrightarrow> (\<exists>pc''\<in>set (stoppers s). took_proxy pc'')"
      using pc'(1) r(2) [OF q] nth_mem [OF i] set_update_subset_insert [of "stoppers s" i pc] by blast
    then show False using r(2) [OF q] pc'(2) assms(1) by (auto simp: proxies_owned_def)
  qed
  moreover have "si_tcpProxy (si w) = None" if "si_tcpProxy (si (sh s)) = None"
    using r(2) that by (metis not_None_eq)
  ultimately show ?thesis using assms(1) by (auto simp: proxies_owned_def)
qed

lemma proxies_owned_reachable: "reachable profile s \<Longrightarrow> proxies_owned s"
proof (induction rule: reachable.induct)
  case (init s)
  then show ?case by (auto simp: initial_def proxies_owned_def open_proxy_def)
next
  case (more s s')
  from more.hyps(2) show ?case
  proof (cases rule: step.cases)
    case (runner a pc w)
    then show ?thesis
      using proxies_owned_run more.IH undisturbed_reachable owned_reachable more.hyps(1) by simp
  next
    case (stopper i a pc w)
    then show ?thesis using proxies_owned_stop [OF more.IH] by simp
  next
    case (dropper i a pc w)
    then show ?thesis
      using drop_frame [OF dropper(3)] more.IH by (simp add: proxies_owned_def open_proxy_def)
  qed (use more.IH in \<open>auto simp: proxies_owned_def\<close>)
qed

end
