(* ===== verification/Service_Theorems.thy ===== *)
theory Service_Theorems
  imports Service_Safety
begin

text \<open>
  The properties of one service under every interleaving (\<open>Service_Safety\<close> has the invariants), a
  run that reaches an unwanted end, and what an undisturbed loop achieves in a bounded number of its
  own steps.
\<close>

section \<open>A sample service\<close>

definition sample_instance :: serviceInstance where
  "sample_instance = new_instance ''dev'' (sample_service ''db'') NewBackoff (loopback 7)"

definition sample_shared :: shared where
  "sample_shared = \<lparr>si = sample_instance, cancelled = False, sessions = [], proxies = [], ips = alloc_New,
     bastion = NewASGResolver, calls = [], emitted = []\<rparr>"

definition sample_system :: system where
  "sample_system = \<lparr>rt = R_top, sh = sample_shared, stoppers = [], droppers = []\<rparr>"

text \<open>A world in which every call succeeds.\<close>

definition good :: answers where
  "good = \<lparr>a_now = 0, a_dns = None, a_port = Inr 40000,
     a_factory = (\<lambda>_ _. Inr (sample_asg, sample_ssm)), a_start = None, a_proxy = None, a_stop = None,
     a_wait = None, a_timer = True, a_quote = id, a_ulower = id, a_oor = (\<lambda>_. int64_min)\<rparr>"

abbreviation pinned :: Profile where
  "pinned \<equiv> (sample_profile [])\<lparr>pr_Target := ''i-1'', TargetASG := []\<rparr>"

lemma sample_initial [simp]: "initial sample_system"
  by (simp add: initial_def sample_system_def sample_shared_def sample_instance_def new_instance_def)

lemma sample_reachable [simp]: "reachable profile sample_system"
  by (rule reachable.init) simp

section \<open>State changes\<close>

lemma transition_legal:
  "transition to s = (err, s') \<Longrightarrow> si_state s' = si_state s \<or> Transition (si_state s) (si_state s') = None"
  by (rule transition_cases [of to s]) auto

lemma run_legal:
  "run_step profile a (pc, w) = (pc', w') \<Longrightarrow>
     si_state (si w') = si_state (si w) \<or> Transition (si_state (si w)) (si_state (si w')) = None"
  by (cases "(profile, a, (pc, w))" rule: run_step.cases)
    (auto simp: run_defs dest: stop_session_live(3) split: run_splits)

lemma stop_legal:
  "stop_step a (pc, w) = (pc', w') \<Longrightarrow>
     si_state (si w') = si_state (si w) \<or> Transition (si_state (si w)) (si_state (si w')) = None"
  by (cases "(a, (pc, w))" rule: stop_step.cases)
    (auto simp: run_defs stopping_step_def dest: stop_session_live(3) split: run_splits)

text \<open>
  C8: whatever the interleaving of the service loop with stops, dropped sessions and shutdown, a
  service's state only ever changes along the transition table.
\<close>

theorem state_changes_legal:
  assumes "step profile s s'"
  shows "si_state (si (sh s')) = si_state (si (sh s)) \<or>
    Transition (si_state (si (sh s))) (si_state (si (sh s'))) = None"
  using assms
proof (cases rule: step.cases)
  case (runner a pc w)
  then show ?thesis using run_legal [OF runner(3)] by simp
next
  case (stopper i a pc w)
  then show ?thesis using stop_legal [OF stopper(3)] by simp
next
  case (dropper i a pc w)
  then show ?thesis using drop_frame [OF dropper(3)] by simp
qed simp_all

theorem state_changes_legal_witness:
  "\<exists>s'. step pinned (sample_system\<lparr>rt := R_starting Disconnected\<rparr>) s' \<and> si_state (si (sh s')) = Starting \<and>
    Transition Disconnected (si_state (si (sh s'))) = None"
proof -
  let ?s = "sample_system\<lparr>rt := R_starting Disconnected\<rparr>"
  obtain pc w where r: "run_step pinned good (rt ?s, sh ?s) = (pc, w)" by fastforce
  then have st: "si_state (si w) = Starting"
    by (simp add: sample_system_def sample_shared_def sample_instance_def new_instance_def transition_def set_si_def)
      auto
  have "step pinned ?s (?s\<lparr>rt := pc, sh := w\<rparr>)"
    using r by (intro step.runner [of _ good]) (simp_all add: run_enabled_def)
  from state_changes_legal [OF this] this st show ?thesis
    by (intro exI [of _ "?s\<lparr>rt := pc, sh := w\<rparr>"])
      (simp add: sample_system_def sample_shared_def sample_instance_def new_instance_def)
qed

section \<open>How the loop ends\<close>

text \<open>
  C3: the loop never gives up on its own. As long as nobody stopped the service and the daemon
  runs, it ends in one way only: the service is Failed, its last error says that the AWS
  credentials expired, and neither a session nor a proxy is left in the instance. Every other error
  leads to another attempt.
\<close>

theorem loop_ends_only_on_expired_credentials:
  assumes "reachable profile s" and "\<not> cancelled (sh s)" and "rt s = R_done"
  shows "si_state (si (sh s)) = Failed \<and> error_Is (si_lastError (si (sh s))) ErrCredentialsExpired \<and>
    si_session (si (sh s)) = None \<and> si_tcpProxy (si (sh s)) = None"
  using undisturbed_reachable [OF assms(1)] assms(2,3) by (auto simp: undisturbed_def bare_def)

text \<open>Runs of the loop alone: \<open>ans i\<close> answers its i-th step; \<open>runs_ok\<close> says no step has to wait.\<close>

fun run_for :: "Profile \<Rightarrow> (nat \<Rightarrow> answers) \<Rightarrow> nat \<Rightarrow> runner \<times> shared \<Rightarrow> runner \<times> shared" where
  "run_for profile ans 0 c = c"
| "run_for profile ans (Suc n) c = run_for profile (\<lambda>i. ans (Suc i)) n (run_step profile (ans 0) c)"

fun runs_ok :: "Profile \<Rightarrow> (nat \<Rightarrow> answers) \<Rightarrow> nat \<Rightarrow> runner \<times> shared \<Rightarrow> bool" where
  "runs_ok profile ans 0 c = True"
| "runs_ok profile ans (Suc n) c =
     (run_enabled (fst c) (ans 0) (snd c) \<and> runs_ok profile (\<lambda>i. ans (Suc i)) n (run_step profile (ans 0) c))"

lemma run_for_add: "run_for profile ans (m + n) c = run_for profile (\<lambda>i. ans (m + i)) n (run_for profile ans m c)"
  by (induction m arbitrary: ans c) auto

lemma runs_ok_add:
  "runs_ok profile ans (m + n) c \<longleftrightarrow>
     runs_ok profile ans m c \<and> runs_ok profile (\<lambda>i. ans (m + i)) n (run_for profile ans m c)"
  by (induction m arbitrary: ans c) auto

lemma run_for_reachable:
  assumes "reachable profile s" and "runs_ok profile ans n (rt s, sh s)"
    and "run_for profile ans n (rt s, sh s) = (pc, w)"
  shows "reachable profile (s\<lparr>rt := pc, sh := w\<rparr>)"
  using assms
proof (induction n arbitrary: s ans)
  case (Suc n)
  obtain pc' w' where r: "run_step profile (ans 0) (rt s, sh s) = (pc', w')" by fastforce
  have "step profile s (s\<lparr>rt := pc', sh := w'\<rparr>)"
    using Suc.prems(2) r by (intro step.runner) auto
  with Suc.prems(1) have "reachable profile (s\<lparr>rt := pc', sh := w'\<rparr>)" by (rule reachable.more)
  from Suc.IH [OF this, of "\<lambda>i. ans (Suc i)"] Suc.prems(2,3) r show ?case by simp
next
  case 0
  then have "s\<lparr>rt := pc, sh := w\<rparr> = s" by (cases s) simp
  with 0(1) show ?case by (simp only:)
qed

text \<open>Every call succeeds and every timer fires.\<close>

definition helpful :: "Profile \<Rightarrow> answers \<Rightarrow> bool" where
  "helpful profile a \<longleftrightarrow> a_dns a = None \<and> a_start a = None \<and> a_proxy a = None \<and> a_timer a"

definition helpful_ports :: "Profile \<Rightarrow> answers \<Rightarrow> bool" where
  "helpful_ports profile a \<longleftrightarrow> (\<exists>port. a_port a = Inr port) \<and>
     (\<forall>b. \<exists>target b'. Resolve (a_quote a) (a_factory a) profile b = (Inr target, b'))"

lemma allocate_ip_ex: "\<exists>i a. allocate_ip w = (i, w\<lparr>ips := a\<rparr>)"
  by (auto simp: allocate_ip_def split: prod.splits sum.splits)

lemma run_enabled_simps [simp]:
  "run_enabled R_top a w" "run_enabled R_from a w" "run_enabled (R_starting from) a w"
  "run_enabled R_allocate a w" "run_enabled (R_add_dns i) a w" "run_enabled (R_free_port i) a w"
  "run_enabled (R_resolve i port) a w" "run_enabled (R_start_session i port target) a w"
  "run_enabled (R_start_proxy i port k) a w" "run_enabled (R_commit i port k p) a w"
  "run_enabled (R_connected port k) a w" "run_enabled (R_emit es pc) a w"
  "run_enabled (R_session_ended e) a w" "run_enabled (R_take_proxy e) a w"
  "run_enabled (R_drain_proxy p e) a w" "run_enabled (R_reconnecting from e) a w"
  "run_enabled (R_to_reconnecting from e) a w" "run_enabled (R_reconnected from e) a w"
  "run_enabled (R_expired from err) a w" "run_enabled (R_to_failed from err) a w"
  "run_enabled R_backoff a w" "run_enabled (R_connect_failed err) a w"
  "a_timer a \<Longrightarrow> run_enabled (R_delay d) a w" "a_timer a \<Longrightarrow> run_enabled R_rotation a w"
  "sessions w ! k = Ended e \<Longrightarrow> run_enabled (R_wait k) a w"
  by (simp_all add: run_enabled_def)

text \<open>The first stretch: from the top of the loop to the port and target of a session.\<close>

lemma connect_first:
  assumes "\<not> cancelled w" and "si_state (si w) \<in> {Disconnected, Reconnecting}"
    and favour: "\<And>i. helpful profile (ans i)" "\<And>i. helpful_ports profile (ans i)"
  shows "\<exists>i port target w'. run_for profile ans 9 (R_top, w) = (R_start_session i port target, w') \<and>
    runs_ok profile ans 9 (R_top, w) \<and> \<not> cancelled w' \<and> si w' = (si w)\<lparr>si_state := Starting\<rparr> \<and>
    sessions w' = sessions w \<and> proxies w' = proxies w"
proof -
  let ?s = "(si w)\<lparr>si_state := Starting\<rparr>"
  have tr: "transition Starting (si w) = (None, ?s)"
    using assms(2) by (auto simp: transition_def)
  define w1 where "w1 = emit_one (stateChange ?s (si_state (si w)) Starting None (a_now (ans 2))) (set_si ?s w)"
  obtain i al where alloc: "allocate_ip w1 = (i, w1\<lparr>ips := al\<rparr>)" using allocate_ip_ex by blast
  obtain port where port: "a_port (ans 7) = Inr port" using favour(2) by (auto simp: helpful_ports_def)
  define w2 where "w2 = log_call (DNS_Add (DNSName (si_service ?s)) i) (w1\<lparr>ips := al\<rparr>)"
  obtain target b where target: "Resolve (a_quote (ans 8)) (a_factory (ans 8)) profile (bastion w2) = (Inr target, b)"
    using favour(2) [of 8] unfolding helpful_ports_def by blast
  have si2: "si w2 = ?s" "si w1 = ?s" "\<not> cancelled w2" "sessions w2 = sessions w" "proxies w2 = proxies w"
    using assms(1) by (simp_all add: w2_def w1_def emit_one_def set_si_def log_call_def)
  have dns: "a_dns (ans 6) = None" using favour(1) by (simp add: helpful_def)
  have "run_for profile ans 9 (R_top, w) = (R_start_session i port target, w2\<lparr>bastion := b\<rparr>) \<and>
      runs_ok profile ans 9 (R_top, w)"
    using assms(1) tr alloc port target dns
    by (simp add: eval_nat_numeral w1_def w2_def dns_step_def resolve_step_def log_call_def emit_one_def set_si_def)
  with si2 show ?thesis by auto
qed

text \<open>The second stretch: session, proxy, commit.\<close>

lemma connect_second:
  assumes "\<not> cancelled w" and "si_state (si w) = Starting" and "\<And>i. helpful profile (ans i)"
  shows "\<exists>w'. run_for profile ans 7 (R_start_session i port target, w) = (R_wait (length (sessions w)), w') \<and>
    runs_ok profile ans 7 (R_start_session i port target, w) \<and> \<not> cancelled w' \<and>
    serving (length (sessions w)) (si w') \<and> si_lastError (si w') = None \<and>
    sessions w' = sessions w @ [Live] \<and> si_tcpProxy (si w') = Some (length (proxies w)) \<and>
    proxies w' = proxies w @ [True] \<and>
    Start_proxy (length (proxies w)) (proxy_config profile (si w) i port) \<in> set (calls w')"
  using assms
  by (simp add: eval_nat_numeral helpful_def start_session_step_def start_proxy_step_def commit_step_def
      connected_step_def log_call_def emit_one_def set_si_def serving_def Let_def)

lemma loop_connects:
  assumes "\<not> cancelled w" and "si_state (si w) \<in> {Disconnected, Reconnecting}"
    and "\<And>i. helpful profile (ans i)" and "\<And>i. helpful_ports profile (ans i)"
  shows "\<exists>w'. run_for profile ans 16 (R_top, w) = (R_wait (length (sessions w)), w') \<and>
    runs_ok profile ans 16 (R_top, w) \<and> \<not> cancelled w' \<and> serving (length (sessions w)) (si w') \<and>
    si_lastError (si w') = None \<and> sessions w' = sessions w @ [Live] \<and>
    (\<exists>p. si_tcpProxy (si w') = Some p \<and> open_proxy p w') \<and>
    (\<exists>p cfg. Start_proxy p cfg \<in> set (calls w'))"
proof -
  obtain i port target w1 where 1: "run_for profile ans 9 (R_top, w) = (R_start_session i port target, w1)"
    "runs_ok profile ans 9 (R_top, w)" "\<not> cancelled w1" "si w1 = (si w)\<lparr>si_state := Starting\<rparr>"
    "sessions w1 = sessions w"
    using connect_first [of w profile ans, OF assms] by blast
  obtain w' where 2: "run_for profile (\<lambda>i. ans (9 + i)) 7 (R_start_session i port target, w1) =
      (R_wait (length (sessions w1)), w')"
    "runs_ok profile (\<lambda>i. ans (9 + i)) 7 (R_start_session i port target, w1)" "\<not> cancelled w'"
    "serving (length (sessions w1)) (si w')" "si_lastError (si w') = None" "sessions w' = sessions w1 @ [Live]"
    "si_tcpProxy (si w') = Some (length (proxies w1))" "proxies w' = proxies w1 @ [True]"
    "\<exists>p cfg. Start_proxy p cfg \<in> set (calls w')"
    using connect_second [of w1 profile "\<lambda>i. ans (9 + i)" i port target] 1(3,4) assms(3) by auto
  have "open_proxy (length (proxies w1)) w'" using 2(8) by (simp add: open_proxy_def)
  then show ?thesis
    using run_for_add [of profile ans 9 7 "(R_top, w)"] runs_ok_add [of profile ans 9 7 "(R_top, w)"] 1 2 by auto
qed

text \<open>From the end of a session back to the top, over the backoff or the rotation pause.\<close>

lemma session_reconnects:
  assumes "\<not> cancelled w" and "serving k (si w)" and "sessions w ! k = Ended e"
  shows "\<exists>w1. run_for profile ans 8 (R_wait k, w) = (R_reconnected Connected e, w1) \<and>
    runs_ok profile ans 8 (R_wait k, w) \<and> \<not> cancelled w1 \<and> si_state (si w1) = Reconnecting \<and> sessions w1 = sessions w"
proof -
  obtain p where "si_tcpProxy (si w) = Some p" "si_state (si w) = Connected" using assms(2) by (auto simp: serving_def)
  with assms(1,3) show ?thesis
    by (simp add: eval_nat_numeral stop_proxy_def set_si_def to_reconnecting_step_def transition_def emit_one_def)
qed

lemma backoff_to_top:
  assumes "\<not> cancelled w" and "si_state (si w) = Reconnecting" and "\<And>i. helpful profile (ans i)"
  shows "\<exists>w'. run_for profile ans 4 (R_backoff, w) = (R_top, w') \<and> runs_ok profile ans 4 (R_backoff, w) \<and>
    \<not> cancelled w' \<and> si_state (si w') = Reconnecting \<and> sessions w' = sessions w"
proof -
  have timer: "a_timer (ans i)" for i using assms(3) [of i] by (simp add: helpful_def)
  obtain d b where "NextDelay (a_oor (ans 0))
      (if ShouldReset (a_now (ans 0)) (si_backoff (si w)) then backoff_Reset (si_backoff (si w))
       else si_backoff (si w)) = (d, b)" by fastforce
  with assms timer show ?thesis
    by (simp add: eval_nat_numeral backoff_step_def emit_one_def wait_or_cancel_def set_si_def Let_def)
qed

lemma reconnected_to_top:
  assumes "\<not> cancelled w" and "si_state (si w) = Reconnecting" and "\<not> error_Is e ErrCredentialsExpired"
    and favour: "\<And>i. helpful profile (ans i)"
  shows "\<exists>n\<le>5. \<exists>w'. run_for profile ans n (R_reconnected Connected e, w) = (R_top, w') \<and>
    runs_ok profile ans n (R_reconnected Connected e, w) \<and> \<not> cancelled w' \<and> si_state (si w') = Reconnecting \<and>
    sessions w' = sessions w"
proof (cases "\<exists>err. e = Some err \<and> errors_Is err ErrTargetNotConnected \<and> TargetASG profile \<noteq> []")
  case True
  have timer: "a_timer (ans i)" for i using favour [of i] by (simp add: helpful_def)
  from True assms(1-3) timer show ?thesis
    by (intro exI [of _ 4]) (auto simp: eval_nat_numeral reconnected_step_def emit_one_def wait_or_cancel_def)
next
  case False
  then have "run_for profile ans 1 (R_reconnected Connected e, w) = (R_backoff, w)"
    using assms(3) by (auto simp: reconnected_step_def split: option.splits)
  then show ?thesis
    using backoff_to_top [OF assms(1,2), of profile "\<lambda>i. ans (1 + i)", OF favour]
      run_for_add [of profile ans 1 4 "(R_reconnected Connected e, w)"]
      runs_ok_add [of profile ans 1 4 "(R_reconnected Connected e, w)"]
    by (intro exI [of _ 5]) auto
qed

lemma session_end_to_top:
  assumes "\<not> cancelled w" and "serving k (si w)" and "sessions w ! k = Ended e"
    and "\<not> error_Is e ErrCredentialsExpired" and favour: "\<And>i. helpful profile (ans i)"
  shows "\<exists>n\<le>13. \<exists>w'. run_for profile ans n (R_wait k, w) = (R_top, w') \<and> runs_ok profile ans n (R_wait k, w) \<and>
    \<not> cancelled w' \<and> si_state (si w') = Reconnecting \<and> sessions w' = sessions w"
proof -
  obtain w1 where w1: "run_for profile ans 8 (R_wait k, w) = (R_reconnected Connected e, w1)"
    "runs_ok profile ans 8 (R_wait k, w)" "\<not> cancelled w1" "si_state (si w1) = Reconnecting" "sessions w1 = sessions w"
    using session_reconnects [OF assms(1-3)] by blast
  obtain n w' where n: "n \<le> 5" "run_for profile (\<lambda>i. ans (8 + i)) n (R_reconnected Connected e, w1) = (R_top, w')"
    "runs_ok profile (\<lambda>i. ans (8 + i)) n (R_reconnected Connected e, w1)" "\<not> cancelled w'"
    "si_state (si w') = Reconnecting" "sessions w' = sessions w1"
    using reconnected_to_top [OF w1(3,4) assms(4), of profile "\<lambda>i. ans (8 + i)", OF favour] by blast
  then show ?thesis
    using run_for_add [of profile ans 8 n "(R_wait k, w)"] runs_ok_add [of profile ans 8 n "(R_wait k, w)"] w1
    by (intro exI [of _ "8 + n"]) auto
qed

text \<open>
  C2: a session that ends while nobody stops the service (its context is not cancelled) and whose error
  is not that of expired credentials, whoever ended it and whatever else it says, is replaced. If from then
  on every call the loop makes succeeds and every timer fires, the undisturbed loop, without ever having to
  wait for anything else, serves the service again after at most 29 of its own steps: Connected, through
  a new live session and an open proxy, with the error forgotten. (With expired credentials the loop ends
  instead, which is another property below.)
\<close>

theorem session_is_replaced:
  assumes "reachable profile s" and "\<not> cancelled (sh s)" and "rt s = R_wait k"
    and "sessions (sh s) ! k = Ended e" and "\<not> error_Is e ErrCredentialsExpired"
    and "\<And>i. helpful profile (ans i) \<and> helpful_ports profile (ans i)"
  shows "\<exists>n\<le>29. \<exists>k' w. runs_ok profile ans n (rt s, sh s) \<and> run_for profile ans n (rt s, sh s) = (R_wait k', w) \<and>
    serving k' (si w) \<and> si_lastError (si w) = None \<and> k' \<noteq> k \<and> live k' w \<and>
    (\<exists>p. si_tcpProxy (si w) = Some p \<and> open_proxy p w)"
proof -
  have serve: "serving k (si (sh s))"
    using undisturbed_reachable [OF assms(1)] assms(2,3) by (auto simp: undisturbed_def)
  have k: "k < length (sessions (sh s))"
    using owned_reachable [OF assms(1)] assms(3) by (auto simp: owned_def)
  obtain n w1 where 1: "n \<le> 13" "run_for profile ans n (R_wait k, sh s) = (R_top, w1)"
    "runs_ok profile ans n (R_wait k, sh s)" "\<not> cancelled w1" "si_state (si w1) = Reconnecting"
    "sessions w1 = sessions (sh s)"
    using session_end_to_top [of "sh s" k e profile ans] assms(2,4-6) serve by auto
  obtain w' where 2: "run_for profile (\<lambda>i. ans (n + i)) 16 (R_top, w1) = (R_wait (length (sessions w1)), w')"
    "runs_ok profile (\<lambda>i. ans (n + i)) 16 (R_top, w1)" "serving (length (sessions w1)) (si w')"
    "si_lastError (si w') = None" "sessions w' = sessions w1 @ [Live]"
    "\<exists>p. si_tcpProxy (si w') = Some p \<and> open_proxy p w'"
    using loop_connects [of w1 profile "\<lambda>i. ans (n + i)"] 1(4,5) assms(6) by auto
  have "live (length (sessions w1)) w'" using 2(5) by (simp add: live_def)
  then show ?thesis
    using run_for_add [of profile ans n 16 "(R_wait k, sh s)"] runs_ok_add [of profile ans n 16 "(R_wait k, sh s)"]
      1 2 k assms(3) by (intro exI [of _ "n + 16"]) auto
qed

lemma expired_tail:
  assumes "\<not> cancelled w" and "si_state (si w) \<in> {Starting, Reconnecting}" and "errors_Is err ErrCredentialsExpired"
  shows "\<exists>w'. run_for profile ans 6 (R_expired (si_state (si w)) err, w) = (R_done, w') \<and>
    runs_ok profile ans 6 (R_expired (si_state (si w)) err, w) \<and> si_state (si w') = Failed \<and>
    si_lastError (si w') = Some err \<and> sessions w' = sessions w \<and>
    si_profile (si w') = si_profile (si w) \<and> si_service (si w') = si_service (si w) \<and>
    (\<exists>t. CredentialsExpired (si_profile (si w)) (AWSProfile profile) (Name (si_service (si w))) (error_text err) t
      \<in> set (emitted w'))"
  using assms
  by (auto simp: eval_nat_numeral set_si_def to_failed_step_def transition_def emit_one_def)

lemma expired_after:
  assumes run: "run_for profile ans m c = (R_expired (si_state (si w1)) err, w1)" "runs_ok profile ans m c"
    and w1: "\<not> cancelled w1" "si_state (si w1) \<in> {Starting, Reconnecting}" "errors_Is err ErrCredentialsExpired"
  shows "\<exists>w t. runs_ok profile ans (m + 6) c \<and> run_for profile ans (m + 6) c = (R_done, w) \<and>
    si_state (si w) = Failed \<and> sessions w = sessions w1 \<and> si_lastError (si w) = Some err \<and>
    CredentialsExpired (si_profile (si w)) (AWSProfile profile) (Name (si_service (si w))) (error_text err) t
      \<in> set (emitted w)"
proof -
  obtain w t where w: "run_for profile (\<lambda>i. ans (m + i)) 6 (R_expired (si_state (si w1)) err, w1) = (R_done, w)"
    "runs_ok profile (\<lambda>i. ans (m + i)) 6 (R_expired (si_state (si w1)) err, w1)" "si_state (si w) = Failed"
    "si_lastError (si w) = Some err" "sessions w = sessions w1" "si_profile (si w) = si_profile (si w1)"
    "si_service (si w) = si_service (si w1)"
    "CredentialsExpired (si_profile (si w1)) (AWSProfile profile) (Name (si_service (si w1))) (error_text err) t
      \<in> set (emitted w)"
    using expired_tail [OF w1, of profile "\<lambda>i. ans (m + i)"] by blast
  then show ?thesis
    using run_for_add [of profile ans m 6 c] runs_ok_add [of profile ans m 6 c] run
    by (intro exI [of _ w] exI [of _ t]) simp
qed

lemma session_expires:
  assumes "\<not> cancelled w" and "serving k (si w)" and "sessions w ! k = Ended (Some err)" and "errors_Is err ErrCredentialsExpired"
  shows "\<exists>w1. run_for profile ans 9 (R_wait k, w) = (R_expired (si_state (si w1)) err, w1) \<and>
    runs_ok profile ans 9 (R_wait k, w) \<and> \<not> cancelled w1 \<and> si_state (si w1) = Reconnecting \<and> sessions w1 = sessions w"
proof -
  obtain p where "si_tcpProxy (si w) = Some p" "si_state (si w) = Connected" using assms(2) by (auto simp: serving_def)
  with assms show ?thesis
    by (simp add: eval_nat_numeral stop_proxy_def set_si_def to_reconnecting_step_def transition_def emit_one_def
        reconnected_step_def)
qed

lemma connect_expires:
  assumes "\<not> cancelled w" and "si_state (si w) = Starting"
    and "error_Is (ClassifyCredentials (a_ulower (ans 0)) (Some err)) ErrCredentialsExpired"
  shows "\<exists>err'. run_for profile ans 1 (R_connect_failed err, w) = (R_expired (si_state (si w)) err', w) \<and>
    runs_ok profile ans 1 (R_connect_failed err, w) \<and> errors_Is err' ErrCredentialsExpired \<and>
    suffix (error_text err) (error_text err')"
proof -
  obtain err' where "ClassifyCredentials (a_ulower (ans 0)) (Some err) = Some err'"
    "errors_Is err' ErrCredentialsExpired" "suffix (error_text err) (error_text err')"
    using assms(3) by (auto simp: ClassifyCredentials_def suffix_def split: if_splits)
  with assms(1,2) show ?thesis by (simp add: after_connect_error_def)
qed

text \<open>
  C9: expired credentials end the loop and say so. When the session's error, or the error of a
  failed start whichever AWS client produced it, names expired credentials, the undisturbed loop
  ends within 15 steps in Failed, having emitted CredentialsExpired with that error's text and
  started no further session.
\<close>

theorem expired_credentials_end_the_loop:
  assumes "reachable profile s" and "\<not> cancelled (sh s)"
    and "rt s = R_wait k \<and> sessions (sh s) ! k = Ended (Some err) \<and> errors_Is err ErrCredentialsExpired \<or>
      rt s = R_connect_failed err \<and> error_Is (ClassifyCredentials (a_ulower (ans 0)) (Some err)) ErrCredentialsExpired"
  shows "\<exists>n\<le>15. \<exists>w err' t. runs_ok profile ans n (rt s, sh s) \<and> run_for profile ans n (rt s, sh s) = (R_done, w) \<and>
    si_state (si w) = Failed \<and> sessions w = sessions (sh s) \<and> si_lastError (si w) = Some err' \<and>
    errors_Is err' ErrCredentialsExpired \<and> suffix (error_text err) (error_text err') \<and>
    CredentialsExpired (si_profile (si w)) (AWSProfile profile) (Name (si_service (si w))) (error_text err') t
      \<in> set (emitted w)"
  using assms(3)
proof
  assume wait: "rt s = R_wait k \<and> sessions (sh s) ! k = Ended (Some err) \<and> errors_Is err ErrCredentialsExpired"
  have "serving k (si (sh s))"
    using undisturbed_reachable [OF assms(1)] assms(2) wait by (auto simp: undisturbed_def)
  then obtain w1 where w1: "run_for profile ans 9 (R_wait k, sh s) = (R_expired (si_state (si w1)) err, w1)"
    "runs_ok profile ans 9 (R_wait k, sh s)" "\<not> cancelled w1" "si_state (si w1) = Reconnecting" "sessions w1 = sessions (sh s)"
    using session_expires [OF assms(2)] wait by blast
  then show ?thesis
    using expired_after [OF w1(1,2,3)] wait by (intro exI [of _ 15]) fastforce
next
  assume failed: "rt s = R_connect_failed err \<and>
    error_Is (ClassifyCredentials (a_ulower (ans 0)) (Some err)) ErrCredentialsExpired"
  then have st: "si_state (si (sh s)) = Starting"
    using undisturbed_reachable [OF assms(1)] assms(2) by (auto simp: undisturbed_def)
  then obtain err' where e: "run_for profile ans 1 (R_connect_failed err, sh s) = (R_expired (si_state (si (sh s))) err', sh s)"
    "runs_ok profile ans 1 (R_connect_failed err, sh s)" "errors_Is err' ErrCredentialsExpired"
    "suffix (error_text err) (error_text err')"
    using connect_expires [OF assms(2)] failed by blast
  then show ?thesis
    using expired_after [OF e(1,2) assms(2)] st failed by (intro exI [of _ 7]) fastforce
qed

text \<open>A reachable system whose first session just ended with \<open>e\<close>.\<close>

lemma helpful_good [simp]: "helpful profile good" "helpful_ports pinned good"
  by (simp_all add: helpful_def helpful_ports_def good_def Resolve_def sample_profile_def)

lemma sample_session_ended:
  "\<exists>s. reachable pinned s \<and> \<not> cancelled (sh s) \<and> rt s = R_wait 0 \<and> sessions (sh s) = [Ended e] \<and>
    stoppers s = [] \<and> droppers s = [] \<and> (\<exists>p cfg. Start_proxy p cfg \<in> set (calls (sh s)))"
proof -
  obtain w where w: "run_for pinned (\<lambda>_. good) 16 (R_top, sample_shared) = (R_wait 0, w)"
    "runs_ok pinned (\<lambda>_. good) 16 (R_top, sample_shared)" "\<not> cancelled w" "sessions w = [Live]"
    "\<exists>p cfg. Start_proxy p cfg \<in> set (calls w)"
    using loop_connects [of sample_shared pinned "\<lambda>_. good"]
    by (auto simp: sample_shared_def sample_instance_def new_instance_def)
  let ?s = "sample_system\<lparr>rt := R_wait 0, sh := w\<rparr>"
  have "reachable pinned ?s"
    using run_for_reachable [OF sample_reachable, of pinned "\<lambda>_. good" 16 "R_wait 0" w] w(1,2)
    by (simp add: sample_system_def)
  moreover have "step pinned ?s (?s\<lparr>sh := (sh ?s)\<lparr>sessions := (sessions (sh ?s))[0 := Ended e]\<rparr>\<rparr>)"
    using w(4) by (intro step.session_dies) auto
  ultimately have "reachable pinned (?s\<lparr>sh := w\<lparr>sessions := [Ended e]\<rparr>\<rparr>)"
    using reachable.more w(4) by fastforce
  moreover have "stoppers sample_system = []" "droppers sample_system = []" by (simp_all add: sample_system_def)
  ultimately show ?thesis using w(3,5) by (intro exI [of _ "?s\<lparr>sh := w\<lparr>sessions := [Ended e]\<rparr>\<rparr>"]) simp
qed

theorem session_is_replaced_witness:
  "\<exists>s n k' w. reachable pinned s \<and> run_for pinned (\<lambda>_. good) n (rt s, sh s) = (R_wait k', w) \<and> serving k' (si w) \<and> live k' w"
proof -
  obtain s where s: "reachable pinned s" "\<not> cancelled (sh s)" "rt s = R_wait 0" "sessions (sh s) = [Ended None]"
    using sample_session_ended [of None] by blast
  then have ended: "sessions (sh s) ! 0 = Ended None" by simp
  show ?thesis
    using session_is_replaced [OF s(1,2,3) ended, of "\<lambda>_. good"] s(1) by simp blast
qed

theorem expired_credentials_end_the_loop_witness:
  "\<exists>s n w. reachable pinned s \<and> run_for pinned (\<lambda>_. good) n (rt s, sh s) = (R_done, w) \<and> si_state (si w) = Failed"
proof -
  let ?e = "Sentinel ErrCredentialsExpired"
  obtain s where s: "reachable pinned s" "\<not> cancelled (sh s)" "rt s = R_wait 0" "sessions (sh s) = [Ended (Some ?e)]"
    using sample_session_ended [of "Some ?e"] by blast
  then have "rt s = R_wait 0 \<and> sessions (sh s) ! 0 = Ended (Some ?e) \<and> errors_Is ?e ErrCredentialsExpired \<or>
      rt s = R_connect_failed ?e \<and> error_Is (ClassifyCredentials (a_ulower good) (Some ?e)) ErrCredentialsExpired"
    by simp
  from expired_credentials_end_the_loop [OF s(1,2) this] s(1) show ?thesis by blast
qed

lemma sample_expired:
  "\<exists>s. reachable pinned s \<and> \<not> cancelled (sh s) \<and> rt s = R_done"
proof -
  let ?e = "Sentinel ErrCredentialsExpired"
  obtain s where s: "reachable pinned s" "\<not> cancelled (sh s)" "rt s = R_wait 0" "sessions (sh s) = [Ended (Some ?e)]"
    using sample_session_ended [of "Some ?e"] by blast
  have serve: "serving 0 (si (sh s))"
    using undisturbed_reachable [OF s(1)] s(2,3) by (auto simp: undisturbed_def)
  then obtain p where p: "si_tcpProxy (si (sh s)) = Some p" "si_state (si (sh s)) = Connected"
    by (auto simp: serving_def)
  have "\<exists>w. run_for pinned (\<lambda>_. good) 15 (rt s, sh s) = (R_done, w) \<and>
      runs_ok pinned (\<lambda>_. good) 15 (rt s, sh s) \<and> \<not> cancelled w"
    using s p by (simp add: eval_nat_numeral stop_proxy_def set_si_def to_reconnecting_step_def transition_def
        emit_one_def reconnected_step_def to_failed_step_def)
  then obtain w where w: "run_for pinned (\<lambda>_. good) 15 (rt s, sh s) = (R_done, w)"
    "runs_ok pinned (\<lambda>_. good) 15 (rt s, sh s)" "\<not> cancelled w" by blast
  from run_for_reachable [OF s(1) w(2,1)] w(3) show ?thesis
    by (intro exI [of _ "s\<lparr>rt := R_done, sh := w\<rparr>"]) simp
qed

theorem loop_ends_only_on_expired_credentials_witness:
  "\<exists>s. reachable pinned s \<and> rt s = R_done \<and> si_state (si (sh s)) = Failed"
  using loop_ends_only_on_expired_credentials sample_expired by blast

section \<open>Stopping\<close>

text \<open>
  The steps a stopper has left, its emits included.
\<close>

fun stop_left :: "stopper \<Rightarrow> nat" where
  "stop_left (S_emit es pc) = Suc (length es) + stop_left pc"
| "stop_left S_cancel = 18"
| "stop_left S_read = 17"
| "stop_left (S_stopping current sess) = 16"
| "stop_left (S_session sess) = 13"
| "stop_left S_take_proxy = 10"
| "stop_left (S_proxy p) = 9"
| "stop_left S_disconnected = 8"
| "stop_left S_allocate = 5"
| "stop_left (S_release i) = 4"
| "stop_left (S_remove_dns i) = 3"
| "stop_left S_done = 0"

lemma stop_progress:
  assumes "stop_step a (pc, w) = (pc', w')" and "pc \<noteq> S_done"
  shows "stop_left pc' < stop_left pc"
  using assms
  by (cases "(a, (pc, w))" rule: stop_step.cases)
    (auto simp: run_defs stopping_step_def stop_session_def split: run_splits)

text \<open>A stopper running alone, step after step.\<close>

fun stop_for :: "(nat \<Rightarrow> answers) \<Rightarrow> nat \<Rightarrow> stopper \<times> shared \<Rightarrow> stopper \<times> shared" where
  "stop_for ans 0 c = c"
| "stop_for ans (Suc n) c = stop_for (\<lambda>i. ans (Suc i)) n (stop_step (ans 0) c)"

lemma stop_for_done: "stop_for ans n (S_done, w) = (S_done, w)"
  by (induction n arbitrary: ans) auto

lemma stop_for_ends: "stop_left pc \<le> n \<Longrightarrow> \<exists>w'. stop_for ans n (pc, w) = (S_done, w')"
proof (induction n arbitrary: pc w ans)
  case 0
  then show ?case by (cases pc) auto
next
  case (Suc n)
  obtain pc' w' where r: "stop_step (ans 0) (pc, w) = (pc', w')" by fastforce
  show ?case
  proof (cases "pc = S_done")
    case True
    then show ?thesis using r by (simp add: stop_for_done)
  next
    case False
    then have "stop_left pc' \<le> n" using stop_progress [OF r] Suc.prems by simp
    from Suc.IH [OF this] r show ?thesis by simp
  qed
qed

lemma stop_for_reachable:
  assumes "reachable profile s" and "stoppers s = [pc]" and "stop_for ans n (pc, sh s) = (pc', w)"
  shows "reachable profile (s\<lparr>stoppers := [pc'], sh := w\<rparr>)"
  using assms
proof (induction n arbitrary: s pc ans)
  case 0
  then have "s\<lparr>stoppers := [pc'], sh := w\<rparr> = s" by (cases s) simp
  with 0(1) show ?case by (simp only:)
next
  case (Suc n)
  obtain pc1 w1 where r: "stop_step (ans 0) (pc, sh s) = (pc1, w1)" by fastforce
  have "step profile s (s\<lparr>stoppers := (stoppers s)[0 := pc1], sh := w1\<rparr>)"
    using Suc.prems(2) r by (intro step.stopper) auto
  then have "reachable profile (s\<lparr>stoppers := [pc1], sh := w1\<rparr>)"
    using Suc.prems(1,2) reachable.more by fastforce
  from Suc.IH [OF this, of pc1 "\<lambda>i. ans (Suc i)"] Suc.prems(3) r show ?case by simp
qed

text \<open>A system in which a stop overtakes the loop before its first state change.\<close>

lemma first_allocation:
  "\<exists>x. Allocate key alloc_New = (Inr (loopback x), \<lparr>assigned = [(x, key)]\<rparr>) \<and>
    alloc_Release key \<lparr>assigned = [(x, key)]\<rparr> = alloc_New"
  by (rule Allocate_cases [OF alloc_ok_New, of key])
    (auto simp: alloc_New_def owner_octet_def alloc_Release_def map_del_def)

lemma stop_before_start:
  assumes "Allocate ''dev/db'' alloc_New = (Inr (loopback x), \<lparr>assigned = [(x, ''dev/db'')]\<rparr>)"
    and "alloc_Release ''dev/db'' \<lparr>assigned = [(x, ''dev/db'')]\<rparr> = alloc_New"
  shows "\<exists>w. stop_for (\<lambda>_. good) 11 (S_cancel, sample_shared) = (S_done, w) \<and> cancelled w \<and>
      si w = sample_instance \<and> ips w = alloc_New \<and> calls w = [DNS_Remove ''db.dev'' (Some (loopback x))] \<and>
      bastion w = NewASGResolver"
proof -
  obtain terr where "Transition Disconnected Disconnected = Some terr"
    by (cases "Transition Disconnected Disconnected") auto
  with assms show ?thesis
    by (simp add: service_key_def eval_nat_numeral sample_shared_def sample_instance_def new_instance_def stopping_step_def
        transition_def emit_one_def set_si_def allocate_ip_def svc_key_def log_call_def good_def sample_service_def)
qed

definition refused :: answers where
  "refused = good\<lparr>a_start := Some (Sentinel Canceled)\<rparr>"

lemma start_after_stop:
  assumes "Allocate ''dev/db'' alloc_New = (Inr (loopback x), \<lparr>assigned = [(x, ''dev/db'')]\<rparr>)"
    and "cancelled w" and "si w = sample_instance" and "ips w = alloc_New" and "bastion w = NewASGResolver"
  shows "\<exists>w'. run_for pinned (\<lambda>_. refused) 9 (R_starting Disconnected, w) = (R_done, w') \<and>
      runs_ok pinned (\<lambda>_. refused) 9 (R_starting Disconnected, w) \<and>
      calls w' = calls w @ [DNS_Add ''db.dev'' (Some (loopback x))] \<and>
      ips w' = \<lparr>assigned = [(x, ''dev/db'')]\<rparr> \<and> si_state (si w') = Starting"
  using assms
  by (simp add: service_key_def eval_nat_numeral sample_instance_def new_instance_def transition_def emit_one_def set_si_def
      allocate_ip_def svc_key_def log_call_def good_def refused_def sample_service_def dns_step_def resolve_step_def
      Resolve_def sample_profile_def start_session_step_def)

lemma stop_overtakes:
  "\<exists>s i. reachable pinned s \<and> rt s = R_done \<and> stoppers s = [S_done] \<and> droppers s = [] \<and>
    calls (sh s) = [DNS_Remove ''db.dev'' (Some i), DNS_Add ''db.dev'' (Some i)] \<and>
    alloc_addr (ips (sh s)) ''dev/db'' = Some i \<and> si_state (si (sh s)) = Starting"
proof -
  obtain x where x: "Allocate ''dev/db'' alloc_New = (Inr (loopback x), \<lparr>assigned = [(x, ''dev/db'')]\<rparr>)"
    "alloc_Release ''dev/db'' \<lparr>assigned = [(x, ''dev/db'')]\<rparr> = alloc_New"
    using first_allocation by blast
  define s1 where "s1 = sample_system\<lparr>rt := R_starting Disconnected, stoppers := [S_cancel]\<rparr>"
  have "run_for pinned (\<lambda>_. good) 2 (R_top, sample_shared) = (R_starting Disconnected, sample_shared)"
    "runs_ok pinned (\<lambda>_. good) 2 (R_top, sample_shared)"
    by (simp_all add: eval_nat_numeral sample_shared_def sample_instance_def new_instance_def)
  then have "reachable pinned (sample_system\<lparr>rt := R_starting Disconnected, sh := sample_shared\<rparr>)"
    using run_for_reachable [OF sample_reachable, of pinned "\<lambda>_. good" 2] by (simp add: sample_system_def)
  then have s1: "reachable pinned s1"
    using reachable.more [OF _ step.new_stop] by (fastforce simp: s1_def sample_system_def)
  obtain w where w: "stop_for (\<lambda>_. good) 11 (S_cancel, sample_shared) = (S_done, w)" "cancelled w"
    "si w = sample_instance" "ips w = alloc_New" "calls w = [DNS_Remove ''db.dev'' (Some (loopback x))]"
    "bastion w = NewASGResolver" using stop_before_start [OF x] by blast
  define s2 where "s2 = s1\<lparr>stoppers := [S_done], sh := w\<rparr>"
  have s2: "reachable pinned s2"
    unfolding s2_def using w(1)
    by (intro stop_for_reachable [OF s1, of S_cancel "\<lambda>_. good" 11]) (simp_all add: s1_def sample_system_def)
  obtain w' where w': "run_for pinned (\<lambda>_. refused) 9 (R_starting Disconnected, w) = (R_done, w')"
    "runs_ok pinned (\<lambda>_. refused) 9 (R_starting Disconnected, w)"
    "calls w' = calls w @ [DNS_Add ''db.dev'' (Some (loopback x))]"
    "ips w' = \<lparr>assigned = [(x, ''dev/db'')]\<rparr>" "si_state (si w') = Starting"
    using start_after_stop [OF x(1) w(2,3,4,6)] by blast
  have "reachable pinned (s2\<lparr>rt := R_done, sh := w'\<rparr>)"
    using run_for_reachable [OF s2, of "\<lambda>_. refused" 9] w'(1,2) by (simp add: s2_def s1_def)
  then show ?thesis
    using w' w(5)
    by (intro exI [of _ "s2\<lparr>rt := R_done, sh := w'\<rparr>"] exI [of _ "loopback x"])
      (simp add: s2_def s1_def sample_system_def alloc_addr_def owner_octet_def)
qed

text \<open>
  C23: \<open>Stop\<close> does not wait for the service loop, and a stop can overtake it. In the run below the loop
  has passed its check of the context when a stop runs from beginning to end, finds the service
  Disconnected, and takes its DNS entry and address away; then the loop goes on, moves the state to
  Starting, allocates and registers again, and only then notices the cancellation. Both are done,
  and the name still resolves to a held address of a service that is not there.
\<close>

theorem stop_can_be_overtaken:
  "\<exists>s i. reachable pinned s \<and> rt s = R_done \<and> stoppers s = [S_done] \<and>
    last (calls (sh s)) = DNS_Add ''db.dev'' (Some i) \<and> DNS_Remove ''db.dev'' (Some i) \<in> set (calls (sh s)) \<and>
    alloc_addr (ips (sh s)) ''dev/db'' = Some i \<and> si_state (si (sh s)) = Starting"
  using stop_overtakes by fastforce

end
