(* ===== verification/Service_Wiring.thy ===== *)
theory Service_Wiring
  imports Service_Theorems
begin

text \<open>
  What being Connected means, and how the pieces of one connection fit together: the DNS entry, the
  proxy that listens on its address, the session behind the proxy.
\<close>

section \<open>Connected\<close>

fun commits :: "runner \<Rightarrow> nat option" where
  "commits (R_emit es pc) = commits pc"
| "commits (R_commit i port k p) = Some p"
| "commits _ = None"

lemma run_open:
  assumes "\<not> cancelled w" and "agrees pc (si w)"
    and "\<And>p. commits pc = Some p \<or> si_tcpProxy (si w) = Some p \<Longrightarrow> open_proxy p w"
    and "run_step profile a (pc, w) = (pc', w')" and "commits pc' = Some p \<or> si_tcpProxy (si w') = Some p"
  shows "open_proxy p w'"
  using assms
  by (cases "(profile, a, (pc, w))" rule: run_step.cases)
    (auto simp: run_defs bare_def serving_def open_proxy_stop_session dest: stop_session_live split: run_splits)

lemma stop_uncancelled:
  assumes "S_settled pc \<noteq> S_cancel \<longrightarrow> cancelled w" and "stop_step a (pc, w) = (pc', w')" and "\<not> cancelled w'"
  shows "si w' = si w \<and> proxies w' = proxies w"
  using assms
  by (cases "(a, (pc, w))" rule: stop_step.cases)
    (auto simp: run_defs stopping_step_def dest: stop_session_live split: run_splits)

definition serving_open :: "system \<Rightarrow> bool" where
  "serving_open s \<longleftrightarrow> (\<not> cancelled (sh s) \<longrightarrow>
     (\<forall>p. commits (rt s) = Some p \<or> si_tcpProxy (si (sh s)) = Some p \<longrightarrow> open_proxy p (sh s)))"

lemma serving_open_reachable: "reachable profile s \<Longrightarrow> serving_open s"
proof (induction rule: reachable.induct)
  case (init s)
  then show ?case by (auto simp: initial_def serving_open_def)
next
  case (more s s')
  note und = undisturbed_reachable [OF more.hyps(1)]
  from more.hyps(2) show ?case
  proof (cases rule: step.cases)
    case (runner a pc w)
    have "open_proxy p w" if "\<not> cancelled w" "commits pc = Some p \<or> si_tcpProxy (si w) = Some p" for p
    proof (rule run_open [OF _ _ _ runner(3) that(2)])
      show "\<not> cancelled (sh s)" using run_cancelled [OF runner(3)] that(1) by simp
      then show "agrees (rt s) (si (sh s))" using und by (simp add: undisturbed_def)
      show "open_proxy q (sh s)" if "commits (rt s) = Some q \<or> si_tcpProxy (si (sh s)) = Some q" for q
        using that \<open>\<not> cancelled (sh s)\<close> more.IH by (auto simp: serving_open_def)
    qed
    then show ?thesis unfolding runner(1) by (auto simp: serving_open_def)
  next
    case (stopper i a pc w)
    have "S_settled (stoppers s ! i) \<noteq> S_cancel \<longrightarrow> cancelled (sh s)"
      using und nth_mem [OF stopper(2)] unfolding undisturbed_def by blast
    then show ?thesis
      using stop_uncancelled [OF _ stopper(3)] stop_cancels [OF _ stopper(3)] more.IH
      unfolding stopper(1) by (auto simp: serving_open_def open_proxy_def)
  next
    case (dropper i a pc w)
    then show ?thesis
      using drop_frame [OF dropper(3)] more.IH by (simp add: serving_open_def open_proxy_def)
  qed (use more.IH in \<open>auto simp: serving_open_def\<close>)
qed

text \<open>The loop between the end of a session and the state change that admits it.\<close>

fun replacing :: "runner \<Rightarrow> bool" where
  "replacing (R_emit es pc) = replacing pc"
| "replacing (R_drain_proxy p e) = True"
| "replacing (R_reconnecting from e) = (from = Connected)"
| "replacing (R_to_reconnecting from e) = (from = Connected)"
| "replacing _ = False"

lemma agrees_Connected:
  "agrees pc s \<Longrightarrow> si_state s = Connected \<Longrightarrow> (\<exists>k. serving k s) \<or> replacing pc"
  by (induction pc) (auto simp: serving_def)

text \<open>
  C4: \<open>Status\<close> does not lie about a service nobody is stopping. As long as the service's context is not
  cancelled, neither by a \<open>Stop\<close> nor by the end of the daemon, Connected means that its instance holds a
  session it started and an open proxy; the only exception is the moment between the session's end and the
  loop's move to Reconnecting, in which it holds neither; and in every state but Connected it holds neither.
  (Once it is being stopped the state is Stopping or Disconnected while session and proxy are put away.)
\<close>

theorem connected_means_serving:
  assumes "reachable profile s" and "\<not> cancelled (sh s)"
  shows "(si_state (si (sh s)) = Connected \<longrightarrow> replacing (rt s) \<or>
      (\<exists>k p. si_session (si (sh s)) = Some k \<and> k < length (sessions (sh s)) \<and>
         si_tcpProxy (si (sh s)) = Some p \<and> open_proxy p (sh s))) \<and>
    (si_state (si (sh s)) \<noteq> Connected \<or> replacing (rt s) \<longrightarrow>
      si_session (si (sh s)) = None \<and> si_tcpProxy (si (sh s)) = None)"
proof -
  have ag: "agrees (rt s) (si (sh s))"
    using undisturbed_reachable [OF assms(1)] assms(2) by (simp add: undisturbed_def)
  have st: "stores (rt s) (sh s)" using owned_reachable [OF assms(1)] by (simp add: owned_def)
  have range: "stores pc w \<Longrightarrow> si_session (si w) = Some k \<Longrightarrow> k < length (sessions w)" for pc w k
    by (induction pc) (auto simp: ended_def)
  have none: "agrees pc i \<Longrightarrow> si_state i \<noteq> Connected \<or> replacing pc \<Longrightarrow> bare i" for pc i
    by (induction pc) (auto simp: serving_def)
  have "\<exists>k p. si_session (si (sh s)) = Some k \<and> k < length (sessions (sh s)) \<and>
         si_tcpProxy (si (sh s)) = Some p \<and> open_proxy p (sh s)"
    if "si_state (si (sh s)) = Connected" "\<not> replacing (rt s)"
    using agrees_Connected [OF ag that(1)] that(2) range [OF st] serving_open_reachable [OF assms(1)] assms(2)
    by (auto simp: serving_def serving_open_def)
  then show ?thesis using none [OF ag] by (auto simp: bare_def)
qed

theorem connected_means_serving_witness:
  "\<exists>s k. reachable pinned s \<and> si_state (si (sh s)) = Connected \<and> si_session (si (sh s)) = Some k"
proof -
  obtain s where s: "reachable pinned s" "\<not> cancelled (sh s)" "rt s = R_wait 0"
    using sample_session_ended by blast
  then have "si_state (si (sh s)) = Connected"
    using undisturbed_reachable [OF s(1)] by (simp add: undisturbed_def serving_def)
  with connected_means_serving [OF s(1,2)] s show ?thesis by auto
qed

section \<open>Wiring\<close>

definition svc_of :: "shared \<Rightarrow> Service" where
  "svc_of w = si_service (si w)"

definition session_for :: "nat \<Rightarrow> int \<Rightarrow> Profile \<Rightarrow> shared \<Rightarrow> bool" where
  "session_for k port profile w \<longleftrightarrow> (\<exists>target. Start_session k
     \<lparr>sp_AWSProfile = AWSProfile profile, sp_AWSRegion = AWSRegion profile, sp_Target = target,
      sp_RemoteHost = RemoteHost (svc_of w), sp_RemotePort = RemotePort (svc_of w),
      sp_LocalIP = IPv4 127 0 0 1, sp_LocalPort = port\<rparr> \<in> set (calls w) \<and>
     (pr_Target profile \<noteq> [] \<longrightarrow> target = pr_Target profile))"

definition proxy_wired :: "ProxyConfig \<Rightarrow> Profile \<Rightarrow> shared \<Rightarrow> bool" where
  "proxy_wired cfg profile w \<longleftrightarrow> (\<exists>i k port. DNS_Add (DNSName (svc_of w)) i \<in> set (calls w) \<and>
     session_for k port profile w \<and>
     ListenAddr cfg = ip_text i @ '':'' @ show_int (LocalPort (svc_of w)) \<and>
     TargetAddr cfg = ''127.0.0.1:'' @ show_int port \<and> RealHost cfg = RemoteHost (svc_of w) \<and>
     px_Sigv4Service cfg = Sigv4Service (svc_of w))"

fun wired :: "Profile \<Rightarrow> runner \<Rightarrow> shared \<Rightarrow> bool" where
  "wired profile (R_emit es pc) w = wired profile pc w"
| "wired profile (R_free_port i) w = (DNS_Add (DNSName (svc_of w)) i \<in> set (calls w))"
| "wired profile (R_resolve i port) w = (DNS_Add (DNSName (svc_of w)) i \<in> set (calls w))"
| "wired profile (R_start_session i port target) w =
     (DNS_Add (DNSName (svc_of w)) i \<in> set (calls w) \<and> (pr_Target profile \<noteq> [] \<longrightarrow> target = pr_Target profile))"
| "wired profile (R_start_proxy i port k) w =
     (DNS_Add (DNSName (svc_of w)) i \<in> set (calls w) \<and> session_for k port profile w)"
| "wired profile _ w = True"

definition all_wired :: "Profile \<Rightarrow> shared \<Rightarrow> bool" where
  "all_wired profile w \<longleftrightarrow> (\<forall>p cfg. Start_proxy p cfg \<in> set (calls w) \<longrightarrow> proxy_wired cfg profile w)"

text \<open>The service never changes and calls are only ever added, so what is wired stays so.\<close>

definition grows :: "shared \<Rightarrow> shared \<Rightarrow> bool" where
  "grows w w' \<longleftrightarrow> svc_of w' = svc_of w \<and> set (calls w) \<subseteq> set (calls w')"

lemma wired_grows: "wired profile pc w \<Longrightarrow> grows w w' \<Longrightarrow> wired profile pc w'"
  by (induction pc) (auto simp: grows_def session_for_def)

lemma session_for_grows: "session_for k port profile w \<Longrightarrow> grows w w' \<Longrightarrow> session_for k port profile w'"
  by (auto simp: session_for_def grows_def)

lemma proxy_wired_grows:
  assumes "proxy_wired cfg profile w" and "grows w w'"
  shows "proxy_wired cfg profile w'"
proof -
  have svc: "svc_of w' = svc_of w" and sub: "\<And>c. c \<in> set (calls w) \<Longrightarrow> c \<in> set (calls w')"
    using assms(2) by (auto simp: grows_def)
  from assms(1) obtain i k port where 1: "DNS_Add (DNSName (svc_of w)) i \<in> set (calls w)"
    "session_for k port profile w" "ListenAddr cfg = ip_text i @ '':'' @ show_int (LocalPort (svc_of w))"
    "TargetAddr cfg = ''127.0.0.1:'' @ show_int port" "RealHost cfg = RemoteHost (svc_of w)"
    "px_Sigv4Service cfg = Sigv4Service (svc_of w)"
    unfolding proxy_wired_def by blast
  show ?thesis
    unfolding proxy_wired_def svc
    using sub [OF 1(1)] session_for_grows [OF 1(2) assms(2)] 1(3-6) by blast
qed

lemma wired_start_proxy:
  "wired profile (R_start_proxy i port k) w \<Longrightarrow> proxy_wired (proxy_config profile (si w) i port) profile w"
  unfolding proxy_wired_def proxy_config_def svc_of_def wired.simps
  by (intro exI [of _ i] exI [of _ k] exI [of _ port]) (simp add: svc_of_def)

lemma stop_session_calls: "stop_session a k w = (evts, w') \<Longrightarrow> calls w' = calls w"
  by (auto simp: stop_session_def split: run_splits)

lemma run_grows: "run_step profile a (pc, w) = (pc', w') \<Longrightarrow> grows w w'"
  by (cases "(profile, a, (pc, w))" rule: run_step.cases)
    (auto simp: run_defs grows_def svc_of_def dest: stop_session_live(3) stop_session_calls split: run_splits)

lemma stop_grows:
  "stop_step a (pc, w) = (pc', w') \<Longrightarrow> grows w w' \<and>
     (\<forall>p cfg. Start_proxy p cfg \<in> set (calls w') \<longrightarrow> Start_proxy p cfg \<in> set (calls w))"
  by (cases "(a, (pc, w))" rule: stop_step.cases)
    (auto simp: run_defs stopping_step_def grows_def svc_of_def dest: stop_session_live(3) stop_session_calls
      split: run_splits)

lemma drop_grows: "drop_step a (d, w) = (d', w') \<Longrightarrow> grows w w' \<and> calls w' = calls w"
  by (cases "(a, (d, w))" rule: drop_step.cases)
    (auto simp: emit_one_def grows_def svc_of_def dest: stop_session_live(3) stop_session_calls split: run_splits)

lemma Resolve_pinned: "Resolve quote factory p r = (Inr target, r') \<Longrightarrow> pr_Target p \<noteq> [] \<Longrightarrow> target = pr_Target p"
  by (simp add: Resolve_def)

lemma run_wired:
  assumes "wired profile pc w" and "run_step profile a (pc, w) = (pc', w')"
  shows "wired profile pc' w'"
  using assms
  by (cases "(profile, a, (pc, w))" rule: run_step.cases)
    (auto simp: run_defs svc_of_def session_for_def session_params_def dest: Resolve_pinned
      intro: wired_grows [unfolded grows_def] split: run_splits)

lemma run_new_proxy:
  assumes "wired profile pc w" and "run_step profile a (pc, w) = (pc', w')"
    and "Start_proxy p cfg \<in> set (calls w')" and "Start_proxy p cfg \<notin> set (calls w)"
  shows "proxy_wired cfg profile w'"
proof (cases "\<exists>i port k. pc = R_start_proxy i port k")
  case True
  then obtain i port k where pc: "pc = R_start_proxy i port k" by blast
  then have "cfg = proxy_config profile (si w) i port"
    using assms(2-4) by (auto simp: start_proxy_step_def log_call_def split: option.splits)
  then show ?thesis
    using wired_start_proxy assms(1) pc proxy_wired_grows run_grows [OF assms(2)] by blast
next
  case False
  then show ?thesis
    using assms
    by (cases "(profile, a, (pc, w))" rule: run_step.cases)
      (auto simp: run_defs dest: stop_session_calls split: run_splits)
qed

definition wiring :: "Profile \<Rightarrow> system \<Rightarrow> bool" where
  "wiring profile s \<longleftrightarrow> wired profile (rt s) (sh s) \<and> all_wired profile (sh s)"

lemma wiring_frame:
  assumes "wiring profile s" and "rt s' = rt s" and "grows (sh s) (sh s')"
    and "\<And>p cfg. Start_proxy p cfg \<in> set (calls (sh s')) \<Longrightarrow> Start_proxy p cfg \<in> set (calls (sh s))"
  shows "wiring profile s'"
  using assms wired_grows proxy_wired_grows unfolding wiring_def all_wired_def by metis

lemma wiring_reachable: "reachable profile s \<Longrightarrow> wiring profile s"
proof (induction rule: reachable.induct)
  case (init s)
  then show ?case by (auto simp: initial_def wiring_def all_wired_def)
next
  case (more s s')
  from more.hyps(2) show ?case
  proof (cases rule: step.cases)
    case (runner a pc w)
    then show ?thesis
      using run_wired [OF _ runner(3)] run_new_proxy [OF _ runner(3)] run_grows [OF runner(3)]
        proxy_wired_grows more.IH unfolding wiring_def all_wired_def by fastforce
  next
    case (stopper i a pc w)
    then show ?thesis using stop_grows [OF stopper(3)] by (intro wiring_frame [OF more.IH]) auto
  next
    case (dropper i a pc w)
    then show ?thesis using drop_grows [OF dropper(3)] by (intro wiring_frame [OF more.IH]) auto
  qed (use more.IH in \<open>auto simp: grows_def svc_of_def intro!: wiring_frame [OF more.IH]\<close>)
qed

text \<open>
  C5: traffic goes where the name says. Every proxy the loop ever starts listens on the service's
  port at an address the service's DNS name was registered with before, forwards to the local port
  of a session started before it towards the service's remote host and port with the profile's
  credentials, and that session's target is the pinned one when the profile pins one.
\<close>

theorem connection_wired:
  assumes "reachable profile s" and "Start_proxy p cfg \<in> set (calls (sh s))"
  shows "\<exists>i k params. DNS_Add (DNSName (si_service (si (sh s)))) i \<in> set (calls (sh s)) \<and>
    Start_session k params \<in> set (calls (sh s)) \<and>
    ListenAddr cfg = ip_text i @ '':'' @ show_int (LocalPort (si_service (si (sh s)))) \<and>
    TargetAddr cfg = ''127.0.0.1:'' @ show_int (sp_LocalPort params) \<and>
    sp_RemoteHost params = RemoteHost (si_service (si (sh s))) \<and>
    sp_RemotePort params = RemotePort (si_service (si (sh s))) \<and> RealHost cfg = sp_RemoteHost params \<and>
    sp_AWSProfile params = AWSProfile profile \<and> sp_AWSRegion params = AWSRegion profile \<and>
    (pr_Target profile \<noteq> [] \<longrightarrow> sp_Target params = pr_Target profile)"
proof -
  have "proxy_wired cfg profile (sh s)"
    using wiring_reachable [OF assms(1)] assms(2) by (auto simp: wiring_def all_wired_def)
  then show ?thesis unfolding proxy_wired_def session_for_def svc_of_def by fastforce
qed

theorem connection_wired_witness:
  "\<exists>s p cfg k params. reachable pinned s \<and> Start_proxy p cfg \<in> set (calls (sh s)) \<and>
    Start_session k params \<in> set (calls (sh s)) \<and> sp_Target params = ''i-1'' \<and>
    TargetAddr cfg = ''127.0.0.1:'' @ show_int (sp_LocalPort params)"
proof -
  obtain s p cfg where s: "reachable pinned s" "Start_proxy p cfg \<in> set (calls (sh s))"
    using sample_session_ended by blast
  moreover have "pr_Target pinned = ''i-1''" by simp
  ultimately show ?thesis using connection_wired [OF s] by fastforce
qed

end
