(* ===== verification/Engine.thy ===== *)
theory Engine
  imports Service_Loop
begin

text \<open>
  The engine as a whole, \<open>internal/engine/engine.go\<close>: \<open>New\<close>, \<open>resolveTargets\<close>, \<open>Start\<close>, \<open>Stop\<close> around
  its \<open>stopService\<close> calls, \<open>Status\<close>, \<open>DropSessions\<close> up to the stops, \<open>newBackoff\<close>. An instance is an
  object behind a pointer: \<open>objs\<close> is the heap of instances and the map holds indices into it, so
  that two instances for one key can be told apart. \<open>Start\<close> is a program counter with one step per
  section under a lock, because several \<open>Start\<close> and \<open>Stop\<close> calls may run at once (the daemon serves
  each connection in a goroutine of its own).
\<close>

record Engine =
  e_cfg :: Config
  e_ips :: Allocator
  instances :: "(string \<times> nat) list"
  objs :: "serviceInstance list"
  running :: "nat list"
  e_emitted :: "event list"
  e_calls :: "port_call list"

definition New :: "Config \<Rightarrow> Engine" where
  "New cfg = \<lparr>e_cfg = cfg, e_ips = alloc_New, instances = [], objs = [], running = [], e_emitted = [],
     e_calls = []\<rparr>"

definition newBackoff :: "Config \<Rightarrow> Backoff" where
  "newBackoff cfg =
     (let b = NewBackoff; secs = MaxBackoffSeconds (Reconnect (cfg_Defaults cfg))
      in if secs > 0 then b\<lparr>MaxDelay := wrap64 (secs * second)\<rparr> else b)"

section \<open>Selectors\<close>

datatype engine_error =
    Unknown_profile string
  | Unknown_service string
  | Allocating_IP string alloc_error

type_synonym target = "string \<times> Service"

fun resolveTargets :: "(string \<times> Profile) list \<Rightarrow> string list \<Rightarrow> engine_error + target list" where
  "resolveTargets profiles [] = Inr []"
| "resolveTargets profiles (sel # sels) =
     (case Cut sel (CHR ''/'') of (profileName, serviceName, hasService) \<Rightarrow>
       (case map_of profiles profileName of
          None \<Rightarrow> Inl (Unknown_profile profileName)
        | Some profile \<Rightarrow>
            let found = (if \<not> hasService then Some (Services profile)
                         else map_option (\<lambda>svc. [svc]) (find (\<lambda>svc. Name svc = serviceName) (Services profile)))
            in case found of
                None \<Rightarrow> Inl (Unknown_service sel)
              | Some svcs \<Rightarrow>
                  (case resolveTargets profiles sels of
                     Inl err \<Rightarrow> Inl err
                   | Inr out \<Rightarrow> Inr (map (Pair profileName) svcs @ out))))"

section \<open>Starting\<close>

datatype starter =
    ST_targets "target list"
  | ST_allocate target "target list"
  | ST_store target "target list" ip
  | ST_launch nat "target list"
  | ST_finished "engine_error option"

definition target_key :: "target \<Rightarrow> string" where
  "target_key t = service_key (fst t) (snd t)"

fun start_step :: "instant \<Rightarrow> starter \<times> Engine \<Rightarrow> starter \<times> Engine" where
  "start_step now (ST_targets [], e) = (ST_finished None, e)"
| "start_step now (ST_targets (t # ts), e) =
     (if target_key t \<in> set (keys (instances e))
      then (ST_targets ts,
            e\<lparr>e_emitted := e_emitted e @ [LogEntry Warn Already_running (fst t) (Name (snd t)) now]\<rparr>)
      else (ST_allocate t ts, e))"
| "start_step now (ST_allocate t ts, e) =
     (case Allocate (target_key t) (e_ips e) of
        (Inl err, a) \<Rightarrow> (ST_finished (Some (Allocating_IP (target_key t) err)), e\<lparr>e_ips := a\<rparr>)
      | (Inr i, a) \<Rightarrow> (ST_store t ts i, e\<lparr>e_ips := a\<rparr>))"
| "start_step now (ST_store t ts i, e) =
     (let si = new_instance (fst t) (snd t) (newBackoff (e_cfg e)) i; n = length (objs e)
      in (ST_launch n ts,
          e\<lparr>instances := map_put (target_key t) n (instances e), objs := objs e @ [si]\<rparr>))"
| "start_step now (ST_launch n ts, e) =
     (ST_targets ts,
      e\<lparr>objs := (objs e)[n := (objs e ! n)\<lparr>si_cancel := True\<rparr>], running := running e @ [n]\<rparr>)"
| "start_step now (ST_finished err, e) = (ST_finished err, e)"

fun start_left :: "starter \<Rightarrow> nat" where
  "start_left (ST_targets ts) = Suc (4 * length ts)"
| "start_left (ST_allocate t ts) = 4 + 4 * length ts"
| "start_left (ST_store t ts i) = 3 + 4 * length ts"
| "start_left (ST_launch n ts) = 2 + 4 * length ts"
| "start_left (ST_finished err) = 0"

lemma start_step_left:
  "(\<And>err. pc \<noteq> ST_finished err) \<Longrightarrow> start_left (fst (start_step now (pc, e))) < start_left pc"
  by (cases "(now, (pc, e))" rule: start_step.cases) (auto simp: Let_def split: prod.splits sum.splits)

text \<open>A \<open>Start\<close> that runs undisturbed.\<close>

function start_run :: "instant \<Rightarrow> starter \<times> Engine \<Rightarrow> engine_error option \<times> Engine" where
  "start_run now (pc, e) =
     (case pc of ST_finished err \<Rightarrow> (err, e) | _ \<Rightarrow> start_run now (start_step now (pc, e)))"
  by pat_completeness auto

termination
  by (relation "measure (\<lambda>(now, pc, e). start_left pc)"; unfold in_measure split_beta;
      simp del: start_step.simps start_left.simps add: start_step_left)

declare start_run.simps [simp del]

definition engine_Start :: "instant \<Rightarrow> string list \<Rightarrow> Engine \<Rightarrow> engine_error option \<times> Engine" where
  "engine_Start now selectors e =
     (case resolveTargets (Profiles (e_cfg e)) selectors of
        Inl err \<Rightarrow> (Some err, e)
      | Inr targets \<Rightarrow> start_run now (ST_targets targets, e))"

section \<open>Stopping\<close>

text \<open>
  \<open>Stop\<close> up to the \<open>stopService\<close> calls: the keys wanted and the instances found, in the order of
  the loop over the map.
\<close>

definition Stop_begin :: "string list \<Rightarrow> Engine \<Rightarrow> engine_error + nat list" where
  "Stop_begin selectors e =
     (if selectors = [] then Inr (map snd (instances e))
      else case resolveTargets (Profiles (e_cfg e)) selectors of
          Inl err \<Rightarrow> Inl err
        | Inr targets \<Rightarrow>
            Inr (map snd (filter (\<lambda>(key, n). key \<in> target_key ` set targets) (instances e))))"

text \<open>\<open>si.cancel()\<close> of an instance whose \<open>cancel\<close> is still nil panics.\<close>

definition stop_panics :: "nat list \<Rightarrow> Engine \<Rightarrow> bool" where
  "stop_panics toStop e \<longleftrightarrow> (\<exists>n\<in>set toStop. \<not> si_cancel (objs e ! n))"

definition obj_key :: "Engine \<Rightarrow> nat \<Rightarrow> string" where
  "obj_key e n = service_key (si_profile (objs e ! n)) (si_service (objs e ! n))"

text \<open>What \<open>Stop\<close> does once they have all returned: addresses and map entries, DNS, ProfileDone.\<close>

fun release_stopped :: "nat list \<Rightarrow> Engine \<Rightarrow> port_call list \<times> Engine" where
  "release_stopped [] e = ([], e)"
| "release_stopped (n # ns) e =
     (let key = obj_key e n;
          (r, a) = Allocate key (e_ips e);
          entry = DNS_Remove (DNSName (si_service (objs e ! n))) (case r of Inr i \<Rightarrow> Some i | Inl _ \<Rightarrow> None);
          (entries, e') = release_stopped ns
            (e\<lparr>e_ips := alloc_Release key a, instances := map_del key (instances e)\<rparr>)
      in (entry # entries, e'))"

definition doneProfiles :: "nat list \<Rightarrow> Engine \<Rightarrow> string list" where
  "doneProfiles toStop e =
     filter (\<lambda>p. p \<notin> (\<lambda>n. si_profile (objs e ! n)) ` set (map snd (instances e)))
       (remdups (map (\<lambda>n. si_profile (objs e ! n)) toStop))"

definition Stop_end :: "instant \<Rightarrow> go_error option \<Rightarrow> nat list \<Rightarrow> Engine \<Rightarrow> Engine" where
  "Stop_end now dns_err toStop e =
     (let (entries, e) = release_stopped toStop e;
          e = (if entries = [] then e
               else case dns_err of
                   None \<Rightarrow> e\<lparr>e_calls := e_calls e @ entries\<rparr>
                 | Some err \<Rightarrow>
                     e\<lparr>e_emitted := e_emitted e @ [LogEntry log_level.Error (Failed_to_remove_DNS err) [] [] now]\<rparr>)
      in e\<lparr>e_emitted := e_emitted e @ map (\<lambda>p. ProfileDone p now) (doneProfiles toStop e)\<rparr>)"

section \<open>Status and dropped sessions\<close>

definition Status :: "Engine \<Rightarrow> ServiceStatus list" where
  "Status e = map (\<lambda>(key, n). status_of (objs e ! n)) (instances e)"

text \<open>The sessions \<open>DropSessions\<close> stops, and the log line it ends with.\<close>

definition dropped :: "Engine \<Rightarrow> (nat \<times> nat) list" where
  "dropped e = List.map_filter
     (\<lambda>(key, n). let s = objs e ! n in
        if si_state s = Connected then map_option (Pair n) (si_session s) else None) (instances e)"

definition DropSessions_log :: "instant \<Rightarrow> string \<Rightarrow> Engine \<Rightarrow> event" where
  "DropSessions_log now reason e = LogEntry Info (Dropped_sessions reason (length (dropped e))) [] [] now"

end
