(* ===== verification/Engine_Theorems.thy ===== *)
theory Engine_Theorems
  imports Engine
begin

text \<open>
  Properties of \<open>Engine\<close>: selectors, the invariant that ties instances, heap and addresses together,
  what \<open>Start\<close> and \<open>Stop\<close> change, and what two of them can do to each other.
\<close>

section \<open>Selectors\<close>

lemma resolveTargets_append:
  "resolveTargets ps (xs @ ys) =
     (case resolveTargets ps xs of
        Inl err \<Rightarrow> Inl err
      | Inr out \<Rightarrow> (case resolveTargets ps ys of Inl err \<Rightarrow> Inl err | Inr out' \<Rightarrow> Inr (out @ out')))"
  by (induction ps xs rule: resolveTargets.induct)
    (auto simp: Let_def split: prod.splits option.splits sum.splits if_splits)

lemma resolve_profile:
  assumes "CHR ''/'' \<notin> set p" and "map_of ps p = Some profile"
  shows "resolveTargets ps [p] = Inr (map (Pair p) (Services profile))"
  using assms by (simp add: Cut_absent)

lemma find_named: "distinct (map Name svcs) \<Longrightarrow> svc \<in> set svcs \<Longrightarrow> find (\<lambda>s. Name s = Name svc) svcs = Some svc"
  by (induction svcs) (auto simp: image_iff)

lemma resolve_service:
  assumes "CHR ''/'' \<notin> set p" and "map_of ps p = Some profile" and "distinct (map Name (Services profile))"
    and "svc \<in> set (Services profile)"
  shows "resolveTargets ps [service_key p svc] = Inr [(p, svc)]"
  using assms Cut_append [OF assms(1), of "Name svc"] find_named [OF assms(3,4)]
  by (simp add: service_key_def)

lemma resolve_configured:
  "resolveTargets ps sels = Inr targets \<Longrightarrow> (p, svc) \<in> set targets \<Longrightarrow>
     CHR ''/'' \<notin> set p \<and> (\<exists>profile. map_of ps p = Some profile \<and> svc \<in> set (Services profile))"
proof (induction sels arbitrary: targets)
  case (Cons sel sels)
  obtain b a f where c: "Cut sel (CHR ''/'') = (b, a, f)" by (cases "Cut sel (CHR ''/'')")
  have b: "CHR ''/'' \<notin> set b"
    using c Cut_found [of sel "CHR ''/''" b a] Cut_not_found [of sel "CHR ''/''" b a] by (cases f) auto
  obtain profile where profile: "map_of ps b = Some profile"
    using Cons.prems(1) c by (auto split: option.splits)
  obtain svcs out where out: "targets = map (Pair b) svcs @ out" "resolveTargets ps sels = Inr out"
    "(if \<not> f then Some (Services profile)
      else map_option (\<lambda>svc. [svc]) (find (\<lambda>svc. Name svc = a) (Services profile))) = Some svcs"
    using Cons.prems(1) c profile
    by (simp only: resolveTargets.simps prod.case option.case Let_def split: option.splits sum.splits) auto
  have "set svcs \<subseteq> set (Services profile)"
    using out(3) by (auto simp: find_Some_iff split: if_splits)
  show ?case
  proof (cases "(p, svc) \<in> set out")
    case True
    then show ?thesis by (rule Cons.IH [OF out(2)])
  next
    case False
    then show ?thesis using Cons.prems(2) out(1) b profile \<open>set svcs \<subseteq> set (Services profile)\<close> by auto
  qed
qed simp

text \<open>
  selectors. In a profile map whose names contain no slash the selector of a profile stands
  for exactly its services in order, the key of a configured service for exactly that service, and a
  list of selectors for the concatenation. No selector, whatever its text, leads to anything that
  is not configured, and none can name a profile whose name contains a slash.
\<close>

lemma selectors_resolve:
  assumes "CHR ''/'' \<notin> set p" and "map_of ps p = Some profile" and "distinct (map Name (Services profile))"
    and "svc \<in> set (Services profile)" and "resolveTargets ps sels = Inr targets"
  shows "resolveTargets ps (p # sels) = Inr (map (Pair p) (Services profile) @ targets) \<and>
    resolveTargets ps (service_key p svc # sels) = Inr ((p, svc) # targets) \<and>
    (\<forall>(q, s)\<in>set targets. CHR ''/'' \<notin> set q \<and> (\<exists>pr. map_of ps q = Some pr \<and> s \<in> set (Services pr)))"
  using resolveTargets_append [of ps "[p]" sels] resolveTargets_append [of ps "[service_key p svc]" sels]
    resolve_profile [OF assms(1,2)] resolve_service [OF assms(1-4)] assms(5) resolve_configured [OF assms(5)]
  by auto

lemma selectors_resolve_witness:
  "resolveTargets two_profiles [''dev/os'', ''prod''] =
     Inr [(''dev'', sample_service ''os''), (''prod'', sample_service ''web'')]"
proof -
  have prod: "resolveTargets two_profiles [''prod''] = Inr [(''prod'', sample_service ''web'')]" by code_simp
  have key: "service_key ''dev'' (sample_service ''os'') = ''dev/os''" by code_simp
  show ?thesis
    using selectors_resolve [of "''dev''" two_profiles "sample_profile [sample_service ''db'', sample_service ''os'']"
        "sample_service ''os''" "[''prod'']", OF _ _ _ _ prod]
    by (simp add: key) (simp add: two_profiles_def sample_profile_def sample_service_def)
qed

text \<open>
  What a list of selectors names, said without the resolver: a service of a configured profile, by
  the profile's name or by its own \<open>profile/service\<close>. No selector at all names every service.
\<close>

definition named :: "(string \<times> Profile) list \<Rightarrow> string list \<Rightarrow> string \<Rightarrow> bool" where
  "named ps sels key \<longleftrightarrow>
     (\<exists>p\<in>set (keys ps). CHR ''/'' \<notin> set p \<and>
        (\<exists>svc\<in>set (Services (the (map_of ps p))). key = service_key p svc \<and> (p \<in> set sels \<or> key \<in> set sels)))"

definition selected :: "Config \<Rightarrow> string list \<Rightarrow> string \<Rightarrow> bool" where
  "selected cfg sels key \<longleftrightarrow> sels = [] \<or> named (Profiles cfg) sels key"

lemma named_Cons: "named ps (sel # sels) key \<longleftrightarrow> named ps [sel] key \<or> named ps sels key"
  by (auto simp: named_def)

lemma named_profile:
  assumes "CHR ''/'' \<notin> set sel" and "map_of ps sel = Some profile"
  shows "named ps [sel] key \<longleftrightarrow> key \<in> service_key sel ` set (Services profile)"
proof -
  have "service_key q svc \<noteq> sel" for q svc using assms(1) by (auto simp: service_key_def)
  moreover have "sel \<in> set (keys ps)" using assms(2) by (force simp: keys_def dest: map_of_SomeD)
  ultimately show ?thesis using assms by (auto simp: named_def)
qed

lemma named_service:
  assumes "CHR ''/'' \<notin> set p" and "map_of ps p = Some profile"
    and "find (\<lambda>svc. Name svc = a) (Services profile) = Some svc"
  shows "named ps [p @ CHR ''/'' # a] key \<longleftrightarrow> key = service_key p svc"
proof -
  have p: "p \<in> set (keys ps)" using assms(2) by (force simp: keys_def dest: map_of_SomeD)
  have svc: "svc \<in> set (Services profile)" "Name svc = a" using assms(3) by (auto simp: find_Some_iff)
  have "named ps [p @ CHR ''/'' # a] (service_key p svc)"
    unfolding named_def using assms(1,2) p svc by (intro bexI [of _ p] conjI bexI [of _ svc]) (auto simp: service_key_def)
  moreover have "q @ CHR ''/'' # b \<noteq> p" for q b using assms(1) by auto
  ultimately show ?thesis using svc assms(1) by (auto simp: named_def service_key_def)
qed

lemma resolved_named:
  "resolveTargets ps sels = Inr targets \<Longrightarrow> key \<in> target_key ` set targets \<longleftrightarrow> named ps sels key"
proof (induction sels arbitrary: targets)
  case Nil
  then show ?case by (simp add: named_def)
next
  case (Cons sel sels)
  obtain b a f where c: "Cut sel (CHR ''/'') = (b, a, f)" by (cases "Cut sel (CHR ''/'')")
  obtain profile where profile: "map_of ps b = Some profile"
    using Cons.prems c by (auto split: option.splits)
  obtain svcs out where out: "targets = map (Pair b) svcs @ out" "resolveTargets ps sels = Inr out"
    "(if \<not> f then Some (Services profile)
      else map_option (\<lambda>svc. [svc]) (find (\<lambda>svc. Name svc = a) (Services profile))) = Some svcs"
    using Cons.prems c profile
    by (simp only: resolveTargets.simps prod.case option.case Let_def split: option.splits sum.splits) auto
  have "key \<in> service_key b ` set svcs \<longleftrightarrow> named ps [sel] key"
  proof (cases f)
    case True
    then obtain svc where svc: "find (\<lambda>svc. Name svc = a) (Services profile) = Some svc" "svcs = [svc]"
      using out(3) by auto
    have "sel = b @ CHR ''/'' # a" "CHR ''/'' \<notin> set b" using c True Cut_found by auto
    then show ?thesis using named_service [OF _ profile svc(1)] svc(2) by auto
  next
    case False
    then have "sel = b" "CHR ''/'' \<notin> set sel" "svcs = Services profile"
      using c out(3) Cut_not_found by auto
    then show ?thesis using named_profile [of sel ps profile key] profile by simp
  qed
  then show ?case
    unfolding named_Cons [of ps sel sels] Cons.IH [OF out(2), symmetric]
    by (force simp: out(1) target_key_def)
qed

section \<open>The invariant\<close>

definition inst_ok :: "Engine \<Rightarrow> string \<Rightarrow> nat \<Rightarrow> bool" where
  "inst_ok e key n \<longleftrightarrow> n < length (objs e) \<and> obj_key e n = key \<and> si_cancel (objs e ! n) \<and> n \<in> set (running e) \<and>
     (\<exists>i. alloc_addr (e_ips e) key = Some i \<and> si_localIP (objs e ! n) = ip_String i)"

definition engine_ok :: "Engine \<Rightarrow> bool" where
  "engine_ok e \<longleftrightarrow> alloc_ok (e_ips e) \<and> distinct (keys (instances e)) \<and>
     (\<forall>(key, n)\<in>set (instances e). inst_ok e key n) \<and>
     dom (alloc_addr (e_ips e)) = set (keys (instances e))"

lemma engine_ok_New [simp]: "engine_ok (New cfg)"
  by (auto simp: engine_ok_def New_def alloc_addr_def alloc_New_def owner_octet_def alloc_ok_New [unfolded alloc_New_def])

text \<open>One target of an undisturbed \<open>Start\<close>.\<close>

definition launched :: "target \<Rightarrow> ip \<Rightarrow> Allocator \<Rightarrow> Engine \<Rightarrow> Engine" where
  "launched t i a e =
     e\<lparr>e_ips := a, instances := map_put (target_key t) (length (objs e)) (instances e),
       objs := objs e @ [(new_instance (fst t) (snd t) (newBackoff (e_cfg e)) i)\<lparr>si_cancel := True\<rparr>],
       running := running e @ [length (objs e)]\<rparr>"

lemma start_run_targets:
  "start_run now (ST_targets [], e) = (None, e)"
  "start_run now (ST_targets (t # ts), e) =
     (if target_key t \<in> set (keys (instances e))
      then start_run now (ST_targets ts,
             e\<lparr>e_emitted := e_emitted e @ [LogEntry Warn Already_running (fst t) (Name (snd t)) now]\<rparr>)
      else case Allocate (target_key t) (e_ips e) of
          (Inl err, a) \<Rightarrow> (Some (Allocating_IP (target_key t) err), e\<lparr>e_ips := a\<rparr>)
        | (Inr i, a) \<Rightarrow> start_run now (ST_targets ts, launched t i a e))"
proof -
  show "start_run now (ST_targets [], e) = (None, e)"
    by (simp add: start_run.simps)
  have launch: "start_run now (ST_store t ts i, e) = start_run now (ST_targets ts, launched t i (e_ips e) e)" for i e
    by (simp add: start_run.simps [of _ "ST_store _ _ _"] start_run.simps [of _ "ST_launch _ _"] Let_def launched_def)
  show "start_run now (ST_targets (t # ts), e) =
     (if target_key t \<in> set (keys (instances e))
      then start_run now (ST_targets ts,
             e\<lparr>e_emitted := e_emitted e @ [LogEntry Warn Already_running (fst t) (Name (snd t)) now]\<rparr>)
      else case Allocate (target_key t) (e_ips e) of
          (Inl err, a) \<Rightarrow> (Some (Allocating_IP (target_key t) err), e\<lparr>e_ips := a\<rparr>)
        | (Inr i, a) \<Rightarrow> start_run now (ST_targets ts, launched t i a e))"
    by (auto simp: start_run.simps [of _ "ST_targets (_ # _)"] start_run.simps [of _ "ST_allocate _ _"]
        start_run.simps [of _ "ST_finished _"] launch launched_def split: prod.splits sum.splits)
qed

lemma launched_ok:
  assumes "engine_ok e" and new: "target_key t \<notin> set (keys (instances e))"
    and alloc: "Allocate (target_key t) (e_ips e) = (Inr i, a)"
  shows "engine_ok (launched t i a e)"
proof -
  have ok: "alloc_ok (e_ips e)" using assms(1) by (simp add: engine_ok_def)
  have none: "alloc_addr (e_ips e) (target_key t) = None"
    using assms(1) new by (auto simp: engine_ok_def)
  have a: "alloc_addr a = (alloc_addr (e_ips e))(target_key t \<mapsto> i)"
    using ipp.allocate_new [OF ok none alloc] by simp
  have "inst_ok (launched t i a e) key n" if "(key, n) \<in> set (instances e)" for key n
  proof -
    have "key \<noteq> target_key t" using that new by (force simp: keys_def)
    moreover have "inst_ok e key n" using that assms(1) by (auto simp: engine_ok_def)
    ultimately show ?thesis using a by (auto simp: inst_ok_def launched_def obj_key_def nth_append)
  qed
  moreover have "inst_ok (launched t i a e) (target_key t) (length (objs e))"
    by (simp add: inst_ok_def launched_def obj_key_def a new_instance_def target_key_def)
  ultimately show ?thesis
    using assms(1) new alloc_ok_Allocate [OF ok, of "target_key t"] alloc a
    by (auto simp: engine_ok_def launched_def keys_map_put_new set_keys_map_put)
qed

section \<open>Start\<close>

text \<open>What a \<open>Start\<close> may change: it adds instances, and touches none that is there.\<close>

definition extends :: "Engine \<Rightarrow> Engine \<Rightarrow> bool" where
  "extends e e' \<longleftrightarrow> e_cfg e' = e_cfg e \<and> prefix (objs e) (objs e') \<and> prefix (running e) (running e') \<and>
     (\<forall>key n. map_of (instances e) key = Some n \<longrightarrow> map_of (instances e') key = Some n \<and>
        alloc_addr (e_ips e') key = alloc_addr (e_ips e) key)"

lemma extends_refl: "extends e e"
  by (simp add: extends_def)

lemma extends_trans:
  assumes "extends e1 e2" and "extends e2 e3"
  shows "extends e1 e3"
  using assms prefix_order.trans unfolding extends_def by metis

lemma launched_extends:
  assumes "engine_ok e" and new: "target_key t \<notin> set (keys (instances e))"
    and alloc: "Allocate (target_key t) (e_ips e) = (Inr i, a)"
  shows "extends e (launched t i a e)"
proof -
  have ok: "alloc_ok (e_ips e)" using assms(1) by (simp add: engine_ok_def)
  have none: "alloc_addr (e_ips e) (target_key t) = None"
    using assms(1) new by (auto simp: engine_ok_def)
  have "alloc_addr a = (alloc_addr (e_ips e))(target_key t \<mapsto> i)"
    using ipp.allocate_new [OF ok none alloc] by simp
  then show ?thesis
    using new map_of_Some_keys by (fastforce simp: extends_def launched_def)
qed

lemma start_run_ok:
  assumes "engine_ok e" and "start_run now (ST_targets ts, e) = (err, e')"
  shows "engine_ok e' \<and> extends e e' \<and>
    (err = None \<longrightarrow> set (keys (instances e')) = set (keys (instances e)) \<union> target_key ` set ts) \<and>
    (err \<noteq> None \<longrightarrow> (\<exists>t\<in>set ts. err = Some (Allocating_IP (target_key t) Range_exhausted) \<and>
       253 \<le> length (assigned (e_ips e'))))"
  using assms
proof (induction ts arbitrary: e)
  case Nil
  then show ?case by (simp add: start_run_targets extends_refl)
next
  case (Cons t ts)
  show ?case
  proof (cases "target_key t \<in> set (keys (instances e))")
    case True
    let ?e = "e\<lparr>e_emitted := e_emitted e @ [LogEntry Warn Already_running (fst t) (Name (snd t)) now]\<rparr>"
    have "engine_ok ?e" using Cons.prems(1) by (simp add: engine_ok_def inst_ok_def obj_key_def)
    moreover have "extends e ?e" by (simp add: extends_def)
    ultimately show ?thesis
      using Cons.IH [of ?e] Cons.prems(2) True extends_trans [of e ?e e'] by (auto simp: start_run_targets)
  next
    case False
    have ok: "alloc_ok (e_ips e)" using Cons.prems(1) by (simp add: engine_ok_def)
    show ?thesis
    proof (cases "Allocate (target_key t) (e_ips e)")
      case (Pair r a)
      show ?thesis
      proof (cases r)
        case (Inl err')
        have "a = e_ips e \<and> err' = Range_exhausted \<and> 253 \<le> length (assigned (e_ips e))"
          using Pair Inl by (cases rule: Allocate_cases [OF ok, of "target_key t"]) auto
        then show ?thesis
          using Cons.prems False Pair Inl by (auto simp: start_run_targets extends_refl)
      next
        case (Inr i)
        note al = Pair [unfolded Inr]
        note step = launched_ok [OF Cons.prems(1) False al]
        have ext: "extends e (launched t i a e)" by (rule launched_extends [OF Cons.prems(1) False al])
        have keys: "set (keys (instances (launched t i a e))) = insert (target_key t) (set (keys (instances e)))"
          by (simp add: launched_def set_keys_map_put)
        have "start_run now (ST_targets ts, launched t i a e) = (err, e')"
          using Cons.prems(2) False al by (simp add: start_run_targets)
        from Cons.IH [OF step this] ext keys show ?thesis
          using extends_trans by (auto simp: keys)
      qed
    qed
  qed
qed

lemma engine_Start_ok:
  assumes "engine_ok e" and "engine_Start now selectors e = (err, e')"
  shows "engine_ok e' \<and>
    (\<forall>key n. map_of (instances e) key = Some n \<longrightarrow> map_of (instances e') key = Some n \<and>
       objs e' ! n = objs e ! n \<and> alloc_addr (e_ips e') key = alloc_addr (e_ips e) key) \<and>
    (case resolveTargets (Profiles (e_cfg e)) selectors of
       Inl err' \<Rightarrow> err = Some err' \<and> e' = e
     | Inr targets \<Rightarrow>
         (err = None \<and> set (keys (instances e')) = set (keys (instances e)) \<union> target_key ` set targets) \<or>
         (\<exists>t\<in>set targets. err = Some (Allocating_IP (target_key t) Range_exhausted) \<and>
            253 \<le> length (assigned (e_ips e'))))"
proof (cases "resolveTargets (Profiles (e_cfg e)) selectors")
  case (Inl err')
  then show ?thesis using assms by (simp add: engine_Start_def)
next
  case (Inr targets)
  then have run: "start_run now (ST_targets targets, e) = (err, e')"
    using assms(2) by (simp add: engine_Start_def)
  note r = start_run_ok [OF assms(1) run]
  have "objs e' ! n = objs e ! n" if "map_of (instances e) key = Some n" for key n
  proof -
    have "n < length (objs e)"
      using that assms(1) map_of_SomeD unfolding engine_ok_def inst_ok_def by fastforce
    then show ?thesis using r by (auto simp: extends_def prefix_def nth_append)
  qed
  then show ?thesis using r Inr by (auto simp: extends_def)
qed

text \<open>
  C11: \<open>Start\<close> is additive and keeps the engine consistent. From a consistent engine, with every
  instance launched, cancellable, keyed by its profile and service and owner of the loopback address
  it announces, and with no other address in use, it reaches a consistent engine in which every
  instance that was there is untouched and keeps its address. Without an error the instances are
  the old ones and the services selected; an unknown selector changes nothing at all; and the only
  other error is an address range with all 253 addresses taken.
\<close>

theorem start_is_additive:
  assumes "engine_ok e" and "engine_Start now selectors e = (err, e')"
  shows "engine_ok e' \<and>
    (\<forall>key n. map_of (instances e) key = Some n \<longrightarrow> map_of (instances e') key = Some n \<and>
       objs e' ! n = objs e ! n \<and> alloc_addr (e_ips e') key = alloc_addr (e_ips e) key) \<and>
    (case resolveTargets (Profiles (e_cfg e)) selectors of
       Inl err' \<Rightarrow> err = Some err' \<and> e' = e
     | Inr targets \<Rightarrow>
         (err = None \<and> set (keys (instances e')) = set (keys (instances e)) \<union> target_key ` set targets) \<or>
         (\<exists>t\<in>set targets. err = Some (Allocating_IP (target_key t) Range_exhausted) \<and>
            253 \<le> length (assigned (e_ips e'))))"
  using assms by (rule engine_Start_ok)

definition sample_engine :: Engine where
  "sample_engine = New (sample_config two_profiles)"

theorem start_is_additive_witness:
  "\<exists>e'. engine_Start 0 [''prod/web''] sample_engine = (None, e') \<and> engine_ok e' \<and>
    set (keys (instances e')) = {''prod/web''}"
proof -
  obtain err e' where r: "engine_Start 0 [''prod/web''] sample_engine = (err, e')" by fastforce
  have targets: "resolveTargets (Profiles (e_cfg sample_engine)) [''prod/web''] = Inr [(''prod'', sample_service ''web'')]"
    by (simp add: sample_engine_def New_def sample_config_def two_profiles_def sample_profile_def sample_service_def)
  have key: "target_key (''prod'', sample_service ''web'') = ''prod/web''"
    by (simp add: target_key_def service_key_def sample_service_def)
  have none: "keys (instances sample_engine) = []" by (simp add: sample_engine_def New_def)
  have ips: "e_ips sample_engine = alloc_New" by (simp add: sample_engine_def New_def)
  have "err = None"
  proof -
    obtain x a where "Allocate ''prod/web'' alloc_New = (Inr x, a)"
      by (rule Allocate_cases [OF alloc_ok_New, of "''prod/web''"]) (auto simp: alloc_New_def owner_octet_def)
    then have "fst (engine_Start 0 [''prod/web''] sample_engine) = None"
      using targets key none ips by (simp add: engine_Start_def start_run_targets)
    then show ?thesis using r by simp
  qed
  then show ?thesis
    using start_is_additive [OF _ r] r targets key none by (auto simp: sample_engine_def)
qed

text \<open>
  \<open>Start\<close> leaves a service alone as long as its instance exists, in whatever state it is. So it
  does not revive one that is Failed because the credentials expired: only a log entry says so, and
  the service has to be stopped first.
\<close>

lemma start_skips_existing:
  assumes "resolveTargets (Profiles (e_cfg e)) selectors = Inr targets"
    and "target_key ` set targets \<subseteq> set (keys (instances e))"
  shows "engine_Start now selectors e =
    (None, e\<lparr>e_emitted := e_emitted e @
       map (\<lambda>t. LogEntry Warn Already_running (fst t) (Name (snd t)) now) targets\<rparr>)"
proof -
  have "start_run now (ST_targets ts, e) = (None, e\<lparr>e_emitted := e_emitted e @
      map (\<lambda>t. LogEntry Warn Already_running (fst t) (Name (snd t)) now) ts\<rparr>)"
    if "target_key ` set ts \<subseteq> set (keys (instances e))" for ts
    using that by (induction ts arbitrary: e) (auto simp: start_run_targets)
  with assms show ?thesis by (simp add: engine_Start_def)
qed

lemma start_skips_existing_witness:
  "\<exists>e evt. map si_state (objs e) = [Failed] \<and>
     engine_Start 0 [''prod/web''] e = (None, e\<lparr>e_emitted := [evt]\<rparr>)"
proof -
  let ?e = "sample_engine\<lparr>instances := [(''prod/web'', 0)],
    objs := [(new_instance ''prod'' (sample_service ''web'') NewBackoff (loopback 9))\<lparr>si_state := Failed\<rparr>]\<rparr>"
  have targets: "resolveTargets (Profiles (e_cfg ?e)) [''prod/web''] = Inr [(''prod'', sample_service ''web'')]"
    by (simp add: sample_engine_def New_def sample_config_def two_profiles_def sample_profile_def sample_service_def)
  have "target_key ` set [(''prod'', sample_service ''web'')] \<subseteq> set (keys (instances ?e))"
    by (simp add: target_key_def service_key_def sample_service_def)
  from start_skips_existing [OF targets this, of 0] show ?thesis
    by (intro exI [of _ ?e]) (auto simp: sample_engine_def New_def)
qed

section \<open>Stop\<close>

text \<open>What the \<open>stopService\<close> calls between the two halves of \<open>Stop\<close> leave of the engine.\<close>

definition same_identity :: "serviceInstance \<Rightarrow> serviceInstance \<Rightarrow> bool" where
  "same_identity s s' \<longleftrightarrow> si_profile s' = si_profile s \<and> si_service s' = si_service s \<and>
     si_localIP s' = si_localIP s \<and> si_cancel s' = si_cancel s"

definition services_stopped :: "Engine \<Rightarrow> Engine \<Rightarrow> bool" where
  "services_stopped e e' \<longleftrightarrow> e_ips e' = e_ips e \<and> instances e' = instances e \<and> running e' = running e \<and>
     e_calls e' = e_calls e \<and> length (objs e') = length (objs e) \<and>
     (\<forall>n<length (objs e). same_identity (objs e ! n) (objs e' ! n))"

lemma services_stopped_ok:
  assumes "engine_ok e" and "services_stopped e e'"
  shows "engine_ok e'"
proof -
  have "inst_ok e' key n" if "(key, n) \<in> set (instances e)" for key n
    using that assms by (fastforce simp: engine_ok_def inst_ok_def services_stopped_def same_identity_def obj_key_def)
  then show ?thesis using assms by (auto simp: engine_ok_def services_stopped_def)
qed

lemma release_one:
  assumes "engine_ok e" and "(key, n) \<in> set (instances e)"
  shows "\<exists>i. Allocate key (e_ips e) = (Inr i, e_ips e) \<and> alloc_addr (e_ips e) key = Some i"
    and "engine_ok (e\<lparr>e_ips := alloc_Release key (e_ips e), instances := map_del key (instances e)\<rparr>)" (is "engine_ok ?e")
proof -
  have ok: "alloc_ok (e_ips e)" and inst: "inst_ok e key n" using assms by (auto simp: engine_ok_def)
  then obtain i where i: "alloc_addr (e_ips e) key = Some i" by (auto simp: inst_ok_def)
  then show "\<exists>i. Allocate key (e_ips e) = (Inr i, e_ips e) \<and> alloc_addr (e_ips e) key = Some i"
    using ipp.allocate_known [OF ok i] by blast
  have rel: "alloc_addr (alloc_Release key (e_ips e)) = (alloc_addr (e_ips e))(key := None)"
    by (rule ipp.release_addr [OF ok])
  have "inst_ok ?e key' n'" if "(key', n') \<in> set (map_del key (instances e))" for key' n'
  proof -
    have "key' \<noteq> key" "inst_ok e key' n'" using that assms(1) by (auto simp: map_del_def engine_ok_def)
    then show ?thesis by (simp add: inst_ok_def rel obj_key_def)
  qed
  then show "engine_ok ?e"
    using assms(1) ok by (auto simp: engine_ok_def rel keys_map_del alloc_ok_Release)
qed

definition removal :: "Engine \<Rightarrow> nat \<Rightarrow> port_call" where
  "removal e n = DNS_Remove (DNSName (si_service (objs e ! n))) (alloc_addr (e_ips e) (obj_key e n))"

lemma instances_by_key:
  assumes "engine_ok e" and "(key, n) \<in> set (instances e)" and "(key', n') \<in> set (instances e)"
  shows "key = key' \<longleftrightarrow> n = n'"
proof -
  have "obj_key e n = key" "obj_key e n' = key'" "distinct (keys (instances e))"
    using assms by (auto simp: engine_ok_def inst_ok_def)
  then show ?thesis using assms(2,3) map_of_in_set by (metis option.inject)
qed

lemma release_stopped_ok:
  assumes "engine_ok e" and "set ns \<subseteq> snd ` set (instances e)" and "distinct ns"
    and "release_stopped ns e = (entries, e')"
  shows "engine_ok e' \<and> instances e' = filter (\<lambda>(key, n). n \<notin> set ns) (instances e) \<and> objs e' = objs e \<and>
    e_emitted e' = e_emitted e \<and> e_calls e' = e_calls e \<and> entries = map (removal e) ns \<and>
    (\<forall>key\<in>set (keys (instances e')). alloc_addr (e_ips e') key = alloc_addr (e_ips e) key)"
  using assms
proof (induction ns arbitrary: e entries)
  case Nil
  then show ?case by simp
next
  case (Cons n ns)
  obtain key where key: "(key, n) \<in> set (instances e)" using Cons.prems(2) by auto
  then have k: "obj_key e n = key" using Cons.prems(1) by (auto simp: engine_ok_def inst_ok_def)
  obtain i where i: "Allocate key (e_ips e) = (Inr i, e_ips e)" "alloc_addr (e_ips e) key = Some i"
    using release_one(1) [OF Cons.prems(1) key] by blast
  let ?e = "e\<lparr>e_ips := alloc_Release key (e_ips e), instances := map_del key (instances e)\<rparr>"
  have ok: "engine_ok ?e" by (rule release_one(2) [OF Cons.prems(1) key])
  have del: "map_del key (instances e) = filter (\<lambda>(key', n'). n' \<noteq> n) (instances e)"
  proof -
    have "fst x \<noteq> key \<longleftrightarrow> snd x \<noteq> n" if "x \<in> set (instances e)" for x
      using instances_by_key [OF Cons.prems(1) key, of "fst x" "snd x"] that by auto
    then show ?thesis unfolding map_del_def by (intro filter_cong) (auto simp: split_beta)
  qed
  obtain entries' where r: "release_stopped ns ?e = (entries', e')" "entries = removal e n # entries'"
    using Cons.prems(4) i by (auto simp: k Let_def removal_def split: prod.splits)
  have sub: "set ns \<subseteq> snd ` set (instances ?e)"
    using Cons.prems(2,3) by (force simp: del)
  note IH = Cons.IH [OF ok sub _ r(1)]
  have addr: "alloc_addr (e_ips ?e) k' = (if k' = key then None else alloc_addr (e_ips e) k')" for k'
    using Cons.prems(1) ipp.release_addr by (auto simp: engine_ok_def)
  have other: "obj_key e m \<noteq> key" if "m \<in> set ns" for m
  proof -
    have "m \<in> snd ` set (instances e)" using that Cons.prems(2) by auto
    then obtain key' where "(key', m) \<in> set (instances e)" by auto
    then show ?thesis
      using instances_by_key [OF Cons.prems(1) key, of key' m] Cons.prems(1,3) that
      by (auto simp: engine_ok_def inst_ok_def)
  qed
  have "map (removal ?e) ns = map (removal e) ns"
    using other addr by (auto simp: removal_def obj_key_def)
  moreover have "key \<notin> set (keys (instances e'))"
    using IH Cons.prems(3) by (auto simp: keys_def del) (metis instances_by_key [OF Cons.prems(1) key])
  ultimately show ?case
    using IH Cons.prems(3) r(2) addr by (auto simp: del split_beta intro!: filter_cong)
qed

lemma Stop_begin_sub:
  assumes "engine_ok e" and "Stop_begin selectors e = Inr toStop"
  shows "set toStop \<subseteq> snd ` set (instances e) \<and> distinct toStop"
proof -
  have "distinct (map snd (instances e))"
  proof -
    have "x = y" if "x \<in> set (instances e)" "y \<in> set (instances e)" "snd x = snd y" for x y
      using instances_by_key [OF assms(1), of "fst x" "snd x" "fst y" "snd y"] that
      by (cases x; cases y) auto
    then have "inj_on snd (set (instances e))" by (intro inj_onI)
    moreover have "distinct (instances e)"
      using assms(1) by (auto simp: engine_ok_def keys_def distinct_map)
    ultimately show ?thesis by (simp add: distinct_map)
  qed
  then show ?thesis
    using assms(2) by (auto simp: Stop_begin_def distinct_map_filter split: if_splits sum.splits)
qed

lemma doneProfiles_iff:
  "p \<in> set (doneProfiles toStop e) \<longleftrightarrow> (\<exists>n\<in>set toStop. si_profile (objs e ! n) = p) \<and>
     (\<forall>(key, n)\<in>set (instances e). si_profile (objs e ! n) \<noteq> p)"
  by (auto simp: doneProfiles_def image_iff split_beta)

lemma doneProfiles_cong:
  "objs e' = objs e \<Longrightarrow> instances e' = instances e \<Longrightarrow> doneProfiles toStop e' = doneProfiles toStop e"
  by (simp add: doneProfiles_def)

lemma Stop_begin_selected:
  assumes "Stop_begin selectors e = Inr toStop"
  shows "toStop = map snd (filter (\<lambda>(key, n). selected (e_cfg e) selectors key) (instances e))"
proof (cases "selectors = []")
  case True
  then show ?thesis using assms by (simp add: Stop_begin_def selected_def)
next
  case False
  then obtain targets where t: "resolveTargets (Profiles (e_cfg e)) selectors = Inr targets"
    "toStop = map snd (filter (\<lambda>(key, n). key \<in> target_key ` set targets) (instances e))"
    using assms by (auto simp: Stop_begin_def split: sum.splits)
  then show ?thesis using False by (simp add: selected_def resolved_named [OF t(1)])
qed

lemma Stop_begin_fails:
  "Stop_begin selectors e = Inl err \<longleftrightarrow>
     selectors \<noteq> [] \<and> resolveTargets (Profiles (e_cfg e)) selectors = Inl err"
  by (auto simp: Stop_begin_def split: sum.splits)

lemma stopped_or_kept:
  assumes "engine_ok e" and "toStop = map snd (filter (\<lambda>(key, n). P key) (instances e))"
  shows "filter (\<lambda>(key, n). n \<notin> set toStop) (instances e) = filter (\<lambda>(key, n). \<not> P key) (instances e)"
proof -
  have "n \<in> set toStop \<longleftrightarrow> P key" if "(key, n) \<in> set (instances e)" for key n
    using instances_by_key [OF assms(1) that] that by (force simp: assms(2))
  then show ?thesis by (intro filter_cong) auto
qed

text \<open>
  The second part of \<open>Stop\<close> on a consistent engine. Without a DNS error the port has got the
  removals; with one it has changed nothing that counts here and a log entry says so.
\<close>

definition told_dns :: "Engine \<Rightarrow> go_error option \<Rightarrow> nat list \<Rightarrow> port_call list" where
  "told_dns e dns_err ns = (if dns_err = None then map (removal e) ns else [])"

definition dns_log :: "instant \<Rightarrow> go_error option \<Rightarrow> nat list \<Rightarrow> event list" where
  "dns_log now dns_err ns =
     (case dns_err of
        Some err \<Rightarrow> if ns = [] then [] else [LogEntry log_level.Error (Failed_to_remove_DNS err) [] [] now]
      | None \<Rightarrow> [])"

lemma Stop_end_effect:
  assumes "engine_ok e" and "set toStop \<subseteq> snd ` set (instances e)" and "distinct toStop"
    and "e2 = Stop_end now dns_err toStop e"
  shows "engine_ok e2 \<and> instances e2 = filter (\<lambda>(key, n). n \<notin> set toStop) (instances e) \<and> objs e2 = objs e \<and>
    (\<forall>key\<in>set (keys (instances e2)). alloc_addr (e_ips e2) key = alloc_addr (e_ips e) key) \<and>
    e_calls e2 = e_calls e @ told_dns e dns_err toStop \<and>
    e_emitted e2 = e_emitted e @ dns_log now dns_err toStop @
      map (\<lambda>p. ProfileDone p now) (doneProfiles toStop e2)"
proof -
  obtain entries e' where r: "release_stopped toStop e = (entries, e')" by fastforce
  note rel = release_stopped_ok [OF assms(1-3) r]
  have entries: "entries = map (removal e) toStop" using rel by simp
  have e2: "instances e2 = instances e'" "e_ips e2 = e_ips e'" "objs e2 = objs e'" "running e2 = running e'"
    "e_calls e2 = e_calls e' @ told_dns e dns_err toStop"
    "e_emitted e2 = e_emitted e' @ dns_log now dns_err toStop @
      map (\<lambda>p. ProfileDone p now) (doneProfiles toStop e')"
    unfolding assms(4) using r entries
    by (auto simp: Stop_end_def Let_def doneProfiles_def told_dns_def dns_log_def split: option.splits)
  have "engine_ok e2" using rel by (auto simp: engine_ok_def inst_ok_def obj_key_def e2)
  then show ?thesis using rel e2 doneProfiles_cong [OF e2(3,1)] by simp
qed

lemma services_stopped_identity:
  assumes "services_stopped e e1" and "n < length (objs e)"
  shows "si_profile (objs e1 ! n) = si_profile (objs e ! n)" "removal e1 n = removal e n"
  using assms by (auto simp: services_stopped_def same_identity_def removal_def obj_key_def)

text \<open>
  C10: \<open>Stop\<close> removes exactly what was selected. From a consistent engine whose configuration has the
  profiles and services the selectors name, \<open>Stop\<close> takes the instances selected and no other (named
  by their profile or by \<open>profile/service\<close>, or all of them when there is no selector) and no cancel
  function it calls is nil. Once the services have stopped, with no \<open>Start\<close> or \<open>Stop\<close> in between, the
  engine is consistent again: the selected instances and their addresses are gone and the others keep
  their place and address. The DNS port was told to remove each stopped name with the address it had;
  when it fails, an error entry in the log is all that changes. ProfileDone is emitted for exactly the
  profiles that lost their last instance. Without selectors nothing is left, not even an address in use.
\<close>

theorem stop_removes_selected:
  assumes "engine_ok e" and "Stop_begin selectors e = Inr toStop" and "services_stopped e e1"
    and "e2 = Stop_end now dns_err toStop e1"
  shows "toStop = map snd (filter (\<lambda>(key, n). selected (e_cfg e) selectors key) (instances e)) \<and>
    \<not> stop_panics toStop e \<and> engine_ok e2 \<and>
    instances e2 = filter (\<lambda>(key, n). \<not> selected (e_cfg e) selectors key) (instances e) \<and>
    (\<forall>key\<in>set (keys (instances e2)). alloc_addr (e_ips e2) key = alloc_addr (e_ips e) key) \<and>
    e_calls e2 = e_calls e @ told_dns e dns_err toStop \<and>
    (\<exists>dones. e_emitted e2 = e_emitted e1 @ dns_log now dns_err toStop @ map (\<lambda>p. ProfileDone p now) dones \<and>
       (\<forall>p. p \<in> set dones \<longleftrightarrow> (\<exists>n\<in>set toStop. si_profile (objs e ! n) = p) \<and>
          (\<forall>(key, n)\<in>set (instances e2). si_profile (objs e ! n) \<noteq> p))) \<and>
    (selectors = [] \<longrightarrow> instances e2 = [] \<and> alloc_addr (e_ips e2) = Map.empty)"
proof -
  note sub = Stop_begin_sub [OF assms(1,2)]
  note toStop = Stop_begin_selected [OF assms(2)]
  have ok1: "engine_ok e1" by (rule services_stopped_ok [OF assms(1,3)])
  have same: "e_ips e1 = e_ips e" "instances e1 = instances e" "e_calls e1 = e_calls e"
    using assms(3) by (auto simp: services_stopped_def)
  have eff: "engine_ok e2" "instances e2 = filter (\<lambda>(key, n). \<not> selected (e_cfg e) selectors key) (instances e)"
    "objs e2 = objs e1"
    "\<forall>key\<in>set (keys (instances e2)). alloc_addr (e_ips e2) key = alloc_addr (e_ips e) key"
    "e_calls e2 = e_calls e @ told_dns e1 dns_err toStop"
    "e_emitted e2 = e_emitted e1 @ dns_log now dns_err toStop @
      map (\<lambda>p. ProfileDone p now) (doneProfiles toStop e2)"
    using Stop_end_effect [OF ok1 _ _ assms(4)] sub stopped_or_kept [OF assms(1) toStop]
    by (simp_all add: same)
  have bound: "n < length (objs e)" if "n \<in> set toStop \<or> (key, n) \<in> set (instances e)" for key n
    using that sub assms(1) by (fastforce simp: engine_ok_def inst_ok_def)
  have id: "si_profile (objs e2 ! n) = si_profile (objs e ! n)" "removal e1 n = removal e n"
    if "n < length (objs e)" for n
    using services_stopped_identity [OF assms(3) that] eff(3) by simp_all
  have left: "n < length (objs e)" if "(key, n) \<in> set (instances e2)" for key n
    using that bound by (auto simp: eff(2))
  have dones: "p \<in> set (doneProfiles toStop e2) \<longleftrightarrow> (\<exists>n\<in>set toStop. si_profile (objs e ! n) = p) \<and>
      (\<forall>(key, n)\<in>set (instances e2). si_profile (objs e ! n) \<noteq> p)" for p
    unfolding doneProfiles_iff using id(1) bound left by (metis (no_types, lifting) case_prod_conv surj_pair)
  have "\<not> stop_panics toStop e"
    using sub assms(1) by (fastforce simp: stop_panics_def engine_ok_def inst_ok_def)
  moreover have "selectors = [] \<longrightarrow> instances e2 = [] \<and> alloc_addr (e_ips e2) = Map.empty"
    using eff(1) by (auto simp: eff(2) selected_def engine_ok_def)
  moreover have "told_dns e1 dns_err toStop = told_dns e dns_err toStop"
    using id(2) bound by (simp add: told_dns_def)
  ultimately show ?thesis using toStop eff(1,2,4,5,6) dones by (intro conjI exI [of _ "doneProfiles toStop e2"]) simp_all
qed

theorem stop_removes_selected_witness:
  "\<exists>e e2 :: Engine. keys (instances e) = [''prod/web''] \<and> engine_ok e \<and> instances e2 = [] \<and>
     alloc_addr (e_ips e2) = Map.empty \<and> length (e_calls e2) = 1"
proof -
  let ?t = "(''prod'', sample_service ''web'')"
  obtain x where x: "Allocate (target_key ?t) alloc_New = (Inr (loopback x), \<lparr>assigned = [(x, target_key ?t)]\<rparr>)"
    by (rule Allocate_cases [OF alloc_ok_New, of "target_key ?t"]) (auto simp: alloc_New_def owner_octet_def)
  define e where "e = launched ?t (loopback x) \<lparr>assigned = [(x, target_key ?t)]\<rparr> sample_engine"
  have ok: "engine_ok e" unfolding e_def
    using x by (intro launched_ok) (simp add: sample_engine_def, simp_all add: sample_engine_def New_def)
  have inst: "instances e = [(''prod/web'', 0)]" "e_calls e = []"
    by (simp_all add: e_def launched_def sample_engine_def New_def target_key_def service_key_def sample_service_def)
  have cfg: "e_cfg e = sample_config two_profiles" by (simp add: e_def launched_def sample_engine_def New_def)
  have start: "Stop_begin [''prod/web''] e = Inr [0]"
    unfolding Stop_begin_def inst cfg by code_simp
  have pick: "selected (e_cfg e) [''prod/web''] ''prod/web''" unfolding cfg by code_simp
  have same: "services_stopped e e" by (simp add: services_stopped_def same_identity_def)
  define e2 where "e2 = Stop_end 0 None [0] e"
  note stopped = stop_removes_selected [OF ok start same e2_def]
  then have "instances e2 = []" "length (e_calls e2) = 1" "engine_ok e2"
    using pick by (auto simp: inst told_dns_def)
  moreover from this have "alloc_addr (e_ips e2) = Map.empty" by (simp add: engine_ok_def)
  moreover have "keys (instances e) = [''prod/web'']" using inst by simp
  ultimately show ?thesis using ok by blast
qed

section \<open>Two calls at once\<close>

text \<open>Two \<open>Start\<close>s of one target: both look, then the first finishes, then the second.\<close>

definition start_twice :: "target \<Rightarrow> Engine \<Rightarrow> Engine" where
  "start_twice t e =
     (let (a1, e) = start_step 0 (ST_targets [t], e);
          (b1, e) = start_step 0 (ST_targets [t], e);
          (a2, e) = start_step 0 (a1, e);
          (a3, e) = start_step 0 (a2, e);
          (a4, e) = start_step 0 (a3, e);
          (b2, e) = start_step 0 (b1, e);
          (b3, e) = start_step 0 (b2, e);
          (b4, e) = start_step 0 (b3, e)
      in e)"

text \<open>
  C22: \<open>Start\<close> looks a key up, allocates, stores and sets the cancel function in separate critical
  sections, and so two calls can get between each other. Two \<open>Start\<close>s of one service, each looking
  before either stores, launch two service loops under one key: only the second instance can be
  found in the map, nothing will ever stop the first. And a \<open>Stop\<close> between a \<open>Start\<close>'s store and its
  \<open>si.cancel = cancel\<close> calls a nil function and takes the daemon down.
\<close>

theorem concurrent_starts_and_stop:
  "(\<exists>t. running (start_twice t sample_engine) = [0, 1] \<and>
      obj_key (start_twice t sample_engine) 0 = obj_key (start_twice t sample_engine) 1 \<and>
      map snd (instances (start_twice t sample_engine)) = [1]) \<and>
   (\<exists>e1 t ts i. start_step 0 (ST_store t [] i, sample_engine) = (ST_launch 0 ts, e1) \<and>
      Stop_begin [] e1 = Inr [0] \<and> stop_panics [0] e1)"
proof
  let ?t = "(''prod'', sample_service ''web'')"
  let ?key = "target_key ?t"
  obtain x where x: "Allocate ?key alloc_New = (Inr (loopback x), \<lparr>assigned = [(x, ?key)]\<rparr>)"
    by (rule Allocate_cases [OF alloc_ok_New, of ?key]) (auto simp: alloc_New_def owner_octet_def)
  have again: "Allocate ?key \<lparr>assigned = [(x, ?key)]\<rparr> = (Inr (loopback x), \<lparr>assigned = [(x, ?key)]\<rparr>)"
    by (simp add: Allocate_def alloc_Allocate_def)
  have "running (start_twice ?t sample_engine) = [0, 1] \<and>
      obj_key (start_twice ?t sample_engine) 0 = obj_key (start_twice ?t sample_engine) 1 \<and>
      map snd (instances (start_twice ?t sample_engine)) = [1]"
    using x again
    by (simp add: start_twice_def sample_engine_def New_def Let_def obj_key_def new_instance_def)
  then show "\<exists>t. running (start_twice t sample_engine) = [0, 1] \<and>
      obj_key (start_twice t sample_engine) 0 = obj_key (start_twice t sample_engine) 1 \<and>
      map snd (instances (start_twice t sample_engine)) = [1]" by (rule exI [of _ ?t])
  define e1 where "e1 = snd (start_step 0 (ST_store ?t [] (loopback x), sample_engine))"
  have "start_step 0 (ST_store ?t [] (loopback x), sample_engine) = (ST_launch 0 [], e1) \<and>
      Stop_begin [] e1 = Inr [0] \<and> stop_panics [0] e1"
    by (simp add: e1_def sample_engine_def New_def Let_def Stop_begin_def stop_panics_def new_instance_def)
  then show "\<exists>e1 t ts i. start_step 0 (ST_store t [] i, sample_engine) = (ST_launch 0 ts, e1) \<and>
      Stop_begin [] e1 = Inr [0] \<and> stop_panics [0] e1" by blast
qed

end
