(* ===== verification/Go_Format.thy ===== *)
theory Go_Format
  imports Go_Strings
begin

text \<open>
  What \<open>fmt\<close> prints for the values the program formats: durations (\<open>time.Duration.String\<close>, with
  its units and the fraction cut of trailing zeros) and the characters outside ASCII its messages
  contain, as UTF-8 bytes.
\<close>

definition em_dash :: string where
  "em_dash = [CHR 0xE2, CHR 0x80, CHR 0x94]"

fun strip_zeros :: "string \<Rightarrow> string" where
  "strip_zeros s = rev (dropWhile (\<lambda>c. c = CHR ''0'') (rev s))"

text \<open>\<open>fmtFrac\<close>: the last \<open>prec\<close> digits after a point, without trailing zeros; nothing for zero.\<close>

definition frac_text :: "nat \<Rightarrow> nat \<Rightarrow> string" where
  "frac_text v prec =
     (let ds = show_nat (v mod 10 ^ prec);
          ds = strip_zeros (replicate (prec - length ds) (CHR ''0'') @ ds)
      in if ds = [] then [] else CHR ''.'' # ds)"

definition duration_text :: "nat \<Rightarrow> string" where
  "duration_text u =
     (if u = 0 then ''0s''
      else if u < 1000 then show_nat u @ ''ns''
      else if u < 1000000 then show_nat (u div 1000) @ frac_text u 3 @ [CHR 0xC2, CHR 0xB5, CHR ''s'']
      else if u < 1000000000 then show_nat (u div 1000000) @ frac_text u 6 @ ''ms''
      else
        let s = u div 1000000000
        in (if s \<ge> 3600 then show_nat (s div 3600) @ ''h'' else [])
           @ (if s \<ge> 60 then show_nat (s div 60 mod 60) @ ''m'' else [])
           @ show_nat (s mod 60) @ frac_text u 9 @ ''s'')"

definition Duration_String :: "duration \<Rightarrow> string" where
  "Duration_String d = (if d < 0 then ''-'' @ duration_text (nat (- d)) else duration_text (nat d))"

text \<open>\<open>d.Truncate(time.Second)\<close> and \<open>d.Round(time.Second)\<close>; the latter rounds half away from zero.\<close>

definition truncate_second :: "duration \<Rightarrow> duration" where
  "truncate_second d = d - (if d < 0 then - ((- d) mod second) else d mod second)"

definition round_second :: "duration \<Rightarrow> duration" where
  "round_second d =
     (let r = (if d < 0 then (- d) mod second else d mod second)
      in if d < 0 then (if 2 * r < second then d + r else d - (second - r))
         else (if 2 * r < second then d - r else d + (second - r)))"

lemma truncate_second_le: "0 \<le> d \<Longrightarrow> truncate_second d \<le> d \<and> d < truncate_second d + second \<and> second dvd truncate_second d"
  by (auto simp: truncate_second_def minus_mod_eq_mult_div)

text \<open>\<open>fmt\<close> of a slice of strings with \<open>%v\<close>.\<close>

definition slice_text :: "string list \<Rightarrow> string" where
  "slice_text xs = ''['' @ Join xs '' '' @ '']''"

end
