(* ===== verification/Protocol.thy ===== *)
theory Protocol
  imports Engine_Events Go_Format
begin

text \<open>
  \<open>internal/daemon/protocol.go\<close>: the messages between the command line, the tray and the daemon, the
  envelope of an engine event, and the framing of a message on the socket.

  \<open>encoding/json\<close> works in two stages here. A message becomes a \<open>json\<close> tree by the struct tags of
  the source, \<open>omitempty\<close> included, and back; both are written out. The text of a tree is the
  library's: its printer and parser are the arguments \<open>print\<close> and \<open>parse\<close>. A time is a leaf of its
  own, standing for its RFC 3339 text.
\<close>

section \<open>Messages\<close>

definition CmdUp :: string where "CmdUp = ''up''"
definition CmdDown :: string where "CmdDown = ''down''"
definition CmdStatus :: string where "CmdStatus = ''status''"
definition CmdLogs :: string where "CmdLogs = ''logs''"
definition CmdSubscribe :: string where "CmdSubscribe = ''subscribe''"
definition CmdTrayRegister :: string where "CmdTrayRegister = ''tray_register''"

definition EnvelopeKindLog :: string where "EnvelopeKindLog = ''log''"
definition EnvelopeKindState :: string where "EnvelopeKindState = ''state''"
definition EnvelopeKindCredsExpired :: string where "EnvelopeKindCredsExpired = ''creds_expired''"
definition EnvelopeKindProfileDone :: string where "EnvelopeKindProfileDone = ''profile_done''"

lemmas kind_defs = EnvelopeKindLog_def EnvelopeKindState_def EnvelopeKindCredsExpired_def EnvelopeKindProfileDone_def
lemmas cmd_defs = CmdUp_def CmdDown_def CmdStatus_def CmdLogs_def CmdSubscribe_def CmdTrayRegister_def

record Request =
  rq_Command :: string
  rq_Targets :: "string list"
  rq_Follow :: bool

record StatusEntry =
  se_Profile :: string
  se_ServiceName :: string
  se_DNSName :: string
  se_LocalPort :: int
  se_LocalAddr :: string
  se_State :: string
  se_ConnectedAt :: string
  se_Error :: string

record LogEntryDTO =
  ld_Level :: string
  ld_Message :: string
  ld_Profile :: string
  ld_Service :: string
  ld_Time :: instant

record ServiceStateChangedDTO =
  sd_Profile :: string
  sd_ServiceName :: string
  sd_DNSName :: string
  sd_From :: string
  sd_To :: string
  sd_Error :: string
  sd_Timestamp :: instant

record CredentialsExpiredDTO =
  cd_Profile :: string
  cd_AWSProfile :: string
  cd_ServiceName :: string
  cd_Detail :: string
  cd_Timestamp :: instant

record ProfileDoneDTO =
  pd_Profile :: string
  pd_Timestamp :: instant

record EventEnvelope =
  ev_Kind :: string
  ev_Log :: "LogEntryDTO option"
  ev_State :: "ServiceStateChangedDTO option"
  ev_Creds :: "CredentialsExpiredDTO option"
  ev_ProfileDone :: "ProfileDoneDTO option"

text \<open>\<open>engine.LogEntry\<close> as it crosses the socket: no tags, so its keys are the field names.\<close>

record EngineLogEntry =
  le_Level :: string
  le_Message :: string
  le_Profile :: string
  le_Service :: string
  le_Time :: instant

record Response =
  rs_OK :: bool
  rs_Error :: string
  rs_Statuses :: "StatusEntry list"
  rs_Event :: "EngineLogEntry option"
  rs_Envelope :: "EventEnvelope option"

definition response :: Response where
  "response = \<lparr>rs_OK = False, rs_Error = [], rs_Statuses = [], rs_Event = None, rs_Envelope = None\<rparr>"

definition resp_ok :: Response where
  "resp_ok = response\<lparr>rs_OK := True\<rparr>"

definition resp_error :: "string \<Rightarrow> Response" where
  "resp_error msg = response\<lparr>rs_Error := msg\<rparr>"

section \<open>Envelopes\<close>

fun level_text :: "log_level \<Rightarrow> string" where
  "level_text Info = ''info''"
| "level_text Warn = ''warn''"
| "level_text Error = ''error''"

text \<open>The texts given to \<open>emitLog\<close>; \<open>quote\<close> is \<open>%q\<close>.\<close>

fun log_text :: "(string \<Rightarrow> string) \<Rightarrow> log_message \<Rightarrow> string" where
  "log_text quote Already_running = ''already running, skipping''"
| "log_text quote (Failed_to_remove_DNS err) = ''failed to remove DNS entries: '' @ error_text err"
| "log_text quote (Error_stopping_session err) = ''error stopping session: '' @ error_text err"
| "log_text quote (Dropped_sessions reason n) = reason @ '': dropped '' @ show_nat n @ '' sessions to reconnect''"
| "log_text quote (Invalid_transition_to_Starting from err) =
     ''invalid transition to Starting from '' @ state_String from @ '': '' @ error_text err"
| "log_text quote (Start_failed err) = ''start failed: '' @ error_text err"
| "log_text quote (Target_rotated_out asg err) =
     ''ssm target rotated out of '' @ asg @ '' '' @ em_dash @ '' re-resolving ('' @ error_text err @ '')''"
| "log_text quote (Reconnecting_in d n) =
     ''reconnecting in '' @ Duration_String d @ '' (attempt '' @ show_nat n @ '')''"
| "log_text quote (Connected_via ip port ssm) =
     ''connected via '' @ ip @ '':'' @ show_int port @ '' (ssm port '' @ show_int ssm @ '')''"
| "log_text quote (Cannot_transition_to st err) =
     ''cannot transition to '' @ state_String st @ '': '' @ error_text err"
| "log_text quote (Credentials_expired_for prof) =
     ''credentials expired for aws profile '' @ quote prof @ '' '' @ em_dash @ '' run: aws sso login --profile '' @ prof"

definition no_envelope :: "string \<Rightarrow> EventEnvelope" where
  "no_envelope kind = \<lparr>ev_Kind = kind, ev_Log = None, ev_State = None, ev_Creds = None, ev_ProfileDone = None\<rparr>"

text \<open>
  The event type has these four implementations only, so the answer \<open>nil, false\<close> for another does
  not arise.
\<close>

fun eventToEnvelope :: "(string \<Rightarrow> string) \<Rightarrow> event \<Rightarrow> EventEnvelope" where
  "eventToEnvelope quote (LogEntry lvl msg profile service t) =
     (no_envelope EnvelopeKindLog)\<lparr>ev_Log := Some
       \<lparr>ld_Level = level_text lvl, ld_Message = log_text quote msg, ld_Profile = profile,
        ld_Service = service, ld_Time = t\<rparr>\<rparr>"
| "eventToEnvelope quote (ServiceStateChanged profile service dns from to err t) =
     (no_envelope EnvelopeKindState)\<lparr>ev_State := Some
       \<lparr>sd_Profile = profile, sd_ServiceName = service, sd_DNSName = dns, sd_From = state_String from,
        sd_To = state_String to, sd_Error = (case err of None \<Rightarrow> [] | Some e \<Rightarrow> error_text e),
        sd_Timestamp = t\<rparr>\<rparr>"
| "eventToEnvelope quote (CredentialsExpired profile aws service detail t) =
     (no_envelope EnvelopeKindCredsExpired)\<lparr>ev_Creds := Some
       \<lparr>cd_Profile = profile, cd_AWSProfile = aws, cd_ServiceName = service, cd_Detail = detail,
        cd_Timestamp = t\<rparr>\<rparr>"
| "eventToEnvelope quote (ProfileDone profile t) =
     (no_envelope EnvelopeKindProfileDone)\<lparr>ev_ProfileDone := Some \<lparr>pd_Profile = profile, pd_Timestamp = t\<rparr>\<rparr>"

section \<open>Struct tags\<close>

datatype json =
    JBool bool
  | JNum int
  | JStr string
  | JTime instant
  | JArr "json list"
  | JObj "(string \<times> json) list"

text \<open>Fields with \<open>omitempty\<close> leave the object when they hold their zero value.\<close>

definition omit_str :: "string \<Rightarrow> string \<Rightarrow> (string \<times> json) list" where
  "omit_str k s = (if s = [] then [] else [(k, JStr s)])"

definition omit_int :: "string \<Rightarrow> int \<Rightarrow> (string \<times> json) list" where
  "omit_int k n = (if n = 0 then [] else [(k, JNum n)])"

definition omit_bool :: "string \<Rightarrow> bool \<Rightarrow> (string \<times> json) list" where
  "omit_bool k b = (if b then [(k, JBool b)] else [])"

definition omit_list :: "string \<Rightarrow> json list \<Rightarrow> (string \<times> json) list" where
  "omit_list k xs = (if xs = [] then [] else [(k, JArr xs)])"

definition omit_ptr :: "string \<Rightarrow> json option \<Rightarrow> (string \<times> json) list" where
  "omit_ptr k p = (case p of None \<Rightarrow> [] | Some j \<Rightarrow> [(k, j)])"

definition json_Request :: "Request \<Rightarrow> json" where
  "json_Request r = JObj ([(''command'', JStr (rq_Command r))] @ omit_list ''targets'' (map JStr (rq_Targets r))
     @ omit_bool ''follow'' (rq_Follow r))"

definition json_StatusEntry :: "StatusEntry \<Rightarrow> json" where
  "json_StatusEntry s = JObj ([(''profile'', JStr (se_Profile s)), (''service_name'', JStr (se_ServiceName s)),
     (''dns_name'', JStr (se_DNSName s))] @ omit_int ''local_port'' (se_LocalPort s)
     @ omit_str ''local_addr'' (se_LocalAddr s) @ [(''state'', JStr (se_State s))]
     @ omit_str ''connected_at'' (se_ConnectedAt s) @ omit_str ''error'' (se_Error s))"

definition json_LogEntryDTO :: "LogEntryDTO \<Rightarrow> json" where
  "json_LogEntryDTO d = JObj ([(''level'', JStr (ld_Level d)), (''message'', JStr (ld_Message d))]
     @ omit_str ''profile'' (ld_Profile d) @ omit_str ''service'' (ld_Service d) @ [(''time'', JTime (ld_Time d))])"

definition json_ServiceStateChangedDTO :: "ServiceStateChangedDTO \<Rightarrow> json" where
  "json_ServiceStateChangedDTO d = JObj ([(''profile'', JStr (sd_Profile d)), (''service_name'', JStr (sd_ServiceName d))]
     @ omit_str ''dns_name'' (sd_DNSName d) @ [(''from'', JStr (sd_From d)), (''to'', JStr (sd_To d))]
     @ omit_str ''error'' (sd_Error d) @ [(''timestamp'', JTime (sd_Timestamp d))])"

definition json_CredentialsExpiredDTO :: "CredentialsExpiredDTO \<Rightarrow> json" where
  "json_CredentialsExpiredDTO d = JObj ([(''profile'', JStr (cd_Profile d)), (''aws_profile'', JStr (cd_AWSProfile d))]
     @ omit_str ''service_name'' (cd_ServiceName d) @ omit_str ''detail'' (cd_Detail d)
     @ [(''timestamp'', JTime (cd_Timestamp d))])"

definition json_ProfileDoneDTO :: "ProfileDoneDTO \<Rightarrow> json" where
  "json_ProfileDoneDTO d = JObj [(''profile'', JStr (pd_Profile d)), (''timestamp'', JTime (pd_Timestamp d))]"

definition json_EventEnvelope :: "EventEnvelope \<Rightarrow> json" where
  "json_EventEnvelope e = JObj ([(''kind'', JStr (ev_Kind e))]
     @ omit_ptr ''log'' (map_option json_LogEntryDTO (ev_Log e))
     @ omit_ptr ''state'' (map_option json_ServiceStateChangedDTO (ev_State e))
     @ omit_ptr ''creds'' (map_option json_CredentialsExpiredDTO (ev_Creds e))
     @ omit_ptr ''profile_done'' (map_option json_ProfileDoneDTO (ev_ProfileDone e)))"

definition json_EngineLogEntry :: "EngineLogEntry \<Rightarrow> json" where
  "json_EngineLogEntry l = JObj [(''Level'', JStr (le_Level l)), (''Message'', JStr (le_Message l)),
     (''Profile'', JStr (le_Profile l)), (''Service'', JStr (le_Service l)), (''Time'', JTime (le_Time l))]"

definition json_Response :: "Response \<Rightarrow> json" where
  "json_Response r = JObj ([(''ok'', JBool (rs_OK r))] @ omit_str ''error'' (rs_Error r)
     @ omit_list ''statuses'' (map json_StatusEntry (rs_Statuses r))
     @ omit_ptr ''event'' (map_option json_EngineLogEntry (rs_Event r))
     @ omit_ptr ''envelope'' (map_option json_EventEnvelope (rs_Envelope r)))"

text \<open>
  Decoding into a zero value: a missing key leaves the field alone, a value of another type is an
  error (\<open>None\<close>).
\<close>

definition get_str :: "string \<Rightarrow> (string \<times> json) list \<Rightarrow> string option" where
  "get_str k obj = (case map_of obj k of None \<Rightarrow> Some [] | Some (JStr s) \<Rightarrow> Some s | _ \<Rightarrow> None)"

definition get_int :: "string \<Rightarrow> (string \<times> json) list \<Rightarrow> int option" where
  "get_int k obj = (case map_of obj k of None \<Rightarrow> Some 0 | Some (JNum n) \<Rightarrow> Some n | _ \<Rightarrow> None)"

definition get_bool :: "string \<Rightarrow> (string \<times> json) list \<Rightarrow> bool option" where
  "get_bool k obj = (case map_of obj k of None \<Rightarrow> Some False | Some (JBool b) \<Rightarrow> Some b | _ \<Rightarrow> None)"

definition get_time :: "string \<Rightarrow> (string \<times> json) list \<Rightarrow> instant option" where
  "get_time k obj = (case map_of obj k of None \<Rightarrow> Some 0 | Some (JTime t) \<Rightarrow> Some t | _ \<Rightarrow> None)"

fun all_some :: "'a option list \<Rightarrow> 'a list option" where
  "all_some [] = Some []"
| "all_some (x # xs) = do { y \<leftarrow> x; ys \<leftarrow> all_some xs; Some (y # ys) }"

definition get_list :: "(json \<Rightarrow> 'a option) \<Rightarrow> string \<Rightarrow> (string \<times> json) list \<Rightarrow> 'a list option" where
  "get_list dec k obj = (case map_of obj k of None \<Rightarrow> Some [] | Some (JArr xs) \<Rightarrow> all_some (map dec xs) | _ \<Rightarrow> None)"

definition get_ptr :: "(json \<Rightarrow> 'a option) \<Rightarrow> string \<Rightarrow> (string \<times> json) list \<Rightarrow> 'a option option" where
  "get_ptr dec k obj = (case map_of obj k of None \<Rightarrow> Some None | Some j \<Rightarrow> map_option Some (dec j))"

fun of_JStr :: "json \<Rightarrow> string option" where
  "of_JStr (JStr s) = Some s"
| "of_JStr _ = None"

fun fields :: "json \<Rightarrow> (string \<times> json) list option" where
  "fields (JObj kvs) = Some kvs"
| "fields _ = None"

definition of_Request :: "json \<Rightarrow> Request option" where
  "of_Request j = do {
     f \<leftarrow> fields j; c \<leftarrow> get_str ''command'' f; ts \<leftarrow> get_list of_JStr ''targets'' f; b \<leftarrow> get_bool ''follow'' f;
     Some \<lparr>rq_Command = c, rq_Targets = ts, rq_Follow = b\<rparr> }"

definition of_StatusEntry :: "json \<Rightarrow> StatusEntry option" where
  "of_StatusEntry j = do {
     f \<leftarrow> fields j; p \<leftarrow> get_str ''profile'' f; s \<leftarrow> get_str ''service_name'' f; d \<leftarrow> get_str ''dns_name'' f;
     lp \<leftarrow> get_int ''local_port'' f; la \<leftarrow> get_str ''local_addr'' f; st \<leftarrow> get_str ''state'' f;
     c \<leftarrow> get_str ''connected_at'' f; e \<leftarrow> get_str ''error'' f;
     Some \<lparr>se_Profile = p, se_ServiceName = s, se_DNSName = d, se_LocalPort = lp, se_LocalAddr = la,
       se_State = st, se_ConnectedAt = c, se_Error = e\<rparr> }"

definition of_LogEntryDTO :: "json \<Rightarrow> LogEntryDTO option" where
  "of_LogEntryDTO j = do {
     f \<leftarrow> fields j; l \<leftarrow> get_str ''level'' f; m \<leftarrow> get_str ''message'' f; p \<leftarrow> get_str ''profile'' f;
     s \<leftarrow> get_str ''service'' f; t \<leftarrow> get_time ''time'' f;
     Some \<lparr>ld_Level = l, ld_Message = m, ld_Profile = p, ld_Service = s, ld_Time = t\<rparr> }"

definition of_ServiceStateChangedDTO :: "json \<Rightarrow> ServiceStateChangedDTO option" where
  "of_ServiceStateChangedDTO j = do {
     f \<leftarrow> fields j; p \<leftarrow> get_str ''profile'' f; s \<leftarrow> get_str ''service_name'' f; d \<leftarrow> get_str ''dns_name'' f;
     fr \<leftarrow> get_str ''from'' f; to \<leftarrow> get_str ''to'' f; e \<leftarrow> get_str ''error'' f; t \<leftarrow> get_time ''timestamp'' f;
     Some \<lparr>sd_Profile = p, sd_ServiceName = s, sd_DNSName = d, sd_From = fr, sd_To = to, sd_Error = e,
       sd_Timestamp = t\<rparr> }"

definition of_CredentialsExpiredDTO :: "json \<Rightarrow> CredentialsExpiredDTO option" where
  "of_CredentialsExpiredDTO j = do {
     f \<leftarrow> fields j; p \<leftarrow> get_str ''profile'' f; a \<leftarrow> get_str ''aws_profile'' f; s \<leftarrow> get_str ''service_name'' f;
     d \<leftarrow> get_str ''detail'' f; t \<leftarrow> get_time ''timestamp'' f;
     Some \<lparr>cd_Profile = p, cd_AWSProfile = a, cd_ServiceName = s, cd_Detail = d, cd_Timestamp = t\<rparr> }"

definition of_ProfileDoneDTO :: "json \<Rightarrow> ProfileDoneDTO option" where
  "of_ProfileDoneDTO j = do {
     f \<leftarrow> fields j; p \<leftarrow> get_str ''profile'' f; t \<leftarrow> get_time ''timestamp'' f;
     Some \<lparr>pd_Profile = p, pd_Timestamp = t\<rparr> }"

definition of_EventEnvelope :: "json \<Rightarrow> EventEnvelope option" where
  "of_EventEnvelope j = do {
     f \<leftarrow> fields j; k \<leftarrow> get_str ''kind'' f; l \<leftarrow> get_ptr of_LogEntryDTO ''log'' f;
     s \<leftarrow> get_ptr of_ServiceStateChangedDTO ''state'' f; c \<leftarrow> get_ptr of_CredentialsExpiredDTO ''creds'' f;
     p \<leftarrow> get_ptr of_ProfileDoneDTO ''profile_done'' f;
     Some \<lparr>ev_Kind = k, ev_Log = l, ev_State = s, ev_Creds = c, ev_ProfileDone = p\<rparr> }"

definition of_EngineLogEntry :: "json \<Rightarrow> EngineLogEntry option" where
  "of_EngineLogEntry j = do {
     f \<leftarrow> fields j; l \<leftarrow> get_str ''Level'' f; m \<leftarrow> get_str ''Message'' f; p \<leftarrow> get_str ''Profile'' f;
     s \<leftarrow> get_str ''Service'' f; t \<leftarrow> get_time ''Time'' f;
     Some \<lparr>le_Level = l, le_Message = m, le_Profile = p, le_Service = s, le_Time = t\<rparr> }"

definition of_Response :: "json \<Rightarrow> Response option" where
  "of_Response j = do {
     f \<leftarrow> fields j; b \<leftarrow> get_bool ''ok'' f; e \<leftarrow> get_str ''error'' f;
     ss \<leftarrow> get_list of_StatusEntry ''statuses'' f; l \<leftarrow> get_ptr of_EngineLogEntry ''event'' f;
     v \<leftarrow> get_ptr of_EventEnvelope ''envelope'' f;
     Some \<lparr>rs_OK = b, rs_Error = e, rs_Statuses = ss, rs_Event = l, rs_Envelope = v\<rparr> }"

lemma map_of_omit [simp]:
  "map_of (omit_str k s) k' = (if k = k' \<and> s \<noteq> [] then Some (JStr s) else None)"
  "map_of (omit_int k n) k' = (if k = k' \<and> n \<noteq> 0 then Some (JNum n) else None)"
  "map_of (omit_bool k b) k' = (if k = k' \<and> b then Some (JBool True) else None)"
  "map_of (omit_list k xs) k' = (if k = k' \<and> xs \<noteq> [] then Some (JArr xs) else None)"
  "map_of (omit_ptr k p) k' = (if k = k' then p else None)"
  by (auto simp: omit_str_def omit_int_def omit_bool_def omit_list_def omit_ptr_def split: option.splits)

lemma all_some_map: "(\<And>x. x \<in> set xs \<Longrightarrow> dec (enc x) = Some x) \<Longrightarrow> all_some (map (\<lambda>x. dec (enc x)) xs) = Some xs"
  by (induction xs) auto

lemmas get_defs = get_str_def get_int_def get_bool_def get_time_def get_list_def get_ptr_def map_add_def

lemma of_json_dto [simp]:
  "of_LogEntryDTO (json_LogEntryDTO l) = Some l"
  "of_ProfileDoneDTO (json_ProfileDoneDTO p) = Some p"
  "of_CredentialsExpiredDTO (json_CredentialsExpiredDTO c) = Some c"
  "of_EngineLogEntry (json_EngineLogEntry g) = Some g"
  by (simp_all add: of_LogEntryDTO_def json_LogEntryDTO_def of_ProfileDoneDTO_def json_ProfileDoneDTO_def
      of_CredentialsExpiredDTO_def json_CredentialsExpiredDTO_def of_EngineLogEntry_def json_EngineLogEntry_def get_defs)

lemma of_json_state [simp]: "of_ServiceStateChangedDTO (json_ServiceStateChangedDTO d) = Some d"
  by (simp add: of_ServiceStateChangedDTO_def json_ServiceStateChangedDTO_def get_defs)

lemma of_json_status [simp]: "of_StatusEntry (json_StatusEntry s) = Some s"
  by (simp add: of_StatusEntry_def json_StatusEntry_def get_defs)

lemma of_json_Request: "of_Request (json_Request r) = Some r"
  using all_some_map [of "rq_Targets r" of_JStr JStr]
  by (simp add: of_Request_def json_Request_def get_defs comp_def)

lemma of_json_envelope [simp]: "of_EventEnvelope (json_EventEnvelope e) = Some e"
  by (cases e) (auto simp: of_EventEnvelope_def json_EventEnvelope_def get_defs split: option.splits)

lemma of_json_Response: "of_Response (json_Response r) = Some r"
  using all_some_map [of "rs_Statuses r" of_StatusEntry json_StatusEntry]
  by (cases r) (auto simp: of_Response_def json_Response_def get_defs comp_def split: option.splits)

section \<open>Framing\<close>

text \<open>\<open>binary.BigEndian\<close>: four bytes, most significant first.\<close>

definition PutUint32 :: "32 word \<Rightarrow> bytes" where
  "PutUint32 w = map (\<lambda>k. char_of (unat (drop_bit k w))) [24, 16, 8, 0]"

definition Uint32 :: "bytes \<Rightarrow> 32 word" where
  "Uint32 bs = foldl (\<lambda>w c. push_bit 8 w + word_of_nat (byte c)) 0 bs"

definition maxMessage :: "32 word" where
  "maxMessage = 10 * 1024 * 1024"

text \<open>
  What \<open>conn.Write\<close> does with its bytes: all are sent, or the first \<open>n\<close> and an error. \<open>sent\<close> is
  everything sent on the connection so far.
\<close>

datatype wrote = All_written | Failed_after nat go_error

definition conn_Write :: "wrote \<Rightarrow> bytes \<Rightarrow> bytes \<Rightarrow> go_error option \<times> bytes" where
  "conn_Write r p sent =
     (case r of All_written \<Rightarrow> (None, sent @ p) | Failed_after n err \<Rightarrow> (Some err, sent @ take n p))"

definition writeMessage ::
  "('m \<Rightarrow> go_error + bytes) \<Rightarrow> wrote \<Rightarrow> wrote \<Rightarrow> 'm \<Rightarrow> bytes \<Rightarrow> go_error option \<times> bytes" where
  "writeMessage marshal r1 r2 msg sent =
     (case marshal msg of
        Inl err \<Rightarrow> (Some (Errorf_w ''marshaling message'' err), sent)
      | Inr data \<Rightarrow>
          (case conn_Write r1 (PutUint32 (word_of_nat (length data))) sent of
             (Some err, sent) \<Rightarrow> (Some (Errorf_w ''writing length'' err), sent)
           | (None, sent) \<Rightarrow>
               (case conn_Write r2 data sent of
                  (Some err, sent) \<Rightarrow> (Some (Errorf_w ''writing data'' err), sent)
                | (None, sent) \<Rightarrow> (None, sent))))"

text \<open>
  \<open>io.ReadFull\<close> on the bytes that will still arrive before the connection ends: the first \<open>n\<close> and
  the rest, or the error for a stream that ends before or within them.
\<close>

definition EOF :: go_error where
  "EOF = Opaque ''EOF''"

definition ErrUnexpectedEOF :: go_error where
  "ErrUnexpectedEOF = Opaque ''unexpected EOF''"

definition ReadFull :: "nat \<Rightarrow> bytes \<Rightarrow> (go_error + bytes) \<times> bytes" where
  "ReadFull n stream =
     (if n \<le> length stream then (Inr (take n stream), drop n stream)
      else (Inl (if stream = [] then EOF else ErrUnexpectedEOF), []))"

definition readMessage :: "(bytes \<Rightarrow> go_error + 'm) \<Rightarrow> bytes \<Rightarrow> (go_error + 'm) \<times> bytes" where
  "readMessage unmarshal stream =
     (case ReadFull 4 stream of
        (Inl err, stream) \<Rightarrow> (Inl (Errorf_w ''reading length'' err), stream)
      | (Inr lenBuf, stream) \<Rightarrow>
          let len = Uint32 lenBuf
          in if len > maxMessage
             then (Inl (Opaque (''message too large: '' @ show_nat (unat len) @ '' bytes'')), stream)
             else (case ReadFull (unat len) stream of
                (Inl err, stream) \<Rightarrow> (Inl (Errorf_w ''reading data'' err), stream)
              | (Inr data, stream) \<Rightarrow>
                  (case unmarshal data of
                     Inl err \<Rightarrow> (Inl (Errorf_w ''unmarshaling message'' err), stream)
                   | Inr msg \<Rightarrow> (Inr msg, stream))))"

text \<open>\<open>json.Marshal\<close> and \<open>json.Unmarshal\<close> of one message type.\<close>

definition Marshal :: "('m \<Rightarrow> json) \<Rightarrow> (json \<Rightarrow> string) \<Rightarrow> 'm \<Rightarrow> go_error + bytes" where
  "Marshal enc print m = Inr (print (enc m))"

definition Unmarshal :: "(json \<Rightarrow> 'm option) \<Rightarrow> (string \<Rightarrow> go_error + json) \<Rightarrow> bytes \<Rightarrow> go_error + 'm" where
  "Unmarshal dec parse data =
     (case parse data of
        Inl err \<Rightarrow> Inl err
      | Inr j \<Rightarrow> (case dec j of None \<Rightarrow> Inl (Opaque ''json: cannot unmarshal'') | Some m \<Rightarrow> Inr m))"

subsection \<open>A frame read back\<close>

lemma four_bytes:
  fixes n :: nat
  assumes "n < 2 ^ 32"
  shows "((n div 16777216 mod 256 * 256 + n div 65536 mod 256) * 256 + n div 256 mod 256) * 256 + n mod 256 = n"
proof -
  have "n div 16777216 mod 256 = n div 65536 div 256"
    using assms by (simp add: less_mult_imp_div_less div_mult2_eq [symmetric])
  moreover have "n div 65536 = n div 256 div 256" by (simp add: div_mult2_eq [symmetric])
  ultimately show ?thesis by (metis div_mult_mod_eq)
qed

lemma Uint32_PutUint32 [simp]: "Uint32 (PutUint32 w) = w"
proof -
  have b: "byte (char_of n) = n mod 256" for n :: nat by (simp add: byte_def of_char_of)
  have p: "push_bit 8 v = word_of_nat 256 * v" for v :: "32 word" by (simp add: push_bit_eq_mult)
  have "Uint32 (PutUint32 w) =
    word_of_nat (((unat w div 16777216 mod 256 * 256 + unat w div 65536 mod 256) * 256 + unat w div 256 mod 256) * 256
      + unat w mod 256)"
    by (simp add: Uint32_def PutUint32_def p b unat_drop_bit_eq drop_bit_eq_div [where ?'a = nat] algebra_simps)
  also have "\<dots> = word_of_nat (unat w)"
    by (subst four_bytes) (rule order.strict_trans2 [OF unsigned_less], simp_all)
  also have "\<dots> = w" by simp
  finally show ?thesis .
qed

lemma length_PutUint32 [simp]: "length (PutUint32 w) = 4"
  by (simp add: PutUint32_def)

lemma frame_read:
  assumes "length data \<le> 10485760"
  shows "readMessage unmarshal (PutUint32 (word_of_nat (length data)) @ data @ rest) =
    (case unmarshal data of Inl err \<Rightarrow> (Inl (Errorf_w ''unmarshaling message'' err), rest) | Inr msg \<Rightarrow> (Inr msg, rest))"
proof -
  have u: "unat (word_of_nat (length data) :: 32 word) = length data"
    using assms by (simp add: unat_of_nat)
  have "\<not> (word_of_nat (length data) :: 32 word) > maxMessage"
    using assms by (simp add: word_less_nat_alt u maxMessage_def)
  then show ?thesis by (auto simp: readMessage_def ReadFull_def u Let_def split: sum.splits)
qed

text \<open>The frames of a run of messages, and reading so many messages one after the other.\<close>

fun write_all :: "('m \<Rightarrow> go_error + bytes) \<Rightarrow> 'm list \<Rightarrow> bytes \<Rightarrow> go_error option \<times> bytes" where
  "write_all marshal [] sent = (None, sent)"
| "write_all marshal (m # ms) sent =
     (case writeMessage marshal All_written All_written m sent of
        (Some err, sent) \<Rightarrow> (Some err, sent)
      | (None, sent) \<Rightarrow> write_all marshal ms sent)"

fun read_all :: "(bytes \<Rightarrow> go_error + 'm) \<Rightarrow> nat \<Rightarrow> bytes \<Rightarrow> 'm list \<times> go_error option" where
  "read_all unmarshal 0 stream = ([], None)"
| "read_all unmarshal (Suc n) stream =
     (case readMessage unmarshal stream of
        (Inl err, stream) \<Rightarrow> ([], Some err)
      | (Inr m, stream) \<Rightarrow> (case read_all unmarshal n stream of (ms, e) \<Rightarrow> (m # ms, e)))"

lemma write_all_frames:
  assumes "\<And>m. m \<in> set ms \<Longrightarrow> marshal m = Inr (data m)"
  shows "write_all marshal ms sent = (None, sent @ concat (map (\<lambda>m. PutUint32 (word_of_nat (length (data m))) @ data m) ms))"
  using assms
proof (induction ms arbitrary: sent)
  case (Cons m ms)
  then show ?case by (simp add: writeMessage_def conn_Write_def)
qed simp

lemma read_all_frames:
  assumes "\<And>m. m \<in> set ms \<Longrightarrow> unmarshal (data m) = Inr m \<and> length (data m) \<le> 10485760"
  shows "read_all unmarshal (length ms)
    (concat (map (\<lambda>m. PutUint32 (word_of_nat (length (data m))) @ data m) ms) @ rest) = (ms, None)"
  using assms
proof (induction ms)
  case (Cons m ms)
  then show ?case by (simp add: frame_read)
qed simp

lemma frames_carry:
  assumes codec: "\<And>m. m \<in> set ms \<Longrightarrow> dec (enc m) = Some m"
    and printed: "\<And>m. m \<in> set ms \<Longrightarrow> parse (print (enc m)) = Inr (enc m) \<and> length (print (enc m)) \<le> 10485760"
    and sent: "write_all (Marshal enc print) ms [] = (err, sent)"
  shows "err = None \<and> read_all (Unmarshal dec parse) (length ms) (sent @ rest) = (ms, None)"
proof -
  note w = write_all_frames [of ms "Marshal enc print" "\<lambda>m. print (enc m)" "[]"]
  have "Unmarshal dec parse (print (enc m)) = Inr m \<and> length (print (enc m)) \<le> 10485760" if "m \<in> set ms" for m
    using codec [OF that] printed [OF that] by (simp add: Unmarshal_def)
  note r = read_all_frames [of ms "Unmarshal dec parse" "\<lambda>m. print (enc m)" rest, OF this]
  have "sent = concat (map (\<lambda>m. PutUint32 (word_of_nat (length (print (enc m)))) @ print (enc m)) ms) \<and> err = None"
    using w sent by (simp add: Marshal_def)
  then show ?thesis using r by simp
qed

definition sample_request :: Request where
  "sample_request = \<lparr>rq_Command = CmdUp, rq_Targets = [''dev/db''], rq_Follow = False\<rparr>"

text \<open>
  C29: What one side writes the other reads: any run of responses that fit the size limit, sent
  one after the other, arrives whole, in order and unchanged in every field, pointers and empty
  fields included, whatever follows on the connection; so do requests. The printer and the parser
  of JSON text are the library's, assumed inverse on the trees at hand.
\<close>

theorem messages_round_trip:
  assumes "\<And>j. j \<in> json_Response ` set rs \<union> json_Request ` set qs \<Longrightarrow>
      parse (print j) = Inr j \<and> length (print j) \<le> 10 * 1024 * 1024"
  shows "(let (err, sent) = write_all (Marshal json_Response print) rs []
          in err = None \<and> read_all (Unmarshal of_Response parse) (length rs) (sent @ rest) = (rs, None)) \<and>
    (let (err, sent) = write_all (Marshal json_Request print) qs []
     in err = None \<and> read_all (Unmarshal of_Request parse) (length qs) (sent @ rest) = (qs, None))"
proof -
  have "err = None \<and> read_all (Unmarshal of_Response parse) (length rs) (sent @ rest) = (rs, None)"
    if "write_all (Marshal json_Response print) rs [] = (err, sent)" for err sent
    by (rule frames_carry [of rs of_Response json_Response, OF _ _ that]) (auto simp: of_json_Response assms [simplified])
  moreover have "err = None \<and> read_all (Unmarshal of_Request parse) (length qs) (sent @ rest) = (qs, None)"
    if "write_all (Marshal json_Request print) qs [] = (err, sent)" for err sent
    by (rule frames_carry [of qs of_Request json_Request, OF _ _ that]) (auto simp: of_json_Request assms [simplified])
  ultimately show ?thesis by (auto split: prod.splits)
qed

theorem messages_round_trip_witness:
  "let (err, sent) = write_all (Marshal json_Request (\<lambda>_. ''{}'')) [sample_request] []
   in err = None \<and>
      read_all (Unmarshal of_Request (\<lambda>_. Inr (json_Request sample_request))) (length [sample_request]) (sent @ ''tail'')
        = ([sample_request], None)"
proof -
  have "parse (print j) = Inr j \<and> length (print j) \<le> 10 * 1024 * 1024"
    if "j \<in> json_Response ` set [] \<union> json_Request ` set [sample_request]" "print = (\<lambda>_. ''{}'')"
      "parse = (\<lambda>_. Inr (json_Request sample_request))" for j :: json and print and parse :: "string \<Rightarrow> go_error + json"
    using that by simp
  from messages_round_trip [of "[]" "[sample_request]", OF this [OF _ refl refl]]
  show ?thesis by blast
qed

text \<open>
  The size limit holds on the reading side only: a message whose text is longer than 10 MiB
  and shorter than 4 GiB is written without an error, and the reader refuses it and leaves the
  text itself on the connection, where the next read takes it for frames.
\<close>

lemma oversized_message_refused:
  assumes "marshal msg = Inr data" and "10 * 1024 * 1024 < length data" and "length data < 2 ^ 32"
  shows "let (err, sent) = writeMessage marshal All_written All_written msg []
    in err = None \<and>
       readMessage unmarshal sent = (Inl (Opaque (''message too large: '' @ show_nat (length data) @ '' bytes'')), data)"
proof -
  have u: "unat (word_of_nat (length data) :: 32 word) = length data"
    using assms(3) by (simp add: unat_of_nat)
  have "(word_of_nat (length data) :: 32 word) > maxMessage"
    using assms(2) by (simp add: word_less_nat_alt u maxMessage_def)
  then show ?thesis
    using assms(1) by (simp add: writeMessage_def conn_Write_def readMessage_def ReadFull_def u Let_def)
qed

lemma oversized_message_refused_witness:
  "let (err, sent) = writeMessage (\<lambda>_ :: unit. Inr (replicate 10485761 (CHR ''x''))) All_written All_written () []
    in err = None \<and> readMessage (\<lambda>_. Inr ()) sent =
      (Inl (Opaque (''message too large: '' @ show_nat 10485761 @ '' bytes'')), replicate 10485761 (CHR ''x''))"
  using oversized_message_refused [of "\<lambda>_ :: unit. Inr (replicate 10485761 (CHR ''x''))" "()" "replicate 10485761 (CHR ''x'')" "\<lambda>_. Inr ()"]
  by simp

text \<open>
  Every engine event crosses as an envelope with exactly one body, the one its kind names, and
  the body's fields are the event's.
\<close>

lemma envelope_kind:
  "(ev_Log (eventToEnvelope quote e) \<noteq> None \<longleftrightarrow> ev_Kind (eventToEnvelope quote e) = EnvelopeKindLog) \<and>
   (ev_State (eventToEnvelope quote e) \<noteq> None \<longleftrightarrow> ev_Kind (eventToEnvelope quote e) = EnvelopeKindState) \<and>
   (ev_Creds (eventToEnvelope quote e) \<noteq> None \<longleftrightarrow> ev_Kind (eventToEnvelope quote e) = EnvelopeKindCredsExpired) \<and>
   (ev_ProfileDone (eventToEnvelope quote e) \<noteq> None \<longleftrightarrow> ev_Kind (eventToEnvelope quote e) = EnvelopeKindProfileDone)"
  by (cases e) (simp_all add: no_envelope_def kind_defs)

end
