(* ===== verification/Client.thy ===== *)
theory Client
  imports Protocol
begin

text \<open>
  \<open>internal/daemon/client.go\<close>: one command and its response, and the two streaming calls. What the
  connection delivers before it ends is the byte string \<open>stream\<close>; a callback is a function on a
  state of its own that answers whether to go on. \<open>conn_answers\<close> holds what dialling and the two
  writes of the request do.
\<close>

record conn_answers =
  ca_dial :: "go_error option"
  ca_write_length :: wrote
  ca_write_data :: wrote

type_synonym codec = "(json \<Rightarrow> string) \<times> (string \<Rightarrow> go_error + json)"

definition send_request :: "codec \<Rightarrow> conn_answers \<Rightarrow> Request \<Rightarrow> go_error option \<times> bytes" where
  "send_request c a req =
     (case ca_dial a of
        Some err \<Rightarrow> (Some (Errorf_w ''connecting to daemon'' err), [])
      | None \<Rightarrow>
          (case writeMessage (Marshal json_Request (fst c)) (ca_write_length a) (ca_write_data a) req [] of
             (Some err, sent) \<Rightarrow> (Some (Errorf_w ''sending request'' err), sent)
           | (None, sent) \<Rightarrow> (None, sent)))"

definition read_response :: "codec \<Rightarrow> bytes \<Rightarrow> (go_error + Response) \<times> bytes" where
  "read_response c stream = readMessage (Unmarshal of_Response (snd c)) stream"

definition SendCommand :: "codec \<Rightarrow> conn_answers \<Rightarrow> bytes \<Rightarrow> Request \<Rightarrow> go_error + Response" where
  "SendCommand c a stream req =
     (case send_request c a req of
        (Some err, _) \<Rightarrow> Inl err
      | (None, _) \<Rightarrow>
          (case read_response c stream of
             (Inl err, _) \<Rightarrow> Inl (Errorf_w ''reading response'' err)
           | (Inr resp, _) \<Rightarrow> Inr resp))"

lemma ReadFull_rest: "ReadFull n stream = (Inr data, rest) \<Longrightarrow> length rest + n = length stream"
  by (auto simp: ReadFull_def split: if_splits)

text \<open>Every message takes at least its four length bytes off the stream: the reading loops end.\<close>

lemma readMessage_shorter:
  assumes "readMessage unmarshal stream = (Inr msg, rest)"
  shows "length rest < length stream"
proof -
  obtain data s1 where 1: "ReadFull 4 stream = (Inr data, s1)"
    using assms by (auto simp: readMessage_def split: prod.splits sum.splits)
  moreover from 1 assms obtain d2 where "ReadFull (unat (Uint32 data)) s1 = (Inr d2, rest)"
    by (auto simp: readMessage_def Let_def split: prod.splits sum.splits if_splits)
  ultimately show ?thesis by (auto dest!: ReadFull_rest)
qed

function stream_loop :: "codec \<Rightarrow> (Response \<Rightarrow> 's \<Rightarrow> bool \<times> 's) \<Rightarrow> bytes \<Rightarrow> 's \<Rightarrow> 's" where
  "stream_loop c callback stream s =
     (case read_response c stream of
        (Inl err, _) \<Rightarrow> s
      | (Inr resp, rest) \<Rightarrow>
          (case callback resp s of
             (True, s) \<Rightarrow> stream_loop c callback rest s
           | (False, s) \<Rightarrow> s))"
  by pat_completeness auto

termination
  by (relation "measure (\<lambda>(c, callback, stream, s). length stream)")
    (auto simp: read_response_def dest: readMessage_shorter [OF sym])

declare stream_loop.simps [simp del]

text \<open>The common part of both streaming calls: the request, then the daemon's first answer.\<close>

definition open_stream :: "codec \<Rightarrow> conn_answers \<Rightarrow> bytes \<Rightarrow> Request \<Rightarrow> go_error + bytes" where
  "open_stream c a stream req =
     (case send_request c a req of
        (Some err, _) \<Rightarrow> Inl err
      | (None, _) \<Rightarrow>
          (case read_response c stream of
             (Inl err, _) \<Rightarrow> Inl (Errorf_w ''reading initial response'' err)
           | (Inr initial, rest) \<Rightarrow>
               if \<not> rs_OK initial then Inl (Opaque (''daemon error: '' @ rs_Error initial)) else Inr rest))"

definition StreamLogs ::
  "codec \<Rightarrow> conn_answers \<Rightarrow> bytes \<Rightarrow> Request \<Rightarrow> (Response \<Rightarrow> 's \<Rightarrow> bool \<times> 's) \<Rightarrow> 's \<Rightarrow> go_error option \<times> 's" where
  "StreamLogs c a stream req callback s =
     (case open_stream c a stream req of
        Inl err \<Rightarrow> (Some err, s)
      | Inr rest \<Rightarrow> (None, stream_loop c callback rest s))"

definition envelopes_only :: "(EventEnvelope \<Rightarrow> 's \<Rightarrow> bool \<times> 's) \<Rightarrow> Response \<Rightarrow> 's \<Rightarrow> bool \<times> 's" where
  "envelopes_only callback resp s =
     (case rs_Envelope resp of None \<Rightarrow> (True, s) | Some env \<Rightarrow> callback env s)"

definition StreamEvents ::
  "codec \<Rightarrow> conn_answers \<Rightarrow> bytes \<Rightarrow> Request \<Rightarrow> (EventEnvelope \<Rightarrow> 's \<Rightarrow> bool \<times> 's) \<Rightarrow> 's \<Rightarrow> go_error option \<times> 's" where
  "StreamEvents c a stream req callback s =
     (case open_stream c a stream req of
        Inl err \<Rightarrow> (Some err, s)
      | Inr rest \<Rightarrow> (None, stream_loop c (envelopes_only callback) rest s))"

definition IsRunning :: "go_error option \<Rightarrow> bool" where
  "IsRunning dial = (dial = None)"

section \<open>What a client sees of the responses a daemon sent\<close>

definition codec_ok :: "codec \<Rightarrow> json \<Rightarrow> bool" where
  "codec_ok c j \<longleftrightarrow> snd c (fst c j) = Inr j \<and> length (fst c j) \<le> 10 * 1024 * 1024"

definition frame :: "codec \<Rightarrow> Response \<Rightarrow> bytes" where
  "frame c r = (let data = fst c (json_Response r) in PutUint32 (word_of_nat (length data)) @ data)"

lemma writeMessage_frame:
  "writeMessage (Marshal json_Response (fst c)) All_written All_written r sent = (None, sent @ frame c r)"
  by (simp add: writeMessage_def Marshal_def conn_Write_def frame_def Let_def)

lemma read_response_frame:
  assumes "codec_ok c (json_Response r)"
  shows "read_response c (frame c r @ rest) = (Inr r, rest)"
  using assms frame_read [of "fst c (json_Response r)" "Unmarshal of_Response (snd c)" rest]
  by (simp add: read_response_def frame_def codec_ok_def Let_def Unmarshal_def of_json_Response)

lemma read_response_end: "read_response c [] = (Inl (Errorf_w ''reading length'' EOF), [])"
  by (simp add: read_response_def readMessage_def ReadFull_def)

lemma stream_loop_frames:
  assumes "\<And>r. r \<in> set rs \<Longrightarrow> codec_ok c (json_Response r)"
  shows "stream_loop c callback (concat (map (frame c) rs)) s =
    (case foldl (\<lambda>(go, s) r. if go then callback r s else (go, s)) (True, s) rs of (_, s) \<Rightarrow> s)"
  using assms
proof (induction rs arbitrary: s)
  case Nil
  show ?case by (subst stream_loop.simps) (simp add: read_response_end)
next
  case (Cons r rs)
  have stay: "foldl (\<lambda>(go, s) r. if go then callback r s else (go, s)) (False, t) rs = (False, t)" for t
    by (induction rs) auto
  have "codec_ok c (json_Response r)" using Cons.prems by simp
  note read = read_response_frame [OF this, of "concat (map (frame c) rs)"]
  show ?case
  proof (cases "callback r s")
    case (Pair go t)
    then show ?thesis
      using Cons stay read by (subst stream_loop.simps) (cases go; simp)
  qed
qed

end
