(* ===== verification/Server.thy ===== *)
theory Server
  imports Engine Client
begin

text \<open>
  \<open>internal/daemon/server.go\<close>: the commands a connection can send and what the daemon answers. A
  connection is served by one goroutine; its effect on the engine is the engine's own \<open>Start\<close> and
  \<open>Stop\<close>. A stream is driven by what its \<open>select\<close> sees, a list of \<open>stream_input\<close>, and by how many
  of its writes succeed.
\<close>

fun engine_error_text :: "(string \<Rightarrow> string) \<Rightarrow> engine_error \<Rightarrow> string" where
  "engine_error_text quote (Unknown_profile p) = ''unknown profile: '' @ quote p"
| "engine_error_text quote (Unknown_service s) = ''unknown service: '' @ quote s"
| "engine_error_text quote (Allocating_IP key err) =
     ''allocating IP for '' @ key @ '': '' @
     alloc_error_text err"

definition handleUp :: "(string \<Rightarrow> string) \<Rightarrow> instant \<Rightarrow> Request \<Rightarrow> Engine \<Rightarrow> Response \<times> Engine" where
  "handleUp quote now req e =
     (case engine_Start now (rq_Targets req) e of
        (Some err, e) \<Rightarrow> (resp_error (engine_error_text quote err), e)
      | (None, e) \<Rightarrow> (resp_ok, e))"

text \<open>
  \<open>Stop\<close> between its two parts runs \<open>stopService\<close> for every instance found, each in a goroutine of
  its own: \<open>stopped\<close> is the engine as they leave it.
\<close>

definition handleDown ::
  "(string \<Rightarrow> string) \<Rightarrow> instant \<Rightarrow> go_error option \<Rightarrow> (nat list \<Rightarrow> Engine \<Rightarrow> Engine) \<Rightarrow> Request \<Rightarrow> Engine \<Rightarrow>
   Response \<times> Engine" where
  "handleDown quote now dns_err stopped req e =
     (case Stop_begin (rq_Targets req) e of
        Inl err \<Rightarrow> (resp_error (engine_error_text quote err), e)
      | Inr toStop \<Rightarrow> (resp_ok, Stop_end now dns_err toStop (stopped toStop e)))"

section \<open>Status\<close>

definition status_base :: "string \<Rightarrow> Service \<Rightarrow> StatusEntry" where
  "status_base profileName svc =
     \<lparr>se_Profile = profileName, se_ServiceName = Name svc, se_DNSName = DNSName svc,
      se_LocalPort = LocalPort svc, se_LocalAddr = [], se_State = state_String Disconnected,
      se_ConnectedAt = [], se_Error = []\<rparr>"

type_synonym status_table = "(string \<times> StatusEntry) list \<times> string list"

definition add_configured :: "string \<times> Service \<Rightarrow> status_table \<Rightarrow> status_table" where
  "add_configured t tab =
     (let key = service_key (fst t) (snd t)
      in (map_put key (status_base (fst t) (snd t)) (fst tab), snd tab @ [key]))"

definition configured_table :: "Config \<Rightarrow> status_table" where
  "configured_table cfg =
     fold add_configured (config_services cfg) ([], [])"

definition overlay :: "instant \<Rightarrow> ServiceStatus \<Rightarrow> StatusEntry \<Rightarrow> StatusEntry" where
  "overlay now st entry =
     (let entry = entry\<lparr>se_DNSName := st_DNSName st, se_LocalAddr := st_LocalAddr st,
            se_State := state_String (st_State st)\<rparr>;
          entry = (case st_ConnectedAt st of
              Some t \<Rightarrow> if st_State st = Connected
                then entry\<lparr>se_ConnectedAt := Duration_String (truncate_second (now - t))\<rparr> else entry
            | None \<Rightarrow> entry)
      in case st_Error st of None \<Rightarrow> entry | Some err \<Rightarrow> entry\<lparr>se_Error := error_text err\<rparr>)"

definition st_key :: "ServiceStatus \<Rightarrow> string" where
  "st_key st = st_Profile st @ ''/'' @ st_ServiceName st"

definition add_live :: "instant \<Rightarrow> ServiceStatus \<Rightarrow> status_table \<Rightarrow> status_table" where
  "add_live now st tab =
     (let key = st_key st
      in case map_of (fst tab) key of
          Some entry \<Rightarrow> (map_put key (overlay now st entry) (fst tab), snd tab)
        | None \<Rightarrow>
            (map_put key (overlay now st
               \<lparr>se_Profile = st_Profile st, se_ServiceName = st_ServiceName st, se_DNSName = [], se_LocalPort = 0,
                se_LocalAddr = [], se_State = [], se_ConnectedAt = [], se_Error = []\<rparr>) (fst tab),
             snd tab @ [key]))"

definition status_entries :: "instant \<Rightarrow> Config \<Rightarrow> ServiceStatus list \<Rightarrow> StatusEntry list" where
  "status_entries now cfg sts =
     (let (byKey, order) = fold (add_live now) sts (configured_table cfg)
      in map (\<lambda>key. the (map_of byKey key)) order)"

definition handleStatus :: "instant \<Rightarrow> Engine \<Rightarrow> Response" where
  "handleStatus now e = resp_ok\<lparr>rs_Statuses := status_entries now (e_cfg e) (Status e)\<rparr>"

section \<open>Streams\<close>

datatype stream_input = Ctx_done | Client_gone | Events_closed | An_event event

text \<open>\<open>eventToLogEntry\<close>: everything but \<open>ProfileDone\<close> has a line in the log stream.\<close>

fun eventToLogEntry :: "(string \<Rightarrow> string) \<Rightarrow> event \<Rightarrow> EngineLogEntry option" where
  "eventToLogEntry quote (LogEntry lvl msg profile service t) =
     Some \<lparr>le_Level = level_text lvl, le_Message = log_text quote msg, le_Profile = profile, le_Service = service, le_Time = t\<rparr>"
| "eventToLogEntry quote (ServiceStateChanged profile service dns from to err t) =
     Some \<lparr>le_Level = ''info'',
       le_Message = profile @ ''/'' @ service @ '': '' @ state_String from @ '' -> '' @ state_String to
         @ (case err of None \<Rightarrow> [] | Some e \<Rightarrow> '' ('' @ error_text e @ '')''),
       le_Profile = profile, le_Service = service, le_Time = t\<rparr>"
| "eventToLogEntry quote (CredentialsExpired profile aws service detail t) =
     Some \<lparr>le_Level = ''error'',
       le_Message = ''credentials expired '' @ em_dash @ '' run: aws sso login --profile '' @ aws,
       le_Profile = profile, le_Service = service, le_Time = t\<rparr>"
| "eventToLogEntry quote (ProfileDone profile t) = None"

text \<open>The responses written, when \<open>room\<close> more writes succeed.\<close>

fun logs_loop :: "(string \<Rightarrow> string) \<Rightarrow> bool \<Rightarrow> nat \<Rightarrow> stream_input list \<Rightarrow> Response list" where
  "logs_loop quote follow room (An_event evt # ins) =
     (case eventToLogEntry quote evt of
        None \<Rightarrow> logs_loop quote follow room ins
      | Some l \<Rightarrow>
          (case room of
             0 \<Rightarrow> []
           | Suc room \<Rightarrow> resp_ok\<lparr>rs_Event := Some l\<rparr> # (if follow then logs_loop quote follow room ins else [])))"
| "logs_loop quote follow room (Client_gone # ins) = logs_loop quote follow room ins"
| "logs_loop quote follow room _ = []"

definition handleLogs :: "(string \<Rightarrow> string) \<Rightarrow> bool \<Rightarrow> nat \<Rightarrow> stream_input list \<Rightarrow> Response list" where
  "handleLogs quote follow room ins =
     (case room of 0 \<Rightarrow> [] | Suc room \<Rightarrow> resp_ok # logs_loop quote follow room ins)"

fun envelope_loop :: "(string \<Rightarrow> string) \<Rightarrow> nat \<Rightarrow> stream_input list \<Rightarrow> Response list" where
  "envelope_loop quote room (An_event evt # ins) =
     (case room of
        0 \<Rightarrow> []
      | Suc room \<Rightarrow> resp_ok\<lparr>rs_Envelope := Some (eventToEnvelope quote evt)\<rparr> # envelope_loop quote room ins)"
| "envelope_loop quote room _ = []"

definition streamEnvelopes :: "(string \<Rightarrow> string) \<Rightarrow> nat \<Rightarrow> stream_input list \<Rightarrow> Response list" where
  "streamEnvelopes quote room ins =
     (case room of 0 \<Rightarrow> [] | Suc room \<Rightarrow> resp_ok # envelope_loop quote room ins)"

section \<open>Connections\<close>

text \<open>
  What a connection does: the responses it is sent and the engine after it. A tray registration
  counts while its stream lasts, see \<open>tray_count\<close>.
\<close>

record conn_env =
  ce_quote :: "string \<Rightarrow> string"
  ce_now :: instant
  ce_dns :: "go_error option"
  ce_stopped :: "nat list \<Rightarrow> Engine \<Rightarrow> Engine"
  ce_room :: nat
  ce_inputs :: "stream_input list"

definition handleConnection :: "conn_env \<Rightarrow> go_error + Request \<Rightarrow> Engine \<Rightarrow> Response list \<times> Engine" where
  "handleConnection c r e =
     (case r of
        Inl err \<Rightarrow> ([resp_error (''reading request: '' @ error_text err)], e)
      | Inr req \<Rightarrow>
          if rq_Command req = CmdUp then
            (case handleUp (ce_quote c) (ce_now c) req e of (resp, e) \<Rightarrow> ([resp], e))
          else if rq_Command req = CmdDown then
            (case handleDown (ce_quote c) (ce_now c) (ce_dns c) (ce_stopped c) req e of (resp, e) \<Rightarrow> ([resp], e))
          else if rq_Command req = CmdStatus then ([handleStatus (ce_now c) e], e)
          else if rq_Command req = CmdLogs then (handleLogs (ce_quote c) (rq_Follow req) (ce_room c) (ce_inputs c), e)
          else if rq_Command req = CmdSubscribe then (streamEnvelopes (ce_quote c) (ce_room c) (ce_inputs c), e)
          else if rq_Command req = CmdTrayRegister then (streamEnvelopes (ce_quote c) (ce_room c) (ce_inputs c), e)
          else ([resp_error (''unknown command: '' @ rq_Command req)], e))"

text \<open>\<open>hasTrayClient\<close>: one up when a tray registers, one down when its connection is over.\<close>

datatype tray_move = Tray_registered | Tray_left

definition tray_count :: "tray_move \<Rightarrow> int \<Rightarrow> int" where
  "tray_count mv n = (case mv of Tray_registered \<Rightarrow> n + 1 | Tray_left \<Rightarrow> n - 1)"

definition hasTrayClientLoad :: "int \<Rightarrow> bool" where
  "hasTrayClientLoad n = (n > 0)"

end
