(* ===== verification/Server_Theorems.thy ===== *)
theory Server_Theorems
  imports Server Engine_Theorems
begin

text \<open>
  What the daemon promises its clients: the status reply is the configuration overlaid with the
  running instances, every command is answered once, and a stream carries the engine's events to
  the client's callback, in order.
\<close>

section \<open>Status\<close>

definition blank_entry :: "ServiceStatus \<Rightarrow> StatusEntry" where
  "blank_entry st =
     \<lparr>se_Profile = st_Profile st, se_ServiceName = st_ServiceName st, se_DNSName = [], se_LocalPort = 0,
      se_LocalAddr = [], se_State = [], se_ConnectedAt = [], se_Error = []\<rparr>"

definition find_status :: "string \<Rightarrow> ServiceStatus list \<Rightarrow> ServiceStatus option" where
  "find_status key sts = find (\<lambda>st. st_key st = key) sts"

lemma find_status_Cons: "find_status k (st # sts) = (if st_key st = k then Some st else find_status k sts)"
  by (simp add: find_status_def)

lemma find_status_None: "find_status k sts = None \<longleftrightarrow> k \<notin> st_key ` set sts"
  by (auto simp: find_status_def find_None_iff)

lemma fold_configured:
  "distinct (map target_key ts) \<Longrightarrow> set (map target_key ts) \<inter> set (keys (fst tab)) = {} \<Longrightarrow>
   snd (fold add_configured ts tab) = snd tab @ map target_key ts \<and>
   map_of (fst (fold add_configured ts tab)) =
     map_of (fst tab) ++ map_of (rev (map (\<lambda>t. (target_key t, status_base (fst t) (snd t))) ts)) \<and>
   set (keys (fst (fold add_configured ts tab))) = set (keys (fst tab)) \<union> target_key ` set ts"
proof (induction ts arbitrary: tab)
  case (Cons t ts)
  have step: "add_configured t tab = (map_put (target_key t) (status_base (fst t) (snd t)) (fst tab), snd tab @ [target_key t])"
    by (simp add: add_configured_def target_key_def Let_def)
  show ?case
    using Cons.IH [of "add_configured t tab"] Cons.prems
    by (simp add: step set_keys_map_put map_add_upd_left map_add_def fun_eq_iff split: option.splits)
qed simp

lemma fold_live:
  assumes "distinct (map st_key sts)" and "set (snd tab) = set (keys (fst tab))"
  shows "snd (fold (add_live now) sts tab) = snd tab @ filter (\<lambda>k. k \<notin> set (snd tab)) (map st_key sts) \<and>
    map_of (fst (fold (add_live now) sts tab)) k =
      (case find_status k sts of
         None \<Rightarrow> map_of (fst tab) k
       | Some st \<Rightarrow> Some (overlay now st (case map_of (fst tab) k of Some e \<Rightarrow> e | None \<Rightarrow> blank_entry st)))"
  using assms
proof (induction sts arbitrary: tab)
  case Nil
  then show ?case by (simp add: find_status_def)
next
  case (Cons st sts)
  have inv: "set (snd (add_live now st tab)) = set (keys (fst (add_live now st tab)))"
    using Cons.prems(2)
    by (auto simp: add_live_def Let_def set_keys_map_put dest: map_of_Some_keys split: option.splits)
  have mem: "st_key st \<in> set (snd tab) \<longleftrightarrow> map_of (fst tab) (st_key st) \<noteq> None"
    by (simp add: Cons.prems(2) map_of_eq_None_keys)
  have order: "snd (add_live now st tab) = snd tab @ (if st_key st \<in> set (snd tab) then [] else [st_key st])"
    using mem by (auto simp: add_live_def Let_def split: option.splits)
  have "map_of (fst (add_live now st tab)) = (map_of (fst tab))(st_key st \<mapsto>
      overlay now st (case map_of (fst tab) (st_key st) of Some e \<Rightarrow> e | None \<Rightarrow> blank_entry st))"
    by (simp add: add_live_def Let_def blank_entry_def split: option.splits)
  moreover have "filter (\<lambda>k. k \<notin> set (snd (add_live now st tab))) (map st_key sts) = filter (\<lambda>k. k \<notin> set (snd tab)) (map st_key sts)"
    using Cons.prems(1) order by (intro filter_cong) (auto simp: image_iff)
  moreover have "find_status (st_key st) sts = None" using Cons.prems(1) by (auto simp: find_status_None)
  ultimately show ?case
    using Cons.IH [OF _ inv] Cons.prems(1) order by (auto simp: find_status_Cons split: option.splits)
qed

text \<open>What a client is told of one configured service and of a service only running.\<close>

definition entry_of :: "instant \<Rightarrow> ServiceStatus list \<Rightarrow> string \<times> Service \<Rightarrow> StatusEntry" where
  "entry_of now sts t =
     (case find_status (target_key t) sts of
        None \<Rightarrow> status_base (fst t) (snd t)
      | Some st \<Rightarrow> overlay now st (status_base (fst t) (snd t)))"

lemma status_entries_exact:
  assumes cfg: "distinct (map target_key (config_services cfg))" and sts: "distinct (map st_key sts)"
  shows "status_entries now cfg sts =
    map (entry_of now sts) (config_services cfg) @
    map (\<lambda>st. overlay now st (blank_entry st)) (filter (\<lambda>st. st_key st \<notin> target_key ` set (config_services cfg)) sts)"
proof -
  let ?ts = "config_services cfg" and ?tab = "configured_table cfg"
  note c = fold_configured [OF cfg, of "([], [])", simplified, folded configured_table_def]
  have order: "snd ?tab = map target_key ?ts" and m: "map_of (fst ?tab) = map_of (rev (map (\<lambda>t. (target_key t, status_base (fst t) (snd t))) ?ts))"
    and ks: "set (snd ?tab) = set (keys (fst ?tab))"
    using c by auto
  have base: "map_of (fst ?tab) (target_key t) = Some (status_base (fst t) (snd t))" if "t \<in> set ?ts" for t
  proof -
    have "distinct (map fst (rev (map (\<lambda>t. (target_key t, status_base (fst t) (snd t))) ?ts)))"
      using cfg by (simp add: rev_map [symmetric] comp_def)
    then show ?thesis using that m by (auto intro!: map_of_is_SomeI)
  qed
  have absent: "map_of (fst ?tab) k = None" if "k \<notin> target_key ` set ?ts" for k
    using that ks order by (simp add: map_of_eq_None_keys)
  note l = fold_live [OF sts ks, of now]
  have 1: "the (map_of (fst (fold (add_live now) sts ?tab)) (target_key t)) = entry_of now sts t" if "t \<in> set ?ts" for t
    using l base [OF that] by (simp add: entry_of_def split: option.splits)
  have 2: "the (map_of (fst (fold (add_live now) sts ?tab)) (st_key st)) = overlay now st (blank_entry st)"
    if "st \<in> set sts" "st_key st \<notin> target_key ` set ?ts" for st
  proof -
    have "find_status (st_key st) sts = Some st"
      using that(1) sts by (induction sts) (auto simp: find_status_Cons)
    then show ?thesis using l absent [OF that(2)] by simp
  qed
  have "status_entries now cfg sts = map (\<lambda>k. the (map_of (fst (fold (add_live now) sts ?tab)) k))
      (map target_key ?ts @ filter (\<lambda>k. k \<notin> set (map target_key ?ts)) (map st_key sts))"
    using l order by (simp add: status_entries_def split_beta)
  then show ?thesis using 1 2 by (simp add: filter_map comp_def)
qed

lemma status_keys:
  assumes "engine_ok e"
  shows "map st_key (Status e) = keys (instances e)"
    and "find_status key (Status e) = map_option (\<lambda>n. status_of (objs e ! n)) (map_of (instances e) key)"
proof -
  have key: "st_key (status_of (objs e ! n)) = k" if "(k, n) \<in> set (instances e)" for k n
    using assms that by (auto simp: engine_ok_def inst_ok_def st_key_def status_of_def obj_key_def service_key_def)
  then show "map st_key (Status e) = keys (instances e)"
    by (auto simp: Status_def keys_def)
  have "find_status key (map (\<lambda>(k, n). status_of (objs e ! n)) es) = map_option (\<lambda>n. status_of (objs e ! n)) (map_of es key)"
    if "set es \<subseteq> set (instances e)" for es
    using that by (induction es) (auto simp: find_status_Cons key find_status_def)
  then show "find_status key (Status e) = map_option (\<lambda>n. status_of (objs e ! n)) (map_of (instances e) key)"
    by (simp add: Status_def)
qed

text \<open>
  C26: The status reply names every configured service once, in the order of the configuration: as
  Disconnected with its configured names and port when it has no instance, otherwise with the
  state, address, uptime and error of its instance; after them come the instances of services that
  are not configured.
\<close>

theorem status_reply_exact:
  assumes "engine_ok e" and "config_valid (e_cfg e)" and "distinct (keys (Profiles (e_cfg e)))"
    and "list_all (\<lambda>p. CHR ''/'' \<notin> set p) (keys (Profiles (e_cfg e)))"
  shows "handleStatus now e = resp_ok\<lparr>rs_Statuses :=
    map (\<lambda>t. case map_of (instances e) (target_key t) of
           None \<Rightarrow> status_base (fst t) (snd t)
         | Some n \<Rightarrow> overlay now (status_of (objs e ! n)) (status_base (fst t) (snd t))) (config_services (e_cfg e)) @
    map (\<lambda>st. overlay now st (blank_entry st))
      (filter (\<lambda>st. st_key st \<notin> target_key ` set (config_services (e_cfg e))) (Status e))\<rparr>"
proof -
  have cfg: "distinct (map target_key (config_services (e_cfg e)))"
    using config_keys_distinct [OF assms(2-4)] by (simp add: target_key_def [abs_def] case_prod_unfold)
  have sts: "distinct (map st_key (Status e))"
    using assms(1) status_keys(1) [OF assms(1)] by (simp add: engine_ok_def)
  show ?thesis
    unfolding handleStatus_def status_entries_exact [OF cfg sts]
    by (simp add: entry_of_def [abs_def] status_keys(2) [OF assms(1)] option.case_eq_if option.map_sel cong: map_cong)
qed

theorem status_reply_exact_witness:
  "map (\<lambda>s. (se_Profile s, se_ServiceName s, se_State s)) (rs_Statuses (handleStatus 0 sample_engine)) =
    map (\<lambda>t. (fst t, Name (snd t), ''Disconnected'')) (config_services (sample_config two_profiles))"
proof -
  have slash: "list_all (\<lambda>p. CHR ''/'' \<notin> set p) (keys (Profiles (e_cfg sample_engine)))"
    and dist: "distinct (keys (Profiles (e_cfg sample_engine)))"
    by (simp_all add: sample_engine_def New_def sample_config_def two_profiles_def)
  have inst: "instances sample_engine = []" "Status sample_engine = []" and cfg: "e_cfg sample_engine = sample_config two_profiles"
    by (simp_all add: sample_engine_def New_def Status_def)
  have "state_String Disconnected = ''Disconnected''" by code_simp
  then show ?thesis
    using status_reply_exact [of sample_engine 0, OF _ _ dist slash]
    by (simp add: inst cfg status_base_def comp_def) (simp add: sample_engine_def)
qed

section \<open>A command and its answer\<close>

definition good_conn :: conn_answers where
  "good_conn = \<lparr>ca_dial = None, ca_write_length = All_written, ca_write_data = All_written\<rparr>"

text \<open>
  A whole exchange: the client's bytes, the daemon reading them and serving the connection, and the
  bytes it sends back before it closes.
\<close>

definition conversation :: "codec \<Rightarrow> conn_env \<Rightarrow> Request \<Rightarrow> Engine \<Rightarrow> bytes \<times> Engine" where
  "conversation c env req e =
     (case send_request c good_conn req of (_, sent) \<Rightarrow>
      case handleConnection env (fst (readMessage (Unmarshal of_Request (snd c)) sent)) e of (rs, e') \<Rightarrow>
        (concat (map (frame c) rs), e'))"

lemma request_arrives:
  assumes "codec_ok c (json_Request req)"
  shows "conversation c env req e =
    (case handleConnection env (Inr req) e of (rs, e') \<Rightarrow> (concat (map (frame c) rs), e'))"
    and "\<exists>sent. send_request c good_conn req = (None, sent)"
proof -
  let ?data = "fst c (json_Request req)"
  have sent: "send_request c good_conn req = (None, PutUint32 (word_of_nat (length ?data)) @ ?data @ [])"
    by (simp add: send_request_def good_conn_def writeMessage_def Marshal_def conn_Write_def)
  have "length ?data \<le> 10485760" using assms by (simp add: codec_ok_def)
  from frame_read [OF this, of "Unmarshal of_Request (snd c)" "[]"]
  have "readMessage (Unmarshal of_Request (snd c)) (PutUint32 (word_of_nat (length ?data)) @ ?data @ []) = (Inr req, [])"
    using assms by (simp add: codec_ok_def Unmarshal_def of_json_Request)
  then show "conversation c env req e =
    (case handleConnection env (Inr req) e of (rs, e') \<Rightarrow> (concat (map (frame c) rs), e'))"
    unfolding conversation_def sent by simp
  show "\<exists>sent. send_request c good_conn req = (None, sent)" using sent by blast
qed

lemma first_answer:
  assumes req: "codec_ok c (json_Request req)" and "codec_ok c (json_Response r)"
  shows "SendCommand c good_conn (frame c r @ rest) req = Inr r"
    and "open_stream c good_conn (frame c r @ rest) req =
      (if rs_OK r then Inr rest else Inl (Opaque (''daemon error: '' @ rs_Error r)))"
  using request_arrives(2) [OF req] read_response_frame [OF assms(2)]
  by (auto simp: SendCommand_def open_stream_def)

lemma command_reply:
  assumes "codec_ok c (json_Request req)"
    and "list_all (\<lambda>r. codec_ok c (json_Response r)) (fst (handleConnection env (Inr req) e))"
    and "rq_Command req \<notin> {CmdLogs, CmdSubscribe, CmdTrayRegister}"
    and "conversation c env req e = (stream, e')"
  shows "\<exists>resp. SendCommand c good_conn stream req = Inr resp \<and> stream = frame c resp \<and>
    (if rq_Command req = CmdUp
     then rs_OK resp = (fst (engine_Start (ce_now env) (rq_Targets req) e) = None) \<and>
          e' = snd (engine_Start (ce_now env) (rq_Targets req) e)
     else if rq_Command req = CmdDown
     then (case Stop_begin (rq_Targets req) e of
             Inl err \<Rightarrow> \<not> rs_OK resp \<and> e' = e
           | Inr ns \<Rightarrow> rs_OK resp \<and> e' = Stop_end (ce_now env) (ce_dns env) ns (ce_stopped env ns e))
     else e' = e \<and> (if rq_Command req = CmdStatus then resp = handleStatus (ce_now env) e
                    else \<not> rs_OK resp \<and> rs_Error resp = ''unknown command: '' @ rq_Command req))"
proof -
  obtain resp where one: "handleConnection env (Inr req) e = ([resp], e')" and stream: "stream = frame c resp"
    using assms(3,4) request_arrives(1) [OF assms(1), of env e]
    by (auto simp: handleConnection_def split: if_splits prod.splits)
  have "codec_ok c (json_Response resp)" using assms(2) one by simp
  from first_answer(1) [OF assms(1) this, of "[]"] have "SendCommand c good_conn stream req = Inr resp"
    by (simp add: stream)
  then show ?thesis
    using one stream assms(3)
    by (intro exI [of _ resp])
      (auto simp: handleConnection_def handleUp_def handleDown_def resp_ok_def resp_error_def response_def cmd_defs
        split: if_splits prod.splits option.splits sum.splits)
qed

text \<open>
  C27: Every \<open>up\<close>, \<open>down\<close> and \<open>status\<close> command is answered exactly once, and the client gets that
  answer: success of an \<open>up\<close> or a \<open>down\<close> exactly when the engine's \<open>Start\<close> or \<open>Stop\<close> succeeds,
  and the engine is left as that call leaves it; an unknown command is refused and changes nothing.
\<close>

theorem command_answered:
  assumes "codec_ok c (json_Request req)"
    and "list_all (\<lambda>r. codec_ok c (json_Response r)) (fst (handleConnection env (Inr req) e))"
    and "rq_Command req \<notin> {CmdLogs, CmdSubscribe, CmdTrayRegister}"
    and "conversation c env req e = (stream, e')"
  shows "\<exists>resp. SendCommand c good_conn stream req = Inr resp \<and> stream = frame c resp \<and>
    (if rq_Command req = CmdUp
     then rs_OK resp = (fst (engine_Start (ce_now env) (rq_Targets req) e) = None) \<and>
          e' = snd (engine_Start (ce_now env) (rq_Targets req) e)
     else if rq_Command req = CmdDown
     then (case Stop_begin (rq_Targets req) e of
             Inl err \<Rightarrow> \<not> rs_OK resp \<and> e' = e
           | Inr ns \<Rightarrow> rs_OK resp \<and> e' = Stop_end (ce_now env) (ce_dns env) ns (ce_stopped env ns e))
     else e' = e \<and> (if rq_Command req = CmdStatus then resp = handleStatus (ce_now env) e
                    else \<not> rs_OK resp \<and> rs_Error resp = ''unknown command: '' @ rq_Command req))"
  using assms by (rule command_reply)

text \<open>A printer and a parser that agree on three trees, for concrete exchanges.\<close>

definition three_trees :: "json \<Rightarrow> json \<Rightarrow> json \<Rightarrow> codec" where
  "three_trees a b d =
     (\<lambda>j. if j = a then ''a'' else if j = b then ''b'' else ''d'',
      \<lambda>s. if s = ''a'' then Inr a else if s = ''b'' then Inr b else Inr d)"

lemma three_trees_ok:
  "codec_ok (three_trees a b d) a" "codec_ok (three_trees a b d) b" "codec_ok (three_trees a b d) d"
  by (auto simp: codec_ok_def three_trees_def)

definition sample_env :: conn_env where
  "sample_env = \<lparr>ce_quote = (\<lambda>s. s), ce_now = 0, ce_dns = None, ce_stopped = (\<lambda>_ e. e), ce_room = 3,
     ce_inputs = [An_event (ProfileDone ''dev'' 1), Ctx_done]\<rparr>"

theorem command_answered_witness:
  "\<exists>c stream resp. conversation c sample_env \<lparr>rq_Command = ''stop'', rq_Targets = [], rq_Follow = False\<rparr> sample_engine = (stream, sample_engine) \<and>
     SendCommand c good_conn stream \<lparr>rq_Command = ''stop'', rq_Targets = [], rq_Follow = False\<rparr> = Inr resp \<and>
     rs_Error resp = ''unknown command: stop''"
proof -
  let ?req = "\<lparr>rq_Command = ''stop'', rq_Targets = [], rq_Follow = False\<rparr>"
  let ?resp = "resp_error ''unknown command: stop''"
  let ?c = "three_trees (json_Request ?req) (json_Response ?resp) (JBool True)"
  have h: "handleConnection sample_env (Inr ?req) sample_engine = ([?resp], sample_engine)"
    by (simp add: handleConnection_def cmd_defs)
  have conv: "conversation ?c sample_env ?req sample_engine = (frame ?c ?resp, sample_engine)"
    using request_arrives(1) [where c = ?c and req = ?req and env = sample_env and e = sample_engine, OF three_trees_ok(1)] h by simp
  from command_answered [where c = ?c and req = ?req and env = sample_env and e = sample_engine, OF three_trees_ok(1) _ _ conv]
  obtain resp where "SendCommand ?c good_conn (frame ?c ?resp) ?req = Inr resp" "rs_Error resp = ''unknown command: stop''"
    unfolding h by (auto simp: cmd_defs three_trees_ok)
  with conv show ?thesis by (intro exI [of _ ?c] exI [of _ "frame ?c ?resp"] exI [of _ resp] conjI)
qed

section \<open>Streams\<close>

text \<open>The events a stream sees before its context, its client or the bus ends it.\<close>

fun streamed :: "stream_input list \<Rightarrow> event list" where
  "streamed (An_event evt # ins) = evt # streamed ins"
| "streamed _ = []"

text \<open>A callback run over a list of envelopes until it declines.\<close>

fun visit :: "(EventEnvelope \<Rightarrow> 's \<Rightarrow> bool \<times> 's) \<Rightarrow> EventEnvelope list \<Rightarrow> 's \<Rightarrow> 's" where
  "visit callback [] s = s"
| "visit callback (env # envs) s = (case callback env s of (True, s) \<Rightarrow> visit callback envs s | (False, s) \<Rightarrow> s)"

lemma envelope_loop_eq:
  "envelope_loop quote room ins =
     map (\<lambda>evt. resp_ok\<lparr>rs_Envelope := Some (eventToEnvelope quote evt)\<rparr>) (take room (streamed ins))"
  by (induction quote room ins rule: envelope_loop.induct) (auto split: nat.splits)

lemma envelopes_only_Some [simp]: "envelopes_only callback (resp_ok\<lparr>rs_Envelope := Some env\<rparr>) s = callback env s"
  by (simp add: envelopes_only_def)

lemma stream_loop_visit:
  assumes "list_all (\<lambda>r. codec_ok c (json_Response r)) (map (\<lambda>env. resp_ok\<lparr>rs_Envelope := Some env\<rparr>) envs)"
  shows "stream_loop c (envelopes_only callback) (concat (map (frame c) (map (\<lambda>env. resp_ok\<lparr>rs_Envelope := Some env\<rparr>) envs))) s
    = visit callback envs s"
  using assms
proof (induction envs arbitrary: s)
  case Nil
  show ?case by (subst stream_loop.simps) (simp add: read_response_end)
next
  case (Cons env envs)
  then have "codec_ok c (json_Response (resp_ok\<lparr>rs_Envelope := Some env\<rparr>))" by simp
  from read_response_frame [OF this] show ?case
    using Cons by (subst stream_loop.simps) (auto split: prod.splits bool.splits)
qed

text \<open>
  C28: A subscriber sees the engine's events: the callback of a subscription, the tray's or any
  other, is run on the envelopes of exactly the events the daemon's stream took from the bus, in
  order and without a gap, as many as its writes let through, until the callback declines; the call
  then returns without an error, and the engine is untouched.
\<close>

theorem stream_delivers:
  assumes "codec_ok c (json_Request req)"
    and "rq_Command req \<in> {CmdSubscribe, CmdTrayRegister}" and "ce_room env = Suc room"
    and "list_all (\<lambda>r. codec_ok c (json_Response r)) (fst (handleConnection env (Inr req) e))"
  shows "case conversation c env req e of (stream, e') \<Rightarrow>
    e' = e \<and> StreamEvents c good_conn stream req callback s =
      (None, visit callback (map (eventToEnvelope (ce_quote env)) (take room (streamed (ce_inputs env)))) s)"
proof -
  let ?evts = "take room (streamed (ce_inputs env))"
  let ?rest = "map (\<lambda>env. resp_ok\<lparr>rs_Envelope := Some env\<rparr>) (map (eventToEnvelope (ce_quote env)) ?evts)"
  have h: "handleConnection env (Inr req) e = (resp_ok # ?rest, e)"
    using assms(2,3) by (auto simp: handleConnection_def cmd_defs streamEnvelopes_def envelope_loop_eq comp_def)
  have ok: "codec_ok c (json_Response resp_ok)" and rest: "list_all (\<lambda>r. codec_ok c (json_Response r)) ?rest"
    using assms(4) by (simp_all only: h fst_conv list.pred_inject)
  have "open_stream c good_conn (frame c resp_ok @ concat (map (frame c) ?rest)) req = Inr (concat (map (frame c) ?rest))"
    using first_answer(2) [OF assms(1) ok] by (simp add: resp_ok_def)
  then show ?thesis
    using stream_loop_visit [OF rest, of callback s]
    by (simp only: request_arrives(1) [OF assms(1)] h prod.case list.map concat.simps StreamEvents_def sum.case simp_thms)
qed

theorem stream_delivers_witness:
  "\<exists>c stream. conversation c sample_env \<lparr>rq_Command = CmdTrayRegister, rq_Targets = [], rq_Follow = False\<rparr> sample_engine
       = (stream, sample_engine) \<and>
     StreamEvents c good_conn stream \<lparr>rq_Command = CmdTrayRegister, rq_Targets = [], rq_Follow = False\<rparr>
       (\<lambda>env kinds. (True, kinds @ [ev_Kind env])) [] = (None, [''profile_done''])"
proof -
  let ?req = "\<lparr>rq_Command = CmdTrayRegister, rq_Targets = [], rq_Follow = False\<rparr>"
  let ?resp = "resp_ok\<lparr>rs_Envelope := Some (eventToEnvelope (\<lambda>s. s) (ProfileDone ''dev'' 1))\<rparr>"
  let ?c = "three_trees (json_Request ?req) (json_Response resp_ok) (json_Response ?resp)"
  have "handleConnection sample_env (Inr ?req) sample_engine = ([resp_ok, ?resp], sample_engine)"
    by (simp add: handleConnection_def cmd_defs streamEnvelopes_def sample_env_def)
  then have ok: "list_all (\<lambda>r. codec_ok ?c (json_Response r)) (fst (handleConnection sample_env (Inr ?req) sample_engine))"
    by (simp add: three_trees_ok)
  obtain stream e' where conv: "conversation ?c sample_env ?req sample_engine = (stream, e')" by fastforce
  let ?cb = "\<lambda>env kinds. (True, kinds @ [ev_Kind env])"
  have env: "ce_room sample_env = Suc 2"
    "visit ?cb (map (eventToEnvelope (ce_quote sample_env)) (take 2 (streamed (ce_inputs sample_env)))) [] = [''profile_done'']"
    by (simp_all add: sample_env_def no_envelope_def kind_defs)
  have tray: "rq_Command ?req \<in> {CmdSubscribe, CmdTrayRegister}" by simp
  have "e' = sample_engine \<and> StreamEvents ?c good_conn stream ?req ?cb [] = (None, [''profile_done''])"
    using stream_delivers [where callback = ?cb and s = "[]", OF three_trees_ok(1) tray env(1) ok, unfolded conv prod.case env(2)]
    by simp
  with conv show ?thesis by (intro exI [of _ ?c] exI [of _ stream]) simp
qed

end
