(* ===== verification/Bus.thy ===== *)
theory Bus
  imports Engine_Events
begin

text \<open>
  \<open>internal/daemon/bus.go\<close>: the fan-out of the engine's events. A subscriber's channel is an object
  of its own, so \<open>b_chans\<close> is the heap of all channels ever made and \<open>b_subs\<close> the set of those
  registered; \<open>b_spent\<close> are the subscriptions whose \<open>sync.Once\<close> has run. Each operation runs under
  the bus's lock (a dispatch under its read lock, which keeps the others out), so a run is a
  sequence of operations. A send on a closed channel and a second close panic: \<open>None\<close>.
\<close>

definition subscriberBuffer :: nat where
  "subscriberBuffer = 128"

record Bus =
  b_subs :: "nat list"
  b_chans :: "event chan list"
  b_closed :: bool
  b_spent :: "nat list"

definition NewBus :: Bus where
  "NewBus = \<lparr>b_subs = [], b_chans = [], b_closed = False, b_spent = []\<rparr>"

text \<open>One event of \<open>run\<close>: a send to each subscriber that drops when the channel is full.\<close>

fun dispatch :: "event \<Rightarrow> nat list \<Rightarrow> event chan list \<Rightarrow> event chan list option" where
  "dispatch evt [] chans = Some chans"
| "dispatch evt (k # ks) chans = do { ch \<leftarrow> try_send evt (chans ! k); dispatch evt ks (chans[k := ch]) }"

definition bus_publish :: "event \<Rightarrow> Bus \<Rightarrow> Bus option" where
  "bus_publish evt b = do { chans \<leftarrow> dispatch evt (b_subs b) (b_chans b); Some (b\<lparr>b_chans := chans\<rparr>) }"

text \<open>The end of \<open>run\<close>, when the engine's channel is closed.\<close>

fun close_all :: "nat list \<Rightarrow> event chan list \<Rightarrow> event chan list option" where
  "close_all [] chans = Some chans"
| "close_all (k # ks) chans = do { ch \<leftarrow> close_chan (chans ! k); close_all ks (chans[k := ch]) }"

definition bus_finish :: "Bus \<Rightarrow> Bus option" where
  "bus_finish b = do {
     chans \<leftarrow> close_all (b_subs b) (b_chans b);
     Some (b\<lparr>b_subs := [], b_chans := chans, b_closed := True\<rparr>) }"

text \<open>\<open>Subscribe\<close>; on a closed bus the channel is closed at once and its cancel function does nothing.\<close>

definition bus_Subscribe :: "Bus \<Rightarrow> Bus option" where
  "bus_Subscribe b =
     (let ch = make_chan subscriberBuffer; k = length (b_chans b)
      in if b_closed b
         then do { ch \<leftarrow> close_chan ch; Some (b\<lparr>b_chans := b_chans b @ [ch], b_spent := k # b_spent b\<rparr>) }
         else Some (b\<lparr>b_subs := b_subs b @ [k], b_chans := b_chans b @ [ch]\<rparr>))"

definition bus_cancel :: "nat \<Rightarrow> Bus \<Rightarrow> Bus option" where
  "bus_cancel k b =
     (if k \<in> set (b_spent b) then Some b
      else let b = b\<lparr>b_spent := k # b_spent b\<rparr>
        in if k \<in> set (b_subs b)
           then do { ch \<leftarrow> close_chan (b_chans b ! k);
                     Some (b\<lparr>b_subs := removeAll k (b_subs b), b_chans := (b_chans b)[k := ch]\<rparr>) }
           else Some b)"

text \<open>A subscriber's receive; what a run hands to the subscribers is logged with their numbers.\<close>

datatype bus_op = Publish event | Source_closed | Subscribe | Cancel nat | Receive nat

definition bus_step :: "bus_op \<Rightarrow> Bus \<Rightarrow> ((nat \<times> event) list \<times> Bus) option" where
  "bus_step x b =
     (case x of
        Publish evt \<Rightarrow> map_option (Pair []) (bus_publish evt b)
      | Source_closed \<Rightarrow> map_option (Pair []) (bus_finish b)
      | Subscribe \<Rightarrow> map_option (Pair []) (bus_Subscribe b)
      | Cancel k \<Rightarrow> if k < length (b_chans b) then map_option (Pair []) (bus_cancel k b) else Some ([], b)
      | Receive k \<Rightarrow>
          if k < length (b_chans b) then
            (case chan_recv (b_chans b ! k) of
               (Value evt, ch) \<Rightarrow> Some ([(k, evt)], b\<lparr>b_chans := (b_chans b)[k := ch]\<rparr>)
             | (_, ch) \<Rightarrow> Some ([], b))
          else Some ([], b))"

fun bus_run :: "bus_op list \<Rightarrow> Bus \<Rightarrow> ((nat \<times> event) list \<times> Bus) option" where
  "bus_run [] b = Some ([], b)"
| "bus_run (x # xs) b = do { (got, b) \<leftarrow> bus_step x b; (got', b) \<leftarrow> bus_run xs b; Some (got @ got', b) }"

section \<open>Nothing panics\<close>

definition bus_ok :: "Bus \<Rightarrow> bool" where
  "bus_ok b \<longleftrightarrow> distinct (b_subs b) \<and> (b_closed b \<longrightarrow> b_subs b = []) \<and>
     (\<forall>k\<in>set (b_subs b). k < length (b_chans b)) \<and>
     (\<forall>k<length (b_chans b). ch_closed (b_chans b ! k) \<longleftrightarrow> k \<notin> set (b_subs b))"

lemma bus_ok_New [simp]: "bus_ok NewBus"
  by (simp add: bus_ok_def NewBus_def)

lemma dispatch_ok:
  "distinct ks \<Longrightarrow> (\<And>k. k \<in> set ks \<Longrightarrow> k < length chans \<and> \<not> ch_closed (chans ! k)) \<Longrightarrow>
   \<exists>chans'. dispatch evt ks chans = Some chans' \<and> length chans' = length chans \<and>
     (\<forall>k<length chans. chans' ! k = (if k \<in> set ks then chan_offer evt (chans ! k) else chans ! k))"
proof (induction ks arbitrary: chans)
  case (Cons k ks)
  have send: "try_send evt (chans ! k) = Some (chan_offer evt (chans ! k))"
    using Cons.prems(2) [of k] by (simp add: chan_offer_def try_send_def)
  have "\<exists>chans'. dispatch evt ks (chans[k := chan_offer evt (chans ! k)]) = Some chans' \<and>
      length chans' = length (chans[k := chan_offer evt (chans ! k)]) \<and>
      (\<forall>j<length (chans[k := chan_offer evt (chans ! k)]). chans' ! j =
        (if j \<in> set ks then chan_offer evt (chans[k := chan_offer evt (chans ! k)] ! j)
         else chans[k := chan_offer evt (chans ! k)] ! j))"
    using Cons.prems by (intro Cons.IH) (auto simp: nth_list_update)
  then show ?case using Cons.prems(1) Cons.prems(2) [of k] by (auto simp: send nth_list_update)
qed simp

lemma close_all_ok:
  "distinct ks \<Longrightarrow> (\<And>k. k \<in> set ks \<Longrightarrow> k < length chans \<and> \<not> ch_closed (chans ! k)) \<Longrightarrow>
   \<exists>chans'. close_all ks chans = Some chans' \<and> length chans' = length chans \<and>
     (\<forall>k<length chans. chans' ! k = (if k \<in> set ks then (chans ! k)\<lparr>ch_closed := True\<rparr> else chans ! k))"
proof (induction ks arbitrary: chans)
  case (Cons k ks)
  have close: "close_chan (chans ! k) = Some ((chans ! k)\<lparr>ch_closed := True\<rparr>)"
    using Cons.prems(2) [of k] by (simp add: close_chan_def)
  have "\<exists>chans'. close_all ks (chans[k := (chans ! k)\<lparr>ch_closed := True\<rparr>]) = Some chans' \<and>
      length chans' = length (chans[k := (chans ! k)\<lparr>ch_closed := True\<rparr>]) \<and>
      (\<forall>j<length (chans[k := (chans ! k)\<lparr>ch_closed := True\<rparr>]). chans' ! j =
        (if j \<in> set ks then (chans[k := (chans ! k)\<lparr>ch_closed := True\<rparr>] ! j)\<lparr>ch_closed := True\<rparr>
         else chans[k := (chans ! k)\<lparr>ch_closed := True\<rparr>] ! j))"
    using Cons.prems by (intro Cons.IH) (auto simp: nth_list_update)
  then show ?case using Cons.prems(1) Cons.prems(2) [of k] by (auto simp: close nth_list_update)
qed simp

lemma chan_offer_closed [simp]: "ch_closed (chan_offer v ch) = ch_closed ch"
  by (simp add: chan_offer_def try_send_def)

lemma chan_recv_closed: "ch_closed (snd (chan_recv ch)) = ch_closed ch"
  by (simp add: chan_recv_def split: list.splits)

section \<open>One subscriber's view\<close>

text \<open>
  The sends and receives of the queue the \<open>k\<close>-th subscriber would have to itself: the events
  published between its subscription and its end, and its own receives. \<open>n\<close> counts the
  subscriptions made, \<open>active\<close> tells whether this one is on, \<open>over\<close> whether the source is closed.
\<close>

fun view :: "nat \<Rightarrow> nat \<Rightarrow> bool \<Rightarrow> bool \<Rightarrow> bus_op list \<Rightarrow> event queue_op list" where
  "view k n active over [] = []"
| "view k n active over (Publish evt # xs) = (if active then [Offer evt] else []) @ view k n active over xs"
| "view k n active over (Source_closed # xs) = view k n False True xs"
| "view k n active over (Subscribe # xs) = view k (Suc n) (active \<or> n = k \<and> \<not> over) over xs"
| "view k n active over (Cancel j # xs) = view k n (active \<and> j \<noteq> k) over xs"
| "view k n active over (Receive j # xs) = (if j = k \<and> k < n then [Poll] else []) @ view k n active over xs"

definition follows :: "nat \<Rightarrow> Bus \<Rightarrow> event chan \<Rightarrow> bool \<Rightarrow> bool" where
  "follows k b q active \<longleftrightarrow> bus_ok b \<and> active = (k \<in> set (b_subs b)) \<and> \<not> ch_closed q \<and>
     (active \<longrightarrow> k \<notin> set (b_spent b)) \<and> (\<forall>j\<in>set (b_spent b). j < length (b_chans b)) \<and>
     (if k < length (b_chans b) then (b_chans b ! k)\<lparr>ch_closed := False\<rparr> = q else q = make_chan subscriberBuffer)"

abbreviation mine :: "nat \<Rightarrow> (nat \<times> event) list \<Rightarrow> event list" where
  "mine k got \<equiv> map snd (filter (\<lambda>g. fst g = k) got)"

lemma chan_poll_unclosed: "chan_poll (ch\<lparr>ch_closed := False\<rparr>) = (case chan_recv ch of (Value v, ch') \<Rightarrow> Some (v, ch'\<lparr>ch_closed := False\<rparr>) | _ \<Rightarrow> None)"
  by (auto simp: chan_poll_def chan_recv_def split: list.splits)

lemma chan_offer_unclosed: "\<not> ch_closed ch \<Longrightarrow> (chan_offer v ch)\<lparr>ch_closed := False\<rparr> = chan_offer v (ch\<lparr>ch_closed := False\<rparr>)"
  by (simp add: chan_offer_def try_send_def)

lemma follows_publish:
  assumes "follows k b q active"
  shows "\<exists>b'. bus_publish evt b = Some b' \<and> length (b_chans b') = length (b_chans b) \<and> b_closed b' = b_closed b \<and>
    follows k b' (if active then chan_offer evt q else q) active"
proof -
  have ok: "bus_ok b" using assms by (simp add: follows_def)
  then obtain chans where d: "dispatch evt (b_subs b) (b_chans b) = Some chans" "length chans = length (b_chans b)"
      "\<forall>k<length (b_chans b). chans ! k = (if k \<in> set (b_subs b) then chan_offer evt (b_chans b ! k) else b_chans b ! k)"
    using dispatch_ok [of "b_subs b" "b_chans b" evt] by (auto simp: bus_ok_def)
  moreover have "bus_ok (b\<lparr>b_chans := chans\<rparr>)" using ok d by (auto simp: bus_ok_def)
  ultimately show ?thesis
    using assms ok by (auto simp: bus_publish_def follows_def bus_ok_def chan_offer_unclosed split: if_splits)
qed

lemma follows_finish:
  assumes "follows k b q active"
  shows "\<exists>b'. bus_finish b = Some b' \<and> length (b_chans b') = length (b_chans b) \<and> b_closed b' \<and> follows k b' q False"
proof -
  have ok: "bus_ok b" using assms by (simp add: follows_def)
  then obtain chans where d: "close_all (b_subs b) (b_chans b) = Some chans" "length chans = length (b_chans b)"
      "\<forall>k<length (b_chans b). chans ! k = (if k \<in> set (b_subs b) then (b_chans b ! k)\<lparr>ch_closed := True\<rparr> else b_chans b ! k)"
    using close_all_ok [of "b_subs b" "b_chans b"] by (auto simp: bus_ok_def)
  moreover have "bus_ok (b\<lparr>b_subs := [], b_chans := chans, b_closed := True\<rparr>)" using ok d by (auto simp: bus_ok_def)
  ultimately show ?thesis using assms ok by (auto simp: bus_finish_def follows_def bus_ok_def split: if_splits)
qed

lemma follows_Subscribe:
  assumes "follows k b q active"
  shows "\<exists>b'. bus_Subscribe b = Some b' \<and> length (b_chans b') = Suc (length (b_chans b)) \<and> b_closed b' = b_closed b \<and>
    follows k b' q (active \<or> length (b_chans b) = k \<and> \<not> b_closed b)"
  using assms
  by (cases "b_closed b")
    (auto simp: bus_Subscribe_def follows_def bus_ok_def close_chan_def make_chan_def Let_def nth_append less_Suc_eq
      split: if_splits)

lemma follows_cancel:
  assumes "follows k b q active" and "j < length (b_chans b)"
  shows "\<exists>b'. bus_cancel j b = Some b' \<and> length (b_chans b') = length (b_chans b) \<and> b_closed b' = b_closed b \<and>
    follows k b' q (active \<and> j \<noteq> k)"
proof -
  have open_iff: "ch_closed (b_chans b ! j) \<longleftrightarrow> j \<notin> set (b_subs b)" using assms by (simp add: follows_def bus_ok_def)
  show ?thesis
    using assms open_iff
    by (cases "j \<in> set (b_subs b)"; cases "j \<in> set (b_spent b)")
      (auto simp: bus_cancel_def follows_def bus_ok_def close_chan_def nth_list_update distinct_removeAll split: if_splits)
qed

lemma follows_Receive:
  assumes "follows k b q active" and "j < length (b_chans b)"
  shows "follows k (b\<lparr>b_chans := (b_chans b)[j := snd (chan_recv (b_chans b ! j))]\<rparr>)
    (if j = k then snd (chan_recv q) else q) active"
  using assms
  by (auto simp: follows_def bus_ok_def nth_list_update chan_recv_def split: if_splits list.splits)

lemma follows_poll:
  assumes "follows k b q active" and "k < length (b_chans b)"
  shows "chan_poll q = (case chan_recv (b_chans b ! k) of (Value v, ch') \<Rightarrow> Some (v, snd (chan_recv q)) | _ \<Rightarrow> None)"
    and "fst (chan_recv (b_chans b ! k)) = Closed \<or> fst (chan_recv (b_chans b ! k)) = Blocked \<Longrightarrow> snd (chan_recv q) = q"
  using assms by (auto simp: follows_def chan_poll_def chan_recv_def split: list.splits if_splits)

lemma recv_empty:
  "fst (chan_recv (cs ! j)) = Closed \<or> fst (chan_recv (cs ! j)) = Blocked \<Longrightarrow> cs[j := snd (chan_recv (cs ! j))] = cs"
  by (auto simp: chan_recv_def split: list.splits)

lemma bus_run_view:
  assumes "follows k b q active"
  shows "\<exists>got b'. bus_run xs b = Some (got, b') \<and> bus_ok b' \<and>
    (\<exists>q' active'. chq.run (view k (length (b_chans b)) active (b_closed b) xs) q = (mine k got, q') \<and> follows k b' q' active')"
  using assms
proof (induction xs arbitrary: b q active)
  case Nil
  then show ?case by (auto simp: follows_def)
next
  case (Cons x xs)
  show ?case
  proof (cases x)
    case (Publish evt)
    obtain b1 where b1: "bus_publish evt b = Some b1" "length (b_chans b1) = length (b_chans b)" "b_closed b1 = b_closed b"
        "follows k b1 (if active then chan_offer evt q else q) active"
      using follows_publish [OF Cons.prems, of evt] by blast
    from Cons.IH [OF b1(4)] show ?thesis using b1(1-3) by (auto simp: Publish bus_step_def)
  next
    case Source_closed
    obtain b1 where b1: "bus_finish b = Some b1" "length (b_chans b1) = length (b_chans b)" "b_closed b1" "follows k b1 q False"
      using follows_finish [OF Cons.prems] by blast
    from Cons.IH [OF b1(4)] show ?thesis using b1(1-3) by (auto simp: Source_closed bus_step_def)
  next
    case Subscribe
    obtain b1 where b1: "bus_Subscribe b = Some b1" "length (b_chans b1) = Suc (length (b_chans b))" "b_closed b1 = b_closed b"
        "follows k b1 q (active \<or> length (b_chans b) = k \<and> \<not> b_closed b)"
      using follows_Subscribe [OF Cons.prems] by blast
    from Cons.IH [OF b1(4)] show ?thesis using b1(1-3) by (auto simp: Subscribe bus_step_def)
  next
    case (Cancel j)
    show ?thesis
    proof (cases "j < length (b_chans b)")
      case True
      obtain b1 where b1: "bus_cancel j b = Some b1" "length (b_chans b1) = length (b_chans b)" "b_closed b1 = b_closed b"
          "follows k b1 q (active \<and> j \<noteq> k)"
        using follows_cancel [OF Cons.prems True] by blast
      from Cons.IH [OF b1(4)] show ?thesis using b1(1-3) True by (auto simp: Cancel bus_step_def)
    next
      case False
      then have "active \<longrightarrow> j \<noteq> k" using Cons.prems by (auto simp: follows_def bus_ok_def)
      then have "(active \<and> j \<noteq> k) = active" by blast
      with Cons.IH [OF Cons.prems] False show ?thesis by (auto simp: Cancel bus_step_def)
    qed
  next
    case (Receive j)
    show ?thesis
    proof (cases "j < length (b_chans b)")
      case True
      note f = follows_Receive [OF Cons.prems True] and poll = follows_poll [OF Cons.prems]
      obtain r ch where rc: "chan_recv (b_chans b ! j) = (r, ch)" by fastforce
      show ?thesis
        using Cons.IH [OF f] rc poll recv_empty [of "b_chans b" j] True
        by (cases r) (auto simp: Receive bus_step_def split: prod.splits)
    next
      case False
      with Cons.IH [OF Cons.prems] show ?thesis by (auto simp: Receive bus_step_def)
    qed
  qed
qed

text \<open>
  C30: However subscribers come, go, read and stall, and whenever the engine's channel closes, the
  bus never sends on a closed channel and never closes one twice; and every subscriber gets exactly
  what a 128-slot queue of its own would give it, fed with the events published while it was
  subscribed: no other subscriber can cost it an event.
\<close>

theorem bus_isolates_subscribers:
  "\<exists>got b. bus_run xs NewBus = Some (got, b) \<and>
     (\<forall>k. \<exists>q. chq.run (view k 0 False False xs) (make_chan 128) = (mine k got, q) \<and>
        subseq (mine k got @ ch_buf q) (offered (view k 0 False False xs)))"
proof -
  have f: "follows k NewBus (make_chan subscriberBuffer) False" for k
    by (simp add: follows_def NewBus_def make_chan_def bus_ok_def)
  obtain got b where r: "bus_run xs NewBus = Some (got, b)" using bus_run_view [OF f [of 0], of xs] by blast
  have len: "length (b_chans NewBus) = 0" and cl: "b_closed NewBus = False" by (simp_all add: NewBus_def)
  have "\<exists>q. chq.run (view k 0 False False xs) (make_chan 128) = (mine k got, q) \<and>
      subseq (mine k got @ ch_buf q) (offered (view k 0 False False xs))" for k
  proof -
    obtain q where q: "chq.run (view k 0 False False xs) (make_chan 128) = (mine k got, q)"
      using bus_run_view [OF f [of k], of xs] r unfolding len cl by (auto simp: subscriberBuffer_def)
    have "chan_open (make_chan 128 :: event chan)" by (simp add: chan_open_def make_chan_def)
    from chq.run_subseq [OF this q] q show ?thesis by (auto simp: make_chan_def)
  qed
  with r show ?thesis by blast
qed

end
