(* ===== verification/Notifier.thy ===== *)
theory Notifier
  imports Bus Go_Format
begin

text \<open>
  \<open>internal/daemon/notifier.go\<close> and \<open>notifier_darwin.go\<close>: the desktop notification on expired
  credentials, once per profile and 30 seconds, never while a tray is connected, and the AppleScript
  text it is posted with. The loop is driven by what its \<open>select\<close> receives; with each event come
  what the tray check and the clock answer when they are asked.
\<close>

definition notifyDedupeWindow :: duration where
  "notifyDedupeWindow = 30 * second"

type_synonym last_fire = "(string \<times> instant) list"

record notify_input =
  ni_event :: event
  ni_tray :: bool
  ni_now :: instant

definition notify_key :: "string \<Rightarrow> string \<Rightarrow> string" where
  "notify_key profile aws = profile @ [CHR 0x00] @ aws"

definition shouldFire :: "string \<Rightarrow> instant \<Rightarrow> last_fire \<Rightarrow> bool \<times> last_fire" where
  "shouldFire key now lastFire =
     (case map_of lastFire key of
        Some prev \<Rightarrow> if now - prev < notifyDedupeWindow then (False, lastFire) else (True, map_put key now lastFire)
      | None \<Rightarrow> (True, map_put key now lastFire))"

definition notify_text :: "string \<Rightarrow> string \<Rightarrow> string" where
  "notify_text profile aws = ''SSO expired for '' @ profile @ '' '' @ em_dash @ '' run: aws sso login --profile '' @ aws"

text \<open>One turn of the loop: the notification posted, if any, and the memory.\<close>

definition notify_step :: "notify_input \<Rightarrow> last_fire \<Rightarrow> string option \<times> last_fire" where
  "notify_step i lastFire =
     (case ni_event i of
        CredentialsExpired profile aws service detail t \<Rightarrow>
          if ni_tray i then (None, lastFire)
          else (case shouldFire (notify_key profile aws) (ni_now i) lastFire of
              (True, m) \<Rightarrow> (Some (notify_text profile aws), m)
            | (False, m) \<Rightarrow> (None, m))
      | _ \<Rightarrow> (None, lastFire))"

fun notify_run :: "notify_input list \<Rightarrow> last_fire \<Rightarrow> string option list" where
  "notify_run [] m = []"
| "notify_run (i # is) m = (case notify_step i m of (posted, m) \<Rightarrow> posted # notify_run is m)"

section \<open>Which expiries are posted\<close>

text \<open>The key of an expiry that no tray shows.\<close>

definition due :: "notify_input \<Rightarrow> string option" where
  "due i = (case ni_event i of
     CredentialsExpired profile aws _ _ _ \<Rightarrow> if ni_tray i then None else Some (notify_key profile aws)
   | _ \<Rightarrow> None)"

text \<open>
  The specification: an expiry is posted when it is due and no earlier posted one with its key is
  less than 30 seconds old; \<open>past\<close> are the posted ones so far.
\<close>

fun posts :: "notify_input list \<Rightarrow> (string \<times> instant) list \<Rightarrow> bool list" where
  "posts [] past = []"
| "posts (i # is) past =
     (case due i of
        None \<Rightarrow> False # posts is past
      | Some key \<Rightarrow>
          if list_all (\<lambda>(k, t). k = key \<longrightarrow> t + 30 * second \<le> ni_now i) past
          then True # posts is ((key, ni_now i) # past)
          else False # posts is past)"

definition remembers :: "last_fire \<Rightarrow> (string \<times> instant) list \<Rightarrow> bool" where
  "remembers m past \<longleftrightarrow> (\<forall>key. (map_of m key = None \<longleftrightarrow> key \<notin> set (keys past)) \<and>
     (\<forall>t. map_of m key = Some t \<longrightarrow> (key, t) \<in> set past \<and> (\<forall>t'. (key, t') \<in> set past \<longrightarrow> t' \<le> t)))"

lemma remembers_Nil [simp]: "remembers [] []"
  by (simp add: remembers_def)

lemma shouldFire_iff:
  assumes "remembers m past"
  shows "fst (shouldFire key now m) \<longleftrightarrow> list_all (\<lambda>(k, t). k = key \<longrightarrow> t + 30 * second \<le> now) past"
proof (cases "map_of m key")
  case None
  then have "key \<notin> set (keys past)" using assms by (simp add: remembers_def)
  then have "list_all (\<lambda>(k, t). k = key \<longrightarrow> t + 30 * second \<le> now) past"
    by (auto simp: list_all_iff keys_def image_iff)
  with None show ?thesis by (simp add: shouldFire_def)
next
  case (Some t)
  then have "(key, t) \<in> set past" "\<And>t'. (key, t') \<in> set past \<Longrightarrow> t' \<le> t"
    using assms by (auto simp: remembers_def)
  then have "list_all (\<lambda>(k, t). k = key \<longrightarrow> t + 30 * second \<le> now) past \<longleftrightarrow> t + 30 * second \<le> now"
    unfolding list_all_iff by fastforce
  then show ?thesis using Some by (auto simp: shouldFire_def notifyDedupeWindow_def)
qed

lemma shouldFire_remembers:
  assumes "remembers m past" and "\<And>k t. (k, t) \<in> set past \<Longrightarrow> t \<le> now"
  shows "remembers (snd (shouldFire key now m)) (if fst (shouldFire key now m) then (key, now) # past else past)"
proof (cases "fst (shouldFire key now m)")
  case True
  then have "snd (shouldFire key now m) = map_put key now m"
    by (auto simp: shouldFire_def split: option.splits if_splits)
  then show ?thesis using True assms by (auto simp: remembers_def)
next
  case False
  then have "snd (shouldFire key now m) = m" by (auto simp: shouldFire_def split: option.splits if_splits)
  then show ?thesis using False assms(1) by simp
qed

lemma notify_step_due:
  "notify_step i m = (case due i of
     None \<Rightarrow> (None, m)
   | Some key \<Rightarrow> (if fst (shouldFire key (ni_now i) m) then Some (notify_text (evt_Profile (ni_event i))
         (case ni_event i of CredentialsExpired _ aws _ _ _ \<Rightarrow> aws | _ \<Rightarrow> [])) else None,
       snd (shouldFire key (ni_now i) m)))"
  by (cases "ni_event i") (auto simp: notify_step_def due_def split: prod.splits bool.splits)

lemma notify_run_posts:
  assumes "remembers m past" and "sorted (map ni_now is)"
    and "\<And>k t i. (k, t) \<in> set past \<Longrightarrow> i \<in> set is \<Longrightarrow> t \<le> ni_now i"
  shows "map (\<lambda>p. p \<noteq> None) (notify_run is m) = posts is past"
  using assms
proof (induction "is" arbitrary: m past)
  case (Cons i "is")
  have later: "ni_now i \<le> ni_now j" if "j \<in> set is" for j using Cons.prems(2) that by simp
  show ?case
  proof (cases "due i")
    case None
    then show ?thesis using Cons by (simp add: notify_step_due)
  next
    case (Some key)
    let ?f = "shouldFire key (ni_now i) m"
    have rem: "remembers (snd ?f) (if fst ?f then (key, ni_now i) # past else past)"
      using shouldFire_remembers [OF Cons.prems(1), of "ni_now i" key] Cons.prems(3) by auto
    have ih: "map (\<lambda>p. p \<noteq> None) (notify_run is (snd ?f)) = posts is (if fst ?f then (key, ni_now i) # past else past)"
      using Cons.prems(2,3) later by (intro Cons.IH [OF rem]) (auto split: if_splits)
    show ?thesis
      using ih shouldFire_iff [OF Cons.prems(1), of key "ni_now i"]
      by (auto simp: notify_step_due Some)
  qed
qed simp

text \<open>What the specification says of two inputs of a run.\<close>

lemma posts_spaced:
  assumes "i < j" and "j < length is" and "posts is past ! i" and "posts is past ! j" and "due (is ! i) = due (is ! j)"
  shows "ni_now (is ! i) + 30 * second \<le> ni_now (is ! j)"
proof -
  have past: "t + 30 * second \<le> ni_now (is ! j)"
    if "j < length is" "posts is past ! j" "due (is ! j) = Some key" "(key, t) \<in> set past" for "is" j past key t
    using that
  proof (induction "is" past arbitrary: j rule: posts.induct)
    case (2 i "is" past)
    then show ?case
      by (cases j) (auto simp: list_all_iff split: option.splits if_splits)
  qed simp
  show ?thesis using assms
  proof (induction "is" past arbitrary: i j rule: posts.induct)
    case (2 x "is" past)
    then obtain j' where j: "j = Suc j'" by (cases j) auto
    show ?case
    proof (cases i)
      case 0
      then obtain key where key: "due x = Some key" and "posts (x # is) past ! 0"
        using 2 by (auto split: option.splits)
      then have "list_all (\<lambda>(k, t). k = key \<longrightarrow> t + 30 * second \<le> ni_now x) past"
        by (auto split: if_splits)
      then show ?thesis
        using past [of j' "is" "(key, ni_now x) # past" key "ni_now x"] "2.prems" 0 j key by auto
    next
      case (Suc i')
      then show ?thesis using 2 j by (auto split: option.splits if_splits)
    qed
  qed simp
qed

lemma length_posts [simp]: "length (posts is past) = length is"
  by (induction "is" past rule: posts.induct) (auto split: option.splits)

lemma posts_due: "i < length is \<Longrightarrow> posts is past ! i \<Longrightarrow> due (is ! i) \<noteq> None"
proof (induction "is" past arbitrary: i rule: posts.induct)
  case (2 x "is" past)
  then show ?case by (cases i) (auto split: option.splits if_splits)
qed simp

lemma posts_missed:
  assumes "j < length is" and "due (is ! j) = Some key" and "\<not> posts is past ! j"
  shows "(\<exists>i<j. posts is past ! i \<and> due (is ! i) = Some key \<and> ni_now (is ! j) < ni_now (is ! i) + 30 * second) \<or>
    (\<exists>t. (key, t) \<in> set past \<and> ni_now (is ! j) < t + 30 * second)"
  using assms
proof (induction "is" past arbitrary: j rule: posts.induct)
  case (2 x "is" past)
  show ?case
  proof (cases j)
    case 0
    with 2 show ?thesis by (auto simp: list_all_iff split: option.splits if_splits)
  next
    case (Suc j')
    have lift: ?thesis if "(\<exists>i<j'. posts is past' ! i \<and> due (is ! i) = Some key \<and> ni_now (is ! j') < ni_now (is ! i) + 30 * second) \<or>
        (\<exists>t. (key, t) \<in> set past \<and> ni_now (is ! j') < t + 30 * second)" "posts (x # is) past = b # posts is past'" for past' b
      using that Suc by (metis Suc_mono nth_Cons_Suc)
    show ?thesis
    proof (cases "due x")
      case None
      then show ?thesis using "2.IH"(1) [OF None, of j'] "2.prems" Suc lift [of past False] by auto
    next
      case (Some k)
      show ?thesis
      proof (cases "list_all (\<lambda>(k', t). k' = k \<longrightarrow> t + 30 * second \<le> ni_now x) past")
        case True
        have ih: "(\<exists>i<j'. posts is ((k, ni_now x) # past) ! i \<and> due (is ! i) = Some key \<and> ni_now (is ! j') < ni_now (is ! i) + 30 * second) \<or>
          (\<exists>t. (key, t) \<in> set ((k, ni_now x) # past) \<and> ni_now (is ! j') < t + 30 * second)"
          using "2.IH"(2) [OF Some True, of j'] "2.prems" Suc Some True by auto
        show ?thesis
        proof (cases "k = key \<and> ni_now (is ! j') < ni_now x + 30 * second")
          case first: True
          then show ?thesis using Some True Suc by (auto intro!: exI [of _ 0])
        next
          case False
          with ih show ?thesis using lift [of "(k, ni_now x) # past" True] Some True by auto
        qed
      next
        case False
        then show ?thesis using "2.IH"(3) [OF Some False, of j'] "2.prems" Suc Some lift [of past False] by auto
      qed
    qed
  qed
qed simp

text \<open>
  C31: With a clock that does not run backwards: a notification is posted only for expired
  credentials that no connected tray shows; two for the same profile and AWS profile are at least
  30 seconds apart; and an expiry is left out only when one with its key was posted less than 30
  seconds before.
\<close>

theorem notifications_deduplicated:
  assumes "sorted (map ni_now is)" and "j < length is"
  shows "(notify_run is [] ! j \<noteq> None \<longrightarrow> due (is ! j) \<noteq> None \<and>
      (\<forall>i<j. notify_run is [] ! i \<noteq> None \<and> due (is ! i) = due (is ! j) \<longrightarrow>
         ni_now (is ! i) + 30 * second \<le> ni_now (is ! j))) \<and>
    (notify_run is [] ! j = None \<and> due (is ! j) \<noteq> None \<longrightarrow>
      (\<exists>i<j. notify_run is [] ! i \<noteq> None \<and> due (is ! i) = due (is ! j) \<and>
         ni_now (is ! j) < ni_now (is ! i) + 30 * second))"
proof -
  have eq: "map (\<lambda>p. p \<noteq> None) (notify_run is []) = posts is []"
    by (rule notify_run_posts) (simp_all add: assms(1))
  then have len: "length (notify_run is []) = length is" by (metis length_map length_posts)
  have nth: "(notify_run is [] ! i = None) = (\<not> posts is [] ! i)" if "i \<le> j" for i
    using that assms(2) len by (subst eq [symmetric]) simp
  show ?thesis
    using posts_spaced [of _ j "is" "[]"] posts_due [of j "is" "[]"] posts_missed [of j "is" _ "[]"] assms(2)
    by (auto simp: nth less_imp_le simp del: not_None_eq cong: conj_cong)
qed

definition sample_expiry :: "instant \<Rightarrow> notify_input" where
  "sample_expiry t = \<lparr>ni_event = CredentialsExpired ''dev'' ''sso'' ''db'' ''expired'' t, ni_tray = False, ni_now = t\<rparr>"

theorem notifications_deduplicated_witness:
  "let is = [sample_expiry 0, sample_expiry 5000000000, sample_expiry 31000000000]
   in notify_run is [] = [Some (notify_text ''dev'' ''sso''), None, Some (notify_text ''dev'' ''sso'')] \<and>
      ni_now (is ! 0) + 30 * second \<le> ni_now (is ! 2)"
proof -
  let ?is = "[sample_expiry 0, sample_expiry 5000000000, sample_expiry 31000000000]"
  have run: "notify_run ?is [] = [Some (notify_text ''dev'' ''sso''), None, Some (notify_text ''dev'' ''sso'')]"
    by (simp add: notify_step_def sample_expiry_def shouldFire_def notifyDedupeWindow_def)
  have "sorted (map ni_now ?is)" by (simp add: sample_expiry_def)
  from notifications_deduplicated [OF this, of 2] have "ni_now (?is ! 0) + 30 * second \<le> ni_now (?is ! 2)"
    unfolding run by (auto simp: due_def sample_expiry_def)
  with run show ?thesis by (simp add: Let_def)
qed

section \<open>The AppleScript text\<close>

definition escapeAppleScript :: "string \<Rightarrow> string" where
  "escapeAppleScript s = ReplaceAll (ReplaceAll s (CHR 0x5C) [CHR 0x5C, CHR 0x5C]) (CHR 0x22) [CHR 0x5C, CHR 0x22]"

definition notification_script :: "string \<Rightarrow> string \<Rightarrow> string" where
  "notification_script title message =
     ''display notification '' @ [CHR 0x22] @ escapeAppleScript message @ [CHR 0x22] @ '' with title '' @
     [CHR 0x22] @ escapeAppleScript title @ [CHR 0x22]"

text \<open>How AppleScript reads a string literal after its opening quote: its value and what follows.\<close>

fun read_literal :: "string \<Rightarrow> (string \<times> string) option" where
  "read_literal [] = None"
| "read_literal (c # s) =
     (if c = CHR 0x22 then Some ([], s)
      else if c = CHR 0x5C then
        (case s of [] \<Rightarrow> None | d # s' \<Rightarrow> map_option (\<lambda>(v, r). (d # v, r)) (read_literal s'))
      else map_option (\<lambda>(v, r). (c # v, r)) (read_literal s))"

lemma escapeAppleScript_Cons:
  "escapeAppleScript (c # s) =
     (if c = CHR 0x5C then [CHR 0x5C, CHR 0x5C] else if c = CHR 0x22 then [CHR 0x5C, CHR 0x22] else [c]) @ escapeAppleScript s"
  by (simp add: escapeAppleScript_def ReplaceAll_def)

lemma read_escaped: "read_literal (escapeAppleScript s @ CHR 0x22 # rest) = Some (s, rest)"
proof (induction s)
  case Nil
  show ?case by (simp add: escapeAppleScript_def ReplaceAll_def)
next
  case (Cons c s)
  then show ?case by (simp add: escapeAppleScript_Cons)
qed

text \<open>
  No profile name can break out of the notification's AppleScript: whatever the title and the
  message, the script's two literals read back as exactly these, and nothing follows them.
\<close>

lemma notification_script_safe:
  "\<exists>rest. notification_script title message = ''display notification '' @ CHR 0x22 # rest \<and>
     (\<exists>rest'. read_literal rest = Some (message, '' with title '' @ CHR 0x22 # rest') \<and>
        read_literal rest' = Some (title, []))"
  by (auto simp: notification_script_def read_escaped [where rest = "_ @ _", simplified] read_escaped
      intro!: exI [of _ "escapeAppleScript message @ CHR 0x22 # '' with title '' @ CHR 0x22 # escapeAppleScript title @ [CHR 0x22]"])

end
