(* ===== verification/Tray.thy ===== *)
theory Tray
  imports Server Notifier "HOL-Library.List_Lexorder" "HOL-Library.Char_ord"
begin

text \<open>
  \<open>internal/tray/tray.go\<close>: the menu-bar view of the daemon. Its state is a map of profiles with their
  services, brought up to date by the event stream (\<open>apply\<close>) and by snapshots (\<open>seedStatuses\<close>, in
  two sections with the request in between). A menu item is what it shows; an item that does not
  exist is \<open>None\<close>. \<open>eventSeq\<close> is a \<open>uint64\<close> and wraps.
\<close>

datatype iconState = stateIdle | stateOK | statePartial | stateWarn | stateErr

text \<open>The constants are numbered by \<open>iota\<close> and ordered by severity.\<close>

fun icon_ord :: "iconState \<Rightarrow> nat" where
  "icon_ord stateIdle = 0"
| "icon_ord stateOK = 1"
| "icon_ord statePartial = 2"
| "icon_ord stateWarn = 3"
| "icon_ord stateErr = 4"

lemma icon_ord_inject: "icon_ord a = icon_ord b \<longleftrightarrow> a = b"
  by (cases a; cases b) simp_all

instantiation iconState :: linorder
begin

definition less_eq_iconState :: "iconState \<Rightarrow> iconState \<Rightarrow> bool" where
  "less_eq_iconState a b \<longleftrightarrow> icon_ord a \<le> icon_ord b"

definition less_iconState :: "iconState \<Rightarrow> iconState \<Rightarrow> bool" where
  "less_iconState a b \<longleftrightarrow> icon_ord a < icon_ord b"

instance
  by standard (auto simp: less_eq_iconState_def less_iconState_def icon_ord_inject)

end

record serviceEntry =
  te_profile :: string
  te_serviceName :: string
  te_dnsName :: string
  te_localPort :: int
  te_localAddr :: string
  te_state :: string
  te_err :: string
  te_menuItem :: "string option"

record profileEntry =
  tp_name :: string
  tp_credsExpired :: bool
  tp_awsProfile :: string
  tp_services :: "(string \<times> serviceEntry) list"
  tp_headerItem :: "string option"
  tp_loginItem :: "bool option"

record tray =
  t_profiles :: "(string \<times> profileEntry) list"
  t_built :: bool
  t_eventSeq :: "64 word"
  t_icon :: iconState

definition newTray :: tray where
  "newTray = \<lparr>t_profiles = [], t_built = False, t_eventSeq = 0, t_icon = stateIdle\<rparr>"

definition new_profile :: "string \<Rightarrow> profileEntry" where
  "new_profile name = \<lparr>tp_name = name, tp_credsExpired = False, tp_awsProfile = [], tp_services = [],
     tp_headerItem = None, tp_loginItem = None\<rparr>"

definition new_service :: "string \<Rightarrow> string \<Rightarrow> string \<Rightarrow> serviceEntry" where
  "new_service profile service dns = \<lparr>te_profile = profile, te_serviceName = service, te_dnsName = dns,
     te_localPort = 0, te_localAddr = [], te_state = [], te_err = [], te_menuItem = None\<rparr>"

definition getOrCreateProfileLocked :: "string \<Rightarrow> tray \<Rightarrow> profileEntry \<times> tray" where
  "getOrCreateProfileLocked name t =
     (case map_of (t_profiles t) name of
        Some p \<Rightarrow> (p, t)
      | None \<Rightarrow> (new_profile name, t\<lparr>t_profiles := map_put name (new_profile name) (t_profiles t)\<rparr>))"

text \<open>A write through a pointer into the maps.\<close>

definition set_profile :: "string \<Rightarrow> profileEntry \<Rightarrow> tray \<Rightarrow> tray" where
  "set_profile name p t = t\<lparr>t_profiles := map_put name p (t_profiles t)\<rparr>"

definition set_service :: "string \<Rightarrow> serviceEntry \<Rightarrow> profileEntry \<Rightarrow> profileEntry" where
  "set_service name svc p = p\<lparr>tp_services := map_put name svc (tp_services p)\<rparr>"

section \<open>Events\<close>

definition apply_state :: "ServiceStateChangedDTO \<Rightarrow> tray \<Rightarrow> bool \<times> tray" where
  "apply_state d t =
     (let (p, t) = getOrCreateProfileLocked (sd_Profile d) t;
          svc = (case map_of (tp_services p) (sd_ServiceName d) of
              Some svc \<Rightarrow> svc
            | None \<Rightarrow> new_service (sd_Profile d) (sd_ServiceName d) (sd_DNSName d));
          svc = svc\<lparr>te_state := sd_To d, te_err := sd_Error d\<rparr>;
          p = (if sd_To d \<noteq> ''Failed'' then p\<lparr>tp_credsExpired := False\<rparr> else p);
          svc = (if sd_To d = ''Disconnected'' then svc\<lparr>te_localAddr := []\<rparr> else svc);
          reseed = (sd_To d = ''Starting'' \<or> sd_To d = ''Connected'' \<and> te_localAddr svc = []);
          t = set_profile (sd_Profile d) (set_service (sd_ServiceName d) svc p) t
      in (reseed, t\<lparr>t_eventSeq := t_eventSeq t + 1\<rparr>))"

definition apply_creds :: "CredentialsExpiredDTO \<Rightarrow> tray \<Rightarrow> tray" where
  "apply_creds d t =
     (let (p, t) = getOrCreateProfileLocked (cd_Profile d) t;
          t = set_profile (cd_Profile d) (p\<lparr>tp_credsExpired := True, tp_awsProfile := cd_AWSProfile d\<rparr>) t
      in t\<lparr>t_eventSeq := t_eventSeq t + 1\<rparr>)"

text \<open>\<open>apply\<close>: whether it asks for a new snapshot, and the view after it.\<close>

definition tray_apply :: "EventEnvelope \<Rightarrow> tray \<Rightarrow> bool \<times> tray" where
  "tray_apply env t =
     (if ev_Kind env = EnvelopeKindState then
        (case ev_State env of None \<Rightarrow> (False, t) | Some d \<Rightarrow> apply_state d t)
      else if ev_Kind env = EnvelopeKindCredsExpired then
        (case ev_Creds env of None \<Rightarrow> (False, t) | Some d \<Rightarrow> (False, apply_creds d t))
      else if ev_Kind env = EnvelopeKindProfileDone then (True, t)
      else (False, t))"

section \<open>Snapshots\<close>

text \<open>
  \<open>seedStatuses\<close>: the section before the request reads \<open>eventSeq\<close>; \<open>seed_commit\<close> is the one after
  it, with that number and the answer.
\<close>

definition seed_baseline :: "tray \<Rightarrow> 64 word" where
  "seed_baseline t = t_eventSeq t"

definition seed_entry :: "bool \<Rightarrow> StatusEntry \<Rightarrow> tray \<Rightarrow> tray" where
  "seed_entry safe st t =
     (let (p, t) = getOrCreateProfileLocked (se_Profile st) t;
          found = map_of (tp_services p) (se_ServiceName st);
          svc = (case found of Some svc \<Rightarrow> svc | None \<Rightarrow> new_service (se_Profile st) (se_ServiceName st) []);
          svc = svc\<lparr>te_dnsName := se_DNSName st, te_localPort := se_LocalPort st, te_localAddr := se_LocalAddr st\<rparr>;
          svc = (if safe \<or> found = None then svc\<lparr>te_state := se_State st, te_err := se_Error st\<rparr> else svc)
      in set_profile (se_Profile st) (set_service (se_ServiceName st) svc p) t)"

definition gone :: "serviceEntry \<Rightarrow> serviceEntry" where
  "gone svc = svc\<lparr>te_localAddr := [], te_state := ''Disconnected'', te_err := []\<rparr>"

definition seed_absent :: "string list \<Rightarrow> tray \<Rightarrow> tray" where
  "seed_absent seen t =
     t\<lparr>t_profiles := map (\<lambda>(pname, p). (pname, p\<lparr>tp_services :=
         map (\<lambda>(sname, svc). (sname, if pname @ ''/'' @ sname \<in> set seen then svc else gone svc)) (tp_services p)\<rparr>))
       (t_profiles t)\<rparr>"

definition status_key :: "StatusEntry \<Rightarrow> string" where
  "status_key st = se_Profile st @ ''/'' @ se_ServiceName st"

definition seed_commit :: "64 word \<Rightarrow> go_error + Response \<Rightarrow> tray \<Rightarrow> bool \<times> tray" where
  "seed_commit baseline resp t =
     (case resp of
        Inl err \<Rightarrow> (False, t)
      | Inr r \<Rightarrow>
          if \<not> rs_OK r then (False, t)
          else
            let safe = (t_eventSeq t = baseline);
                t = fold (seed_entry safe) (rs_Statuses r) t
            in (True, if safe then seed_absent (map status_key (rs_Statuses r)) t else t))"

section \<open>Icon and labels\<close>

text \<open>
  The loops of \<open>aggregateStateLocked\<close>: the flags connected, disconnected and in flight, or \<open>None\<close>
  when it returned \<open>stateErr\<close> on the way.
\<close>

type_synonym flags = "bool \<times> bool \<times> bool"

definition count_service :: "serviceEntry \<Rightarrow> flags \<Rightarrow> flags option" where
  "count_service svc f =
     (case f of (con, dis, fly) \<Rightarrow>
       if te_state svc = ''Failed'' then None
       else if te_state svc \<in> {''Starting'', ''Reconnecting'', ''Stopping''} then Some (con, dis, True)
       else if te_state svc = ''Connected'' then Some (True, dis, fly)
       else if te_state svc \<in> {[], ''Disconnected''} then Some (con, True, fly)
       else Some (con, dis, fly))"

fun count_services :: "serviceEntry list \<Rightarrow> flags \<Rightarrow> flags option" where
  "count_services [] f = Some f"
| "count_services (svc # svcs) f = do { f \<leftarrow> count_service svc f; count_services svcs f }"

fun count_profiles :: "profileEntry list \<Rightarrow> flags \<Rightarrow> flags option" where
  "count_profiles [] f = Some f"
| "count_profiles (p # ps) f =
     (if tp_credsExpired p then None
      else do { f \<leftarrow> count_services (map snd (tp_services p)) f; count_profiles ps f })"

definition aggregateStateLocked :: "tray \<Rightarrow> iconState" where
  "aggregateStateLocked t =
     (case count_profiles (map snd (t_profiles t)) (False, False, False) of
        None \<Rightarrow> stateErr
      | Some (con, dis, fly) \<Rightarrow>
          if fly then stateWarn
          else if con \<and> dis then statePartial
          else if con then stateOK
          else stateIdle)"

definition stateMarker :: "string \<Rightarrow> string" where
  "stateMarker s =
     (if s = ''Connected'' then [CHR 0xE2, CHR 0x97, CHR 0x8F]
      else if s = ''Starting'' \<or> s = ''Reconnecting'' then [CHR 0xE2, CHR 0x97, CHR 0x90]
      else if s = ''Failed'' then [CHR 0xE2, CHR 0x9C, CHR 0x97]
      else if s = ''Stopping'' then [CHR 0xE2, CHR 0x97, CHR 0x8C]
      else [CHR 0xE2, CHR 0x97, CHR 0x8B])"

definition serviceLabel :: "serviceEntry \<Rightarrow> string" where
  "serviceLabel svc =
     (let addr = (if te_localPort svc \<noteq> 0 then te_dnsName svc @ '':'' @ show_int (te_localPort svc) else te_dnsName svc);
          parts = [stateMarker (te_state svc), addr];
          parts = (if te_state svc = ''Failed''
                   then parts @ [if te_err svc \<noteq> [] then em_dash @ '' '' @ te_err svc else em_dash @ '' failed'']
                   else parts)
      in Join parts ''  '')"

definition iconFor :: "iconState \<Rightarrow> string" where
  "iconFor s = (case s of stateOK \<Rightarrow> ''ok.png'' | statePartial \<Rightarrow> ''partial.png'' | stateWarn \<Rightarrow> ''warn.png''
     | stateErr \<Rightarrow> ''err.png'' | stateIdle \<Rightarrow> ''idle.png'')"

section \<open>The menu\<close>

datatype menu_row = Header string | Login | Service_row string string string | Separator | Action string

definition build_profile :: "profileEntry \<Rightarrow> profileEntry" where
  "build_profile p = p\<lparr>tp_services := map (\<lambda>(n, svc). (n, svc\<lparr>te_menuItem := Some (serviceLabel svc)\<rparr>)) (tp_services p),
     tp_headerItem := Some (tp_name p), tp_loginItem := Some False\<rparr>"

text \<open>\<open>p\<close> is looked up by the sorted names; the header shows the key it is stored under.\<close>

definition profile_rows :: "string \<Rightarrow> profileEntry \<Rightarrow> menu_row list" where
  "profile_rows pname p = [Header pname, Login] @
     map (\<lambda>sname. case map_of (tp_services p) sname of
            Some svc \<Rightarrow> Service_row pname sname (serviceLabel svc) | None \<Rightarrow> Separator) (sort (keys (tp_services p))) @
     [Separator]"

definition buildProfilesMenu :: "tray \<Rightarrow> menu_row list \<times> tray" where
  "buildProfilesMenu t =
     (concat (map (\<lambda>pname. case map_of (t_profiles t) pname of Some p \<Rightarrow> profile_rows pname p | None \<Rightarrow> [])
        (sort (keys (t_profiles t)))),
      t\<lparr>t_profiles := map (\<lambda>(pname, p). (pname, (build_profile p)\<lparr>tp_headerItem := Some pname\<rparr>)) (t_profiles t),
        t_built := True\<rparr>)"

definition buildStaticMenu :: "menu_row list" where
  "buildStaticMenu = [Action ''Start All'', Action ''Stop All'', Action ''Restart All'', Separator,
     Action ''Open Logs'', Separator, Action ''Quit Tray'']"

definition warning_sign :: string where
  "warning_sign = [CHR 0xE2, CHR 0x9A, CHR 0xA0]"

definition rebuild_profile :: "profileEntry \<Rightarrow> profileEntry" where
  "rebuild_profile p =
     (if tp_headerItem p = None then p
      else p\<lparr>tp_services := map (\<lambda>(n, svc). (n, if te_menuItem svc = None then svc
                 else svc\<lparr>te_menuItem := Some (serviceLabel svc)\<rparr>)) (tp_services p),
             tp_headerItem := Some (if tp_credsExpired p then tp_name p @ ''  '' @ warning_sign @ '' credentials expired'' else tp_name p),
             tp_loginItem := Some (tp_credsExpired p)\<rparr>)"

definition rebuild :: "tray \<Rightarrow> tray" where
  "rebuild t =
     (if \<not> t_built t then t\<lparr>t_icon := aggregateStateLocked t\<rparr>
      else t\<lparr>t_profiles := map (\<lambda>(n, p). (n, rebuild_profile p)) (t_profiles t), t_icon := aggregateStateLocked t\<rparr>)"

section \<open>Clicks\<close>

definition allProfileTargets :: "tray \<Rightarrow> string list" where
  "allProfileTargets t = keys (t_profiles t)"

definition request :: "string \<Rightarrow> string list \<Rightarrow> Request" where
  "request cmd targets = \<lparr>rq_Command = cmd, rq_Targets = targets, rq_Follow = False\<rparr>"

definition service_click :: "serviceEntry \<Rightarrow> Request" where
  "service_click svc =
     (let target = te_profile svc @ ''/'' @ te_serviceName svc
      in request (if te_state svc \<in> {''Connected'', ''Starting'', ''Reconnecting''} then CmdDown else CmdUp) [target])"

datatype static_click = Start_all | Stop_all | Restart_all | Open_logs | Quit_tray

definition restartAll :: "tray \<Rightarrow> Request list" where
  "restartAll t = [request CmdDown (allProfileTargets t), request CmdUp (allProfileTargets t)]"

definition static_clicks :: "static_click \<Rightarrow> tray \<Rightarrow> Request list" where
  "static_clicks c t =
     (case c of
        Start_all \<Rightarrow> [request CmdUp (allProfileTargets t)]
      | Stop_all \<Rightarrow> [request CmdDown (allProfileTargets t)]
      | Restart_all \<Rightarrow> restartAll t
      | _ \<Rightarrow> [])"

definition openLogsTerminal :: "string \<Rightarrow> string" where
  "openLogsTerminal socketPath =
     ''tell application '' @ [CHR 0x22] @ ''Terminal'' @ [CHR 0x22] @ '' to do script '' @ [CHR 0x22] @
     ''holepunch --socket '' @ socketPath @ '' logs -f'' @ [CHR 0x22]"

definition openLoginTerminal :: "string \<Rightarrow> string option" where
  "openLoginTerminal awsProfile =
     (if awsProfile = [] then None
      else Some (''tell application '' @ [CHR 0x22] @ ''Terminal'' @ [CHR 0x22] @ '' to do script '' @ [CHR 0x22] @
        ''aws sso login --profile '' @ awsProfile @ [CHR 0x22]))"

section \<open>Staying connected\<close>

text \<open>
  One turn of \<open>streamDaemon\<close>: \<open>alive\<close> is what \<open>seedStatuses\<close> answered, \<open>now\<close> the time. The loop
  keeps when the failures began and the pause to take.
\<close>

definition daemonGraceWindow :: duration where
  "daemonGraceWindow = 10 * second"

datatype tray_turn = Quit | Pause duration | Stream

definition stream_turn :: "bool \<Rightarrow> instant \<Rightarrow> instant option \<times> duration \<Rightarrow> tray_turn \<times> instant option \<times> duration" where
  "stream_turn alive now s =
     (case s of (firstFailAt, backoff) \<Rightarrow>
       if alive then (Stream, None, second)
       else
         let next = if backoff < 10 * second then backoff * 2 else backoff
         in case firstFailAt of
             None \<Rightarrow> (Pause backoff, Some now, next)
           | Some t \<Rightarrow>
               if now - t > daemonGraceWindow then (Quit, firstFailAt, backoff)
               else (Pause backoff, firstFailAt, next))"

fun stream_turns :: "(bool \<times> instant) list \<Rightarrow> instant option \<times> duration \<Rightarrow> tray_turn list" where
  "stream_turns [] s = []"
| "stream_turns ((alive, now) # xs) s =
     (case stream_turn alive now s of
        (Quit, _) \<Rightarrow> [Quit]
      | (turn, s) \<Rightarrow> turn # stream_turns xs s)"

text \<open>\<open>debouncedRefresh\<close>: a refresh starts the timer unless it runs; its end rebuilds.\<close>

datatype debounce_input = Refresh_token | Timer_fired

definition debounce_step :: "debounce_input \<Rightarrow> bool \<times> tray \<Rightarrow> bool \<times> tray" where
  "debounce_step i s =
     (case s of (pending, t) \<Rightarrow>
       (case i of
          Refresh_token \<Rightarrow> (True, t)
        | Timer_fired \<Rightarrow> if pending then (False, rebuild t) else (False, t)))"

end
