(* ===== verification/Tray_Theorems.thy ===== *)
theory Tray_Theorems
  imports Tray Server_Theorems
begin

text \<open>
  What the tray shows: a snapshot no event outran makes its view equal to the daemon's reply, a
  snapshot outrun by an event leaves the newer states alone, and the icon says exactly what the
  services' states are, in whatever order the maps are visited.
\<close>

section \<open>Looking up a service\<close>

definition svc_lookup :: "tray \<Rightarrow> string \<Rightarrow> string \<Rightarrow> serviceEntry option" where
  "svc_lookup t p s = (case map_of (t_profiles t) p of None \<Rightarrow> None | Some pe \<Rightarrow> map_of (tp_services pe) s)"

definition tray_ok :: "tray \<Rightarrow> bool" where
  "tray_ok t \<longleftrightarrow> distinct (keys (t_profiles t)) \<and>
     (\<forall>(pname, p)\<in>set (t_profiles t). tp_name p = pname \<and> distinct (keys (tp_services p)) \<and>
        (\<forall>(sname, svc)\<in>set (tp_services p). te_profile svc = pname \<and> te_serviceName svc = sname))"

lemma tray_ok_New [simp]: "tray_ok newTray"
  by (simp add: tray_ok_def newTray_def)

definition profile_of :: "string \<Rightarrow> tray \<Rightarrow> profileEntry" where
  "profile_of name t = (case map_of (t_profiles t) name of Some p \<Rightarrow> p | None \<Rightarrow> new_profile name)"

lemma getOrCreate_cases:
  obtains t' where "getOrCreateProfileLocked name t = (profile_of name t, t')"
    and "\<And>q. set_profile name q t' = set_profile name q t" and "t_eventSeq t' = t_eventSeq t"
  by (cases "map_of (t_profiles t) name")
    (auto simp: getOrCreateProfileLocked_def profile_of_def set_profile_def)

lemma set_profile_fields [simp]:
  "t_eventSeq (set_profile n p t) = t_eventSeq t" "t_built (set_profile n p t) = t_built t"
  "t_icon (set_profile n p t) = t_icon t" "map_of (t_profiles (set_profile n p t)) = (map_of (t_profiles t))(n \<mapsto> p)"
  by (simp_all add: set_profile_def)

lemma map_of_profile_of: "map_of (tp_services (profile_of n t)) s = svc_lookup t n s"
  by (simp add: profile_of_def svc_lookup_def new_profile_def split: option.splits)

lemma svc_lookup_set:
  "tp_services q = tp_services p \<Longrightarrow>
   svc_lookup (set_profile n (set_service s svc q) t) n' s' =
     (if n' = n then (if s' = s then Some svc else map_of (tp_services p) s') else svc_lookup t n' s')"
  by (simp add: svc_lookup_def set_service_def)

text \<open>What one entry of a snapshot makes of the service it names.\<close>

definition seeded :: "bool \<Rightarrow> StatusEntry \<Rightarrow> serviceEntry option \<Rightarrow> serviceEntry" where
  "seeded safe st found =
     (let svc = (case found of Some svc \<Rightarrow> svc | None \<Rightarrow> new_service (se_Profile st) (se_ServiceName st) [])
            \<lparr>te_dnsName := se_DNSName st, te_localPort := se_LocalPort st, te_localAddr := se_LocalAddr st\<rparr>
      in if safe \<or> found = None then svc\<lparr>te_state := se_State st, te_err := se_Error st\<rparr> else svc)"

lemma seed_entry_eq:
  "seed_entry safe st t = set_profile (se_Profile st)
     (set_service (se_ServiceName st) (seeded safe st (svc_lookup t (se_Profile st) (se_ServiceName st)))
       (profile_of (se_Profile st) t)) t"
  by (rule getOrCreate_cases [of "se_Profile st" t]) (simp add: seed_entry_def seeded_def map_of_profile_of Let_def)

lemma svc_lookup_seed_entry:
  "svc_lookup (seed_entry safe st t) p s =
     (if se_Profile st = p \<and> se_ServiceName st = s then Some (seeded safe st (svc_lookup t p s)) else svc_lookup t p s)"
  by (auto simp: seed_entry_eq svc_lookup_set map_of_profile_of)

lemma seed_entry_fields [simp]: "t_eventSeq (seed_entry safe st t) = t_eventSeq t" "t_built (seed_entry safe st t) = t_built t"
  by (simp_all add: seed_entry_eq)

definition find_entry :: "string \<Rightarrow> string \<Rightarrow> StatusEntry list \<Rightarrow> StatusEntry option" where
  "find_entry p s sts = find (\<lambda>st. se_Profile st = p \<and> se_ServiceName st = s) sts"

lemma svc_lookup_fold_seed:
  assumes "distinct (map (\<lambda>st. (se_Profile st, se_ServiceName st)) sts)"
  shows "svc_lookup (fold (seed_entry safe) sts t) p s =
    (case find_entry p s sts of None \<Rightarrow> svc_lookup t p s | Some st \<Rightarrow> Some (seeded safe st (svc_lookup t p s)))"
  using assms
proof (induction sts arbitrary: t)
  case (Cons st sts)
  have "find_entry p s sts = None" if "p = se_Profile st" "s = se_ServiceName st"
    using Cons.prems that by (auto simp: find_entry_def find_None_iff image_iff)
  with Cons show ?case by (auto simp: find_entry_def svc_lookup_seed_entry split: option.splits)
qed (simp add: find_entry_def)

lemma fold_seed_fields [simp]: "t_eventSeq (fold (seed_entry safe) sts t) = t_eventSeq t"
  by (induction sts arbitrary: t) auto

lemma svc_lookup_absent:
  "svc_lookup (seed_absent seen t) p s = map_option (\<lambda>svc. if p @ ''/'' @ s \<in> set seen then svc else gone svc) (svc_lookup t p s)"
  by (auto simp: svc_lookup_def seed_absent_def map_of_map_values split: option.splits)

text \<open>Keys of profiles without a slash determine the profile and the service.\<close>

lemma slash_key:
  assumes "p @ ''/'' @ s = q @ ''/'' @ r" and "CHR ''/'' \<notin> set p" and "CHR ''/'' \<notin> set q"
  shows "p = q \<and> s = r"
proof -
  have "Cut (p @ CHR ''/'' # s) (CHR ''/'') = Cut (q @ CHR ''/'' # r) (CHR ''/'')" using assms(1) by simp
  then show ?thesis using Cut_append [OF assms(2), of s] Cut_append [OF assms(3), of r] by simp
qed

lemma status_key_iff:
  assumes "CHR ''/'' \<notin> set p" and "list_all (\<lambda>st. CHR ''/'' \<notin> set (se_Profile st)) sts"
  shows "p @ ''/'' @ s \<in> status_key ` set sts \<longleftrightarrow> find_entry p s sts \<noteq> None"
proof -
  have "p @ ''/'' @ s = status_key st \<longleftrightarrow> se_Profile st = p \<and> se_ServiceName st = s" if "st \<in> set sts" for st
    using slash_key [of p s "se_Profile st" "se_ServiceName st"] assms that by (auto simp: status_key_def list_all_iff)
  then show ?thesis by (auto simp: find_entry_def find_None_iff image_iff)
qed

text \<open>
  A snapshot that no event outran becomes the view: for profiles without a slash in their
  name, every service of the daemon's reply is shown with exactly the state, error, name, port and
  address of the reply, every other service the tray knows is shown as Disconnected without error
  and address, and no service is invented.
\<close>

lemma snapshot_becomes_view:
  assumes "t_eventSeq t = baseline" and "rs_OK r"
    and "distinct (map (\<lambda>st. (se_Profile st, se_ServiceName st)) (rs_Statuses r))"
    and "list_all (\<lambda>st. CHR ''/'' \<notin> set (se_Profile st)) (rs_Statuses r)" and "CHR ''/'' \<notin> set p"
  shows "fst (seed_commit baseline (Inr r) t) \<and>
    (case find_entry p s (rs_Statuses r) of
       Some st \<Rightarrow> \<exists>svc. svc_lookup (snd (seed_commit baseline (Inr r) t)) p s = Some svc \<and>
          te_state svc = se_State st \<and> te_err svc = se_Error st \<and> te_dnsName svc = se_DNSName st \<and>
          te_localPort svc = se_LocalPort st \<and> te_localAddr svc = se_LocalAddr st
     | None \<Rightarrow> svc_lookup (snd (seed_commit baseline (Inr r) t)) p s = map_option gone (svc_lookup t p s))"
  using assms(1,2) status_key_iff [OF assms(5,4), of s]
  by (auto simp: seed_commit_def Let_def svc_lookup_absent svc_lookup_fold_seed [OF assms(3)] seeded_def
      image_iff split: option.splits)

definition sample_status :: "string \<Rightarrow> StatusEntry" where
  "sample_status st = \<lparr>se_Profile = ''dev'', se_ServiceName = ''db'', se_DNSName = ''db.dev'', se_LocalPort = 5432,
     se_LocalAddr = ''127.0.0.5:5432'', se_State = st, se_ConnectedAt = [], se_Error = []\<rparr>"

lemma snapshot_becomes_view_witness:
  "\<exists>svc. svc_lookup (snd (seed_commit 0 (Inr (resp_ok\<lparr>rs_Statuses := [sample_status ''Connected'']\<rparr>)) newTray)) ''dev'' ''db'' = Some svc \<and>
     te_state svc = ''Connected'' \<and> te_localAddr svc = ''127.0.0.5:5432''"
  using snapshot_becomes_view [of newTray 0 "resp_ok\<lparr>rs_Statuses := [sample_status ''Connected'']\<rparr>" "''dev''" "''db''"]
  by (auto simp: newTray_def resp_ok_def sample_status_def find_entry_def)

text \<open>
  What can happen to the view while a snapshot is under way: events are applied, other snapshots are
  committed. An event that says something of a service or of credentials is counted.
\<close>

datatype view_op = Event EventEnvelope | Snapshot "64 word" "go_error + Response"

fun view_do :: "view_op \<Rightarrow> tray \<Rightarrow> tray" where
  "view_do (Event env) t = snd (tray_apply env t)"
| "view_do (Snapshot baseline resp) t = snd (seed_commit baseline resp t)"

fun tells :: "view_op \<Rightarrow> bool" where
  "tells (Event env) \<longleftrightarrow> ev_Kind env = EnvelopeKindState \<and> ev_State env \<noteq> None \<or>
     ev_Kind env = EnvelopeKindCredsExpired \<and> ev_Creds env \<noteq> None"
| "tells (Snapshot baseline resp) \<longleftrightarrow> False"

lemma seed_commit_seq [simp]: "t_eventSeq (snd (seed_commit baseline resp t)) = t_eventSeq t"
  by (auto simp: seed_commit_def Let_def seed_absent_def split: sum.splits)

lemma getOrCreate_seq: "getOrCreateProfileLocked name t = (p, t') \<Longrightarrow> t_eventSeq t' = t_eventSeq t"
  by (auto simp: getOrCreateProfileLocked_def split: option.splits)

lemma view_do_seq: "t_eventSeq (view_do op t) = t_eventSeq t + of_bool (tells op)"
proof (cases op)
  case (Event env)
  have "t_eventSeq (snd (apply_state d t)) = t_eventSeq t + 1" "t_eventSeq (apply_creds c t) = t_eventSeq t + 1" for d c
    by (auto simp: apply_state_def apply_creds_def Let_def dest: getOrCreate_seq split: prod.splits)
  then show ?thesis using Event by (auto simp: tray_apply_def kind_defs split: option.splits)
qed simp

lemma view_run_seq: "t_eventSeq (fold view_do ops t) = t_eventSeq t + of_nat (length (filter tells ops))"
  by (induction ops arbitrary: t) (auto simp: view_do_seq)

text \<open>
  C32: Events outrank a snapshot they outran. Take a snapshot requested at one moment and committed
  later, and in between any run of events and other snapshots, of less than 2^64 events (the counter is
  a uint64). If one of them was an event with a payload, the commit changes neither the state nor the
  error of any service the tray shows by then, and takes none away, provided the reply names no service
  twice, as the daemon's never does.
\<close>

theorem events_outrank_snapshot:
  assumes "t = fold view_do ops t0" and "list_ex tells ops" and "length ops < 2 ^ 64" and "svc_lookup t p s = Some svc"
    and "\<And>r. resp = Inr r \<Longrightarrow> distinct (map (\<lambda>st. (se_Profile st, se_ServiceName st)) (rs_Statuses r))"
  shows "\<exists>svc'. svc_lookup (snd (seed_commit (seed_baseline t0) resp t)) p s = Some svc' \<and>
    te_state svc' = te_state svc \<and> te_err svc' = te_err svc"
proof (cases resp)
  case (Inl err)
  with assms(4) show ?thesis by (simp add: seed_commit_def)
next
  case (Inr r)
  let ?k = "length (filter tells ops)"
  have k: "0 < ?k" "?k < 2 ^ 64"
    using assms(2) le_less_trans [OF length_filter_le assms(3)] by (auto simp: list_ex_iff filter_empty_conv)
  then have "(of_nat ?k :: 64 word) \<noteq> 0" by (simp add: word_of_nat_eq_0_iff nat_dvd_not_less)
  then have "t_eventSeq t \<noteq> seed_baseline t0" by (simp add: assms(1) view_run_seq seed_baseline_def)
  then show ?thesis
    using assms(4) Inr svc_lookup_fold_seed [OF assms(5) [OF Inr], of False t p s]
    by (auto simp: seed_commit_def Let_def seeded_def split: option.splits)
qed

theorem events_outrank_snapshot_witness:
  "\<exists>t svc. t = snd (tray_apply (eventToEnvelope (\<lambda>s. s) (ServiceStateChanged ''dev'' ''db'' ''db.dev'' Starting Failed None 1)) newTray) \<and>
     svc_lookup (snd (seed_commit (seed_baseline newTray) (Inr (resp_ok\<lparr>rs_Statuses := [sample_status ''Connected'']\<rparr>)) t)) ''dev'' ''db'' = Some svc \<and>
     te_state svc = state_String Failed"
proof -
  let ?env = "eventToEnvelope (\<lambda>s. s) (ServiceStateChanged ''dev'' ''db'' ''db.dev'' Starting Failed None 1)"
  let ?t = "snd (tray_apply ?env newTray)"
  have run: "?t = fold view_do [Event ?env] newTray" and told: "list_ex tells [Event ?env]"
    and few: "length [Event ?env] < 2 ^ 64" by (simp_all add: no_envelope_def)
  have "\<exists>svc. svc_lookup ?t ''dev'' ''db'' = Some svc \<and> te_state svc = state_String Failed"
    by (auto simp: tray_apply_def no_envelope_def kind_defs apply_state_def getOrCreateProfileLocked_def newTray_def
        svc_lookup_def set_profile_def set_service_def new_profile_def Let_def)
  then obtain svc where svc: "svc_lookup ?t ''dev'' ''db'' = Some svc" "te_state svc = state_String Failed"
    by blast
  from events_outrank_snapshot [OF run told few svc(1), of "Inr (resp_ok\<lparr>rs_Statuses := [sample_status ''Connected'']\<rparr>)"] svc(2)
  show ?thesis by (auto simp: sample_status_def)
qed

section \<open>The icon\<close>

definition shown_states :: "tray \<Rightarrow> string set" where
  "shown_states t = (\<Union>(pname, p)\<in>set (t_profiles t). (\<lambda>(sname, svc). te_state svc) ` set (tp_services p))"

definition spec_flags :: "string set \<Rightarrow> flags" where
  "spec_flags S = (''Connected'' \<in> S, S \<inter> {[], ''Disconnected''} \<noteq> {}, S \<inter> {''Starting'', ''Reconnecting'', ''Stopping''} \<noteq> {})"

lemma count_services_eq:
  "count_services svcs (spec_flags S) =
     (if ''Failed'' \<in> te_state ` set svcs then None else Some (spec_flags (S \<union> te_state ` set svcs)))"
proof (induction svcs arbitrary: S)
  case (Cons svc svcs)
  have "count_service svc (spec_flags S) = (if te_state svc = ''Failed'' then None else Some (spec_flags (insert (te_state svc) S)))"
    by (auto simp: count_service_def spec_flags_def)
  with Cons show ?case by auto
qed simp

lemma count_profiles_eq:
  "count_profiles ps (spec_flags S) =
     (if (\<exists>p\<in>set ps. tp_credsExpired p) \<or> ''Failed'' \<in> (\<Union>p\<in>set ps. te_state ` snd ` set (tp_services p)) then None
      else Some (spec_flags (S \<union> (\<Union>p\<in>set ps. te_state ` snd ` set (tp_services p)))))"
proof (induction ps arbitrary: S)
  case (Cons p ps)
  then show ?case by (auto simp: count_services_eq Un_assoc)
qed simp

text \<open>
  The icon tells the truth about the whole view, in whatever order Go visits the maps: error
  exactly when some profile's credentials expired or some service is Failed; else busy exactly when
  some service is starting, reconnecting or stopping; else partial when some are connected and some
  not; else connected or idle.
\<close>

lemma icon_exact:
  "aggregateStateLocked t =
    (if (\<exists>(pname, p)\<in>set (t_profiles t). tp_credsExpired p) \<or> ''Failed'' \<in> shown_states t then stateErr
     else if shown_states t \<inter> {''Starting'', ''Reconnecting'', ''Stopping''} \<noteq> {} then stateWarn
     else if ''Connected'' \<in> shown_states t
     then (if shown_states t \<inter> {[], ''Disconnected''} \<noteq> {} then statePartial else stateOK)
     else stateIdle)"
proof -
  have all: "(\<Union>p\<in>set (map snd (t_profiles t)). te_state ` snd ` set (tp_services p)) = shown_states t"
    by (auto simp: shown_states_def image_iff) force+
  have start: "(False, False, False) = spec_flags {}" by (simp add: spec_flags_def)
  have creds: "(\<exists>p\<in>set (map snd (t_profiles t)). tp_credsExpired p) = (\<exists>(pname, p)\<in>set (t_profiles t). tp_credsExpired p)"
    by force
  show ?thesis
    unfolding aggregateStateLocked_def start count_profiles_eq all creds by (auto simp: spec_flags_def)
qed

text \<open>The icon as a function of what the view shows: an error, something on its way, connected, switched off.\<close>

definition verdict :: "bool \<Rightarrow> bool \<Rightarrow> bool \<Rightarrow> bool \<Rightarrow> iconState" where
  "verdict err fly con off =
     (if err then stateErr else if fly then stateWarn
      else if con then (if off then statePartial else stateOK) else stateIdle)"

definition shows_error :: "tray \<Rightarrow> bool" where
  "shows_error t \<longleftrightarrow> (\<exists>(pname, p)\<in>set (t_profiles t). tp_credsExpired p) \<or> ''Failed'' \<in> shown_states t"

definition shows_off :: "tray \<Rightarrow> bool" where
  "shows_off t \<longleftrightarrow> shown_states t \<inter> {[], ''Disconnected''} \<noteq> {}"

definition shows_busy :: "tray \<Rightarrow> bool" where
  "shows_busy t \<longleftrightarrow> shown_states t \<inter> {''Starting'', ''Reconnecting'', ''Stopping''} \<noteq> {}"

lemma icon_verdict:
  "aggregateStateLocked t = verdict (shows_error t) (shows_busy t) (''Connected'' \<in> shown_states t) (shows_off t)"
  unfolding icon_exact verdict_def shows_error_def shows_busy_def shows_off_def by (rule refl)

lemma verdict_max:
  "verdict (e1 \<or> e2) (f1 \<or> f2) (c1 \<or> c2) (o1 \<or> o2) =
     (let worst = max (verdict e1 f1 c1 o1) (verdict e2 f2 c2 o2)
      in if worst = stateOK \<and> (o1 \<or> o2) then statePartial else worst)"
  by (cases e1; cases e2; cases f1; cases f2; cases c1; cases c2; cases o1; cases o2)
    (simp_all add: verdict_def max_def less_eq_iconState_def)

text \<open>
  The icon of two views taken together is the worse of their icons, by the order of the constants,
  with one exception the order does not know: a connected view beside one that has services switched
  off shows the partial ring. So no service added to a view ever makes its icon better.
\<close>

lemma icon_worst_of:
  fixes t t1 t2 :: tray
  assumes "t_profiles t = t_profiles t1 @ t_profiles t2"
  shows "aggregateStateLocked t =
    (let worst = max (aggregateStateLocked t1) (aggregateStateLocked t2)
     in if worst = stateOK \<and> shows_off t then statePartial else worst)"
proof -
  have shown: "shown_states t = shown_states t1 \<union> shown_states t2" by (simp add: shown_states_def assms)
  have parts: "shows_error t = (shows_error t1 \<or> shows_error t2)" "shows_busy t = (shows_busy t1 \<or> shows_busy t2)"
    "shows_off t = (shows_off t1 \<or> shows_off t2)"
    by (auto simp: shows_error_def shows_busy_def shows_off_def shown assms)
  show ?thesis unfolding icon_verdict parts shown Un_iff by (rule verdict_max)
qed

lemma icon_monotone:
  fixes t t1 t2 :: tray
  assumes "t_profiles t = t_profiles t1 @ t_profiles t2"
  shows "aggregateStateLocked t1 \<le> aggregateStateLocked t"
  unfolding icon_worst_of [OF assms]
  by (cases "aggregateStateLocked t1"; cases "aggregateStateLocked t2")
    (simp_all add: max_def less_eq_iconState_def Let_def)

section \<open>Clicks\<close>

text \<open>
  A click on a service's row asks the daemon for exactly that service: on a valid configuration
  with slash-free profile names, the selector it sends stands for the one configured service the
  row shows, so no other is started or stopped; it stops a service that is connected or on its way
  and starts any other.
\<close>

lemma click_addresses_one_service:
  assumes "config_valid cfg" and "distinct (keys (Profiles cfg))" and "CHR ''/'' \<notin> set p"
    and "(p, svc) \<in> set (config_services cfg)" and "te_profile row = p" and "te_serviceName row = Name svc"
  shows "resolveTargets (Profiles cfg) (rq_Targets (service_click row)) = Inr [(p, svc)] \<and>
    rq_Command (service_click row) =
      (if te_state row = ''Connected'' \<or> te_state row = ''Starting'' \<or> te_state row = ''Reconnecting'' then CmdDown else CmdUp)"
proof -
  obtain profile where profile: "(p, profile) \<in> set (Profiles cfg)" "svc \<in> set (Services profile)"
    using assms(4) by (auto simp: config_services_def)
  then have "map_of (Profiles cfg) p = Some profile" using assms(2) by (simp add: map_of_in_set [symmetric])
  moreover have "distinct (map Name (Services profile))"
    using assms(1) profile(1) by (auto simp: config_valid_def profile_complete_def list_all_iff)
  moreover have "Cut (p @ ''/'' @ Name svc) (CHR ''/'') = (p, Name svc, True)"
    using Cut_append [OF assms(3), of "Name svc"] by simp
  ultimately show ?thesis
    using find_named [OF _ profile(2)] assms(5,6) by (auto simp: service_click_def request_def)
qed

lemma click_addresses_one_service_witness:
  "let row = (new_service ''prod'' ''web'' [])\<lparr>te_state := ''Connected''\<rparr>
   in resolveTargets two_profiles (rq_Targets (service_click row)) = Inr [(''prod'', sample_service ''web'')] \<and>
      rq_Command (service_click row) = CmdDown"
proof -
  have "(''prod'', sample_service ''web'') \<in> set (config_services (sample_config two_profiles))"
    and "distinct (keys (Profiles (sample_config two_profiles)))"
    by (simp_all add: config_services_def sample_config_def two_profiles_def sample_profile_def)
  from click_addresses_one_service [OF sample_valid this(2) _ this(1), of "(new_service ''prod'' ''web'' [])\<lparr>te_state := ''Connected''\<rparr>"]
  show ?thesis by (simp add: new_service_def sample_service_def sample_config_def)
qed

text \<open>
  Unlike the notifier, the tray does not escape what it puts into AppleScript: with an AWS
  profile name that holds a double quote, the literal of the login command ends there and the rest
  of the name is script.
\<close>

lemma login_script_injectable:
  assumes "CHR 0x22 \<notin> set name" and "CHR 0x5C \<notin> set name"
  shows "\<exists>pre rest. openLoginTerminal (name @ CHR 0x22 # payload) = Some (pre @ CHR 0x22 # rest) \<and>
    read_literal rest = Some (''aws sso login --profile '' @ name, payload @ [CHR 0x22])"
proof -
  have lit: "read_literal (s @ CHR 0x22 # rest) = Some (s, rest)" if "CHR 0x22 \<notin> set s" "CHR 0x5C \<notin> set s" for s rest
    using that by (induction s) auto
  have "CHR 0x22 \<notin> set (''aws sso login --profile '' @ name)" "CHR 0x5C \<notin> set (''aws sso login --profile '' @ name)"
    using assms by simp_all
  from lit [OF this, of "payload @ [CHR 0x22]"] show ?thesis
    by (intro exI [of _ "''tell application '' @ [CHR 0x22] @ ''Terminal'' @ [CHR 0x22] @ '' to do script ''"]
        exI [of _ "''aws sso login --profile '' @ name @ CHR 0x22 # payload @ [CHR 0x22]"])
      (simp add: openLoginTerminal_def)
qed

lemma login_script_injectable_witness:
  "\<exists>pre rest. openLoginTerminal (''dev'' @ CHR 0x22 # ''; do shell script'') = Some (pre @ CHR 0x22 # rest) \<and>
    read_literal rest = Some (''aws sso login --profile dev'', ''; do shell script'' @ [CHR 0x22])"
  using login_script_injectable [of "''dev''" "''; do shell script''"] by simp

section \<open>Leaving\<close>

text \<open>A turn quits only after failures that began more than ten seconds ago; no pause exceeds 16 seconds.\<close>

lemma stream_turn_cases:
  "stream_turn alive now (first, backoff) = (turn, s') \<Longrightarrow>
     (turn = Quit \<longleftrightarrow> \<not> alive \<and> (\<exists>t. first = Some t \<and> now - t > 10 * second)) \<and>
     (alive \<longrightarrow> turn = Stream \<and> s' = (None, second)) \<and>
     (\<not> alive \<and> turn \<noteq> Quit \<longrightarrow> turn = Pause backoff \<and> fst s' = Some (case first of Some t \<Rightarrow> t | None \<Rightarrow> now))"
  by (auto simp: stream_turn_def daemonGraceWindow_def Let_def split: if_splits option.splits)

lemma stream_turns_pauses:
  "backoff \<in> (\<lambda>k. 2 ^ k * second) ` {0..4} \<Longrightarrow> Pause d \<in> set (stream_turns xs (first, backoff)) \<Longrightarrow> d \<le> 16 * second"
proof (induction xs "(first, backoff)" arbitrary: first backoff rule: stream_turns.induct)
  case (2 alive now xs)
  obtain turn f b where st: "stream_turn alive now (first, backoff) = (turn, f, b)" by (metis prod_cases3)
  have b: "b \<in> (\<lambda>k. 2 ^ k * second) ` {0..4}"
  proof -
    obtain k where k: "k \<le> 4" "backoff = 2 ^ k * second" using 2(3) by auto
    have "k < 4" if "backoff < 10 * second"
    proof (rule ccontr)
      assume "\<not> k < 4"
      then have "k = 4" using k(1) by simp
      with k(2) that show False by simp
    qed
    then have "(if backoff < 10 * second then backoff * 2 else backoff) \<in> (\<lambda>k. 2 ^ k * second) ` {0..4}"
      using k by (auto intro!: image_eqI [of _ _ "Suc k"])
    moreover have "second \<in> (\<lambda>k. 2 ^ k * second) ` {0..4}" by (intro image_eqI [of _ _ 0]) simp_all
    ultimately show ?thesis
      using st 2(3) by (auto simp: stream_turn_def Let_def split: if_splits option.splits)
  qed
  have small: "backoff \<le> 16 * second"
  proof -
    obtain k where k: "k \<le> 4" "backoff = 2 ^ k * second" using 2(3) by auto
    then have "(2::int) ^ k \<le> 2 ^ 4" by (intro power_increasing) auto
    with k show ?thesis by simp
  qed
  show ?case
  proof (cases turn)
    case Quit
    with st 2(4) show ?thesis by simp
  next
    case (Pause d')
    with stream_turn_cases [OF st] have "d' = backoff" by (auto split: if_splits) 
    with Pause st 2 b small show ?thesis by auto
  next
    case Stream
    with st 2 b show ?thesis by auto
  qed
qed simp

end
