(* ===== verification/Resolver.thy ===== *)
theory Resolver
  imports Ip_Allocator Go_Errors Go_Strings
begin

text \<open>
  \<open>internal/resolver\<close>: the embedded DNS resolver (\<open>resolver.go\<close>), the adapter through which the
  engine registers names (\<open>adapter.go\<close>) and the discovery of upstream servers (\<open>discover.go\<close>). The
  DNS library is third-party code: its \<open>Fqdn\<close>, \<open>SetReply\<close>, \<open>Exchange\<close> and \<open>ClientConfigFromFile\<close>
  are arguments; \<open>JoinHostPort\<close> and \<open>SplitHostPort\<close> of Go's \<open>net\<close> are written out. The locale \<open>dns_port\<close> is the contract the engine relies on; every implementation
  of the port interprets it.
\<close>

section \<open>The DNS port\<close>

datatype name_op = Add_name string "ip option" | Remove_name string

locale dns_port =
  fixes add_name :: "string \<Rightarrow> ip option \<Rightarrow> 's \<Rightarrow> 's"
    and remove_name :: "string \<Rightarrow> 's \<Rightarrow> 's"
    and lookup :: "'s \<Rightarrow> string \<Rightarrow> ip option option"
    and canon :: "string \<Rightarrow> string"
    and ok :: "'s \<Rightarrow> bool"
  assumes lookup_add: "ok s \<Longrightarrow> lookup (add_name h i s) (canon n) = (if canon n = canon h then Some i else lookup s (canon n))"
    and lookup_remove: "ok s \<Longrightarrow> lookup (remove_name h s) (canon n) = (if canon n = canon h then None else lookup s (canon n))"
    and add_ok: "ok s \<Longrightarrow> ok (add_name h i s)"
    and remove_ok: "ok s \<Longrightarrow> ok (remove_name h s)"
begin

fun apply_op :: "name_op \<Rightarrow> 's \<Rightarrow> 's" where
  "apply_op (Add_name h i) s = add_name h i s"
| "apply_op (Remove_name h) s = remove_name h s"

fun concerns :: "string \<Rightarrow> name_op \<Rightarrow> bool" where
  "concerns n (Add_name h i) = (canon h = canon n)"
| "concerns n (Remove_name h) = (canon h = canon n)"

fun verdict :: "name_op \<Rightarrow> ip option option" where
  "verdict (Add_name h i) = Some i"
| "verdict (Remove_name h) = None"

lemma apply_ok: "ok s \<Longrightarrow> ok (fold apply_op ops s)"
proof (induction ops arbitrary: s)
  case (Cons x ops)
  then show ?case by (cases x) (auto simp: add_ok remove_ok)
qed simp

text \<open>What a name stands for is decided by the last call about it.\<close>

lemma last_call_wins:
  assumes "ok s"
  shows "lookup (fold apply_op ops s) (canon n) =
    (case filter (concerns n) ops of [] \<Rightarrow> lookup s (canon n) | x # xs \<Rightarrow> verdict (last (x # xs)))"
proof (induction ops rule: rev_induct)
  case (snoc x ops)
  have "ok (fold apply_op ops s)" using assms by (rule apply_ok)
  then show ?case
    using snoc by (cases x) (auto simp: lookup_add lookup_remove split: list.splits)
qed simp

lemma untouched: "ok s \<Longrightarrow> list_all (\<lambda>x. \<not> concerns n x) ops \<Longrightarrow> lookup (fold apply_op ops s) (canon n) = lookup s (canon n)"
proof -
  assume ok: "ok s" and none: "list_all (\<lambda>x. \<not> concerns n x) ops"
  have "filter (concerns n) ops = []" using none by (simp add: filter_empty_conv list_all_iff)
  then show ?thesis using last_call_wins [OF ok, of ops n] by simp
qed

lemma only_added:
  assumes "ok s" and "\<And>x. x \<in> set ops \<Longrightarrow> concerns n x \<Longrightarrow> x = Add_name h i" and "Add_name h i \<in> set ops"
    and "canon h = canon n"
  shows "lookup (fold apply_op ops s) (canon n) = Some i"
proof -
  have "Add_name h i \<in> set (filter (concerns n) ops)" using assms(3,4) by simp
  then obtain x xs where f: "filter (concerns n) ops = x # xs" by (cases "filter (concerns n) ops") auto
  have "last (x # xs) \<in> set (filter (concerns n) ops)" unfolding f by (rule last_in_set) simp
  then have "last (x # xs) = Add_name h i" using assms(2) by auto
  then show ?thesis using last_call_wins [OF assms(1), of ops n] f by simp
qed

end

section \<open>The resolver\<close>

record Resolver =
  records :: "(string \<times> ip option) list"
  upstream :: "string list"

definition resolver_New :: Resolver where
  "resolver_New = \<lparr>records = [], upstream = []\<rparr>"

definition SetUpstream :: "string list \<Rightarrow> Resolver \<Rightarrow> Resolver" where
  "SetUpstream servers r = r\<lparr>upstream := servers\<rparr>"

definition Register :: "(string \<Rightarrow> string) \<Rightarrow> string \<Rightarrow> ip option \<Rightarrow> Resolver \<Rightarrow> Resolver" where
  "Register fqdn hostname i r = r\<lparr>records := map_put (fqdn hostname) i (records r)\<rparr>"

definition Unregister :: "(string \<Rightarrow> string) \<Rightarrow> string \<Rightarrow> Resolver \<Rightarrow> Resolver" where
  "Unregister fqdn hostname r = r\<lparr>records := map_del (fqdn hostname) (records r)\<rparr>"

text \<open>Queries and replies, the fields the code reads and sets.\<close>

record RR =
  rr_Name :: string
  rr_Type :: nat
  rr_Class :: nat
  rr_Ttl :: nat
  rr_A :: "ip option"

record Question =
  q_Name :: string
  q_Type :: nat

record Msg =
  m_Id :: nat
  m_Question :: "Question list"
  m_Answer :: "RR list"
  m_Authoritative :: bool
  m_RecursionAvailable :: bool
  m_Rcode :: nat

definition TypeA :: nat where
  "TypeA = 1"

definition ClassINET :: nat where
  "ClassINET = 1"

definition RcodeServerFailure :: nat where
  "RcodeServerFailure = 2"

type_synonym exchange = "Msg \<Rightarrow> string \<Rightarrow> go_error + Msg"

fun forward :: "exchange \<Rightarrow> Msg \<Rightarrow> string list \<Rightarrow> go_error option \<Rightarrow> go_error option + Msg" where
  "forward exch req [] lastErr = Inl lastErr"
| "forward exch req (server # servers) lastErr =
     (case exch req server of
        Inr reply \<Rightarrow> Inr reply
      | Inl err \<Rightarrow> forward exch req servers (Some err))"

definition handleDNS :: "(Msg \<Rightarrow> Msg) \<Rightarrow> exchange \<Rightarrow> Resolver \<Rightarrow> Msg \<Rightarrow> Msg" where
  "handleDNS set_reply exch r req =
     (case m_Question req of
        [] \<Rightarrow> set_reply req
      | q # _ \<Rightarrow>
          (case map_of (records r) (q_Name q) of
             Some i \<Rightarrow>
               let msg = (set_reply req)\<lparr>m_Authoritative := True\<rparr>
               in if q_Type q = TypeA
                  then msg\<lparr>m_Answer := m_Answer msg @
                    [\<lparr>rr_Name = q_Name q, rr_Type = TypeA, rr_Class = ClassINET, rr_Ttl = 1, rr_A = i\<rparr>]\<rparr>
                  else msg
           | None \<Rightarrow>
               if upstream r = [] then (set_reply req)\<lparr>m_Authoritative := True\<rparr>
               else case forward exch req (upstream r) None of
                   Inl _ \<Rightarrow> (set_reply req)\<lparr>m_Rcode := RcodeServerFailure\<rparr>
                 | Inr reply \<Rightarrow>
                     reply\<lparr>m_Id := m_Id req, m_Authoritative := False, m_RecursionAvailable := True\<rparr>))"

text \<open>\<open>Start\<close> waits until the server answers or gives its error.\<close>

definition resolver_Start :: "go_error option \<Rightarrow> go_error option" where
  "resolver_Start listen = map_option (Errorf_w ''DNS server failed to start'') listen"

section \<open>The adapter\<close>

definition adapter_Add :: "(string \<Rightarrow> string) \<Rightarrow> (string \<times> ip option) list \<Rightarrow> Resolver \<Rightarrow> Resolver" where
  "adapter_Add fqdn entries r = fold (\<lambda>(h, i). Register fqdn h i) entries r"

definition adapter_RemoveEntries :: "(string \<Rightarrow> string) \<Rightarrow> (string \<times> ip option) list \<Rightarrow> Resolver \<Rightarrow> Resolver" where
  "adapter_RemoveEntries fqdn entries r = fold (\<lambda>(h, i). Unregister fqdn h) entries r"

text \<open>\<open>Remove\<close> unregisters every name of the copy \<open>Records\<close> returns.\<close>

definition adapter_Remove :: "(string \<Rightarrow> string) \<Rightarrow> Resolver \<Rightarrow> Resolver" where
  "adapter_Remove fqdn r = fold (Unregister fqdn) (keys (records r)) r"

interpretation adapter: dns_port "Register fqdn" "Unregister fqdn" "\<lambda>r. map_of (records r)" fqdn "\<lambda>_. True"
  for fqdn
  by unfold_locales (auto simp: Register_def Unregister_def)

section \<open>Top-level domains and upstream servers\<close>

text \<open>The labels of a name; \<open>parts[len(parts)-1]\<close> is the last one.\<close>

fun extract_tlds :: "string list \<Rightarrow> string list \<Rightarrow> string list \<Rightarrow> string list" where
  "extract_tlds [] seen tlds = tlds"
| "extract_tlds (h # hs) seen tlds =
     (let parts = Split h (CHR ''.'')
      in if length parts \<ge> 2 \<and> last parts \<notin> set seen
         then extract_tlds hs (last parts # seen) (tlds @ [last parts])
         else extract_tlds hs seen tlds)"

definition ExtractTLDs :: "string list \<Rightarrow> string list" where
  "ExtractTLDs hostnames = extract_tlds hostnames [] []"

text \<open>\<open>net.JoinHostPort\<close>: a host with a colon or a percent sign is bracketed.\<close>

definition JoinHostPort :: "string \<Rightarrow> string \<Rightarrow> string" where
  "JoinHostPort host port =
     (if CHR '':'' \<in> set host \<or> CHR ''%'' \<in> set host then ''['' @ host @ '']:'' @ port else host @ '':'' @ port)"

text \<open>
  \<open>net.SplitHostPort\<close>, \<open>None\<close> for an error: the port follows the last colon, a host with a colon must be
  bracketed, and brackets occur nowhere else.
\<close>

definition bracket_free :: "string \<Rightarrow> bool" where
  "bracket_free s \<longleftrightarrow> CHR ''['' \<notin> set s \<and> CHR '']'' \<notin> set s"

definition SplitHostPort :: "string \<Rightarrow> (string \<times> string) option" where
  "SplitHostPort hostport =
     (case LastIndexByte_Suc hostport (CHR '':'') of
        0 \<Rightarrow> None
      | Suc i \<Rightarrow>
          if hd hostport = CHR ''['' then
            (case IndexByte hostport (CHR '']'') of
               None \<Rightarrow> None
             | Some end_pos \<Rightarrow>
                 if end_pos + 1 \<noteq> i then None
                 else if CHR ''['' \<in> set (drop 1 hostport) \<or> CHR '']'' \<in> set (drop (end_pos + 1) hostport) then None
                 else Some (take (end_pos - 1) (drop 1 hostport), drop (i + 1) hostport))
          else if CHR '':'' \<in> set (take i hostport) \<or> \<not> bracket_free hostport then None
          else Some (take i hostport, drop (i + 1) hostport))"

record ClientConfig =
  cc_Servers :: "string list"
  cc_Port :: string

definition DiscoverFromConfig :: "go_error + ClientConfig \<Rightarrow> string \<Rightarrow> go_error + string list" where
  "DiscoverFromConfig cfg selfAddr =
     (case cfg of
        Inl err \<Rightarrow> Inl err
      | Inr cfg \<Rightarrow>
          let selfIP = (case SplitHostPort selfAddr of None \<Rightarrow> [] | Some (host, _) \<Rightarrow> host)
          in Inr (map (\<lambda>s. JoinHostPort s (cc_Port cfg)) (filter (\<lambda>s. s \<noteq> selfIP) (cc_Servers cfg))))"

text \<open>\<open>paths\<close> with what \<open>os.Stat\<close> says of each and what reading it gives; all but the last are optional.\<close>

fun discoverFromFirst :: "(bool \<times> (go_error + ClientConfig)) list \<Rightarrow> string \<Rightarrow> go_error + string list" where
  "discoverFromFirst [] selfAddr = Inr []"
| "discoverFromFirst [(exists, cfg)] selfAddr = DiscoverFromConfig cfg selfAddr"
| "discoverFromFirst ((exists, cfg) # p # ps) selfAddr =
     (if exists then DiscoverFromConfig cfg selfAddr else discoverFromFirst (p # ps) selfAddr)"

section \<open>Properties\<close>

text \<open>The first upstream that answers decides.\<close>

lemma forward_find:
  "case_sum (\<lambda>_. None) Some (forward exch req servers lastErr) =
     map_option (\<lambda>s. projr (exch req s)) (find (\<lambda>s. \<not> isl (exch req s)) servers)"
  by (induction exch req servers lastErr rule: forward.induct) (auto split: sum.splits)

text \<open>\<open>SetReply\<close> on an empty message, as the library documents it.\<close>

definition reply_ok :: "(Msg \<Rightarrow> Msg) \<Rightarrow> bool" where
  "reply_ok set_reply \<longleftrightarrow> (\<forall>req. m_Id (set_reply req) = m_Id req \<and> m_Answer (set_reply req) = [] \<and>
     m_Rcode (set_reply req) = 0 \<and> m_Authoritative (set_reply req) = False \<and>
     m_Question (set_reply req) = take 1 (m_Question req))"

definition sample_reply :: "Msg \<Rightarrow> Msg" where
  "sample_reply req = \<lparr>m_Id = m_Id req, m_Question = take 1 (m_Question req), m_Answer = [], m_Authoritative = False,
     m_RecursionAvailable = False, m_Rcode = 0\<rparr>"

definition sample_fqdn :: "string \<Rightarrow> string" where
  "sample_fqdn s = (if s \<noteq> [] \<and> last s = CHR ''.'' then s else s @ ''.'')"

definition sample_query :: Msg where
  "sample_query = \<lparr>m_Id = 7, m_Question = [\<lparr>q_Name = ''db.dev.'', q_Type = 1\<rparr>], m_Answer = [], m_Authoritative = False,
     m_RecursionAvailable = False, m_Rcode = 0\<rparr>"

lemma sample_reply_ok [simp]: "reply_ok sample_reply"
  by (simp add: reply_ok_def sample_reply_def)

text \<open>
  Registration decides what the resolver answers: a query for a name whose last registering or
  unregistering call was \<open>Register hostname ip\<close> is answered authoritatively and without
  asking any upstream; a type A query carries exactly one record, the registered address with a
  time to live of one second, under the name as queried; any other type gets an empty answer.
\<close>

lemma registered_name_answered:
  assumes "reply_ok set_reply"
    and "ops = pre @ Add_name h i # post" and "list_all (\<lambda>x. \<not> adapter.concerns fqdn h x) post"
    and "m_Question req = q # qs" and "q_Name q = fqdn h"
  shows "let msg = handleDNS set_reply exch (fold (adapter.apply_op fqdn) ops (SetUpstream ups resolver_New)) req
    in m_Id msg = m_Id req \<and> m_Question msg = [q] \<and> m_Authoritative msg \<and> m_Rcode msg = 0 \<and>
       m_Answer msg = (if q_Type q = TypeA
         then [\<lparr>rr_Name = fqdn h, rr_Type = TypeA, rr_Class = ClassINET, rr_Ttl = 1, rr_A = i\<rparr>] else [])"
proof -
  have "map_of (records (fold (adapter.apply_op fqdn) post (adapter.apply_op fqdn (Add_name h i) r))) (fqdn h) = Some i" for r
    using adapter.untouched [OF TrueI assms(3)] by (simp add: Register_def)
  then have "map_of (records (fold (adapter.apply_op fqdn) ops (SetUpstream ups resolver_New))) (fqdn h) = Some i"
    using assms(2) by simp
  then show ?thesis
    using assms(1,4,5) by (simp add: handleDNS_def reply_ok_def Let_def)
qed

lemma registered_name_answered_witness:
  "let msg = handleDNS sample_reply (\<lambda>_ _. Inr sample_query)
      (fold (adapter.apply_op sample_fqdn)
        [Remove_name ''db.dev'', Add_name ''db.dev'' (Some (IPv4 127 0 0 5)), Remove_name ''web.dev'']
        (SetUpstream [''1.1.1.1:53''] resolver_New)) sample_query
    in m_Id msg = 7 \<and> m_Authoritative msg \<and>
       map (\<lambda>r. (rr_Name r, rr_A r)) (m_Answer msg) = [(''db.dev.'', Some (IPv4 127 0 0 5))]"
  using registered_name_answered [of sample_reply
      "[Remove_name ''db.dev'', Add_name ''db.dev'' (Some (IPv4 127 0 0 5)), Remove_name ''web.dev'']"
      "[Remove_name ''db.dev'']" "''db.dev''" "Some (IPv4 127 0 0 5)" "[Remove_name ''web.dev'']" sample_fqdn
      sample_query "\<lparr>q_Name = ''db.dev.'', q_Type = 1\<rparr>" "[]" "\<lambda>_ _. Inr sample_query" "[''1.1.1.1:53'']"]
  by (simp add: sample_fqdn_def sample_query_def TypeA_def Let_def)

text \<open>
  A query for a name nobody registered is never claimed: the reply of the first upstream that
  answers is relayed unchanged except for the request's identifier, the authoritative flag cleared
  and recursion announced; when all upstreams fail it is SERVFAIL; only with no upstream configured
  does the resolver answer, with no record.
\<close>

lemma unregistered_name_forwarded:
  assumes "map_of (records r) (q_Name q) = None" and "m_Question req = q # qs"
  shows "handleDNS set_reply exch r req =
    (if upstream r = [] then (set_reply req)\<lparr>m_Authoritative := True\<rparr>
     else case find (\<lambda>s. \<not> isl (exch req s)) (upstream r) of
         None \<Rightarrow> (set_reply req)\<lparr>m_Rcode := RcodeServerFailure\<rparr>
       | Some s \<Rightarrow> (projr (exch req s))\<lparr>m_Id := m_Id req, m_Authoritative := False, m_RecursionAvailable := True\<rparr>)"
  using assms forward_find [of exch req "upstream r" None]
  by (auto simp: handleDNS_def split: sum.splits option.splits)

lemma unregistered_name_forwarded_witness:
  "handleDNS sample_reply (\<lambda>_ s. if s = ''b:53'' then Inr (sample_query\<lparr>m_Id := 9, m_Authoritative := True\<rparr>) else Inl (Opaque []))
     (SetUpstream [''a:53'', ''b:53''] resolver_New) sample_query = sample_query\<lparr>m_RecursionAvailable := True\<rparr>"
  using unregistered_name_forwarded [of "SetUpstream [''a:53'', ''b:53''] resolver_New" "\<lparr>q_Name = ''db.dev.'', q_Type = 1\<rparr>"
      sample_query "[]" sample_reply "\<lambda>_ s. if s = ''b:53'' then Inr (sample_query\<lparr>m_Id := 9, m_Authoritative := True\<rparr>) else Inl (Opaque [])"]
  by (simp add: SetUpstream_def resolver_New_def sample_query_def)

lemma extract_tlds_spec:
  assumes "set seen = set tlds" and "distinct tlds"
  shows "distinct (extract_tlds hs seen tlds) \<and>
    set (extract_tlds hs seen tlds) = set tlds \<union> {last (Split h (CHR ''.'')) | h. h \<in> set hs \<and> 2 \<le> length (Split h (CHR ''.''))}"
  using assms
proof (induction hs seen tlds rule: extract_tlds.induct)
  case (2 h hs seen tlds)
  let ?p = "Split h (CHR ''.'')"
  show ?case
  proof (cases "length ?p \<ge> 2 \<and> last ?p \<notin> set seen")
    case True
    then have "extract_tlds (h # hs) seen tlds = extract_tlds hs (last ?p # seen) (tlds @ [last ?p])"
      by (simp add: Let_def)
    moreover have "distinct (tlds @ [last ?p])" "set (last ?p # seen) = set (tlds @ [last ?p])"
      using True 2(3,4) by auto
    ultimately show ?thesis using 2(1) [OF refl True] True by auto
  next
    case False
    then show ?thesis using 2 by auto
  qed
qed auto

lemma length_Split: "2 \<le> length (Split h c) \<longleftrightarrow> c \<in> set h"
proof (induction h)
  case (Cons d h)
  have "Split h c \<noteq> []" by simp
  then show ?case using Cons by (cases "Split h c") auto
qed simp

lemma last_Split: "c \<notin> set t \<Longrightarrow> last (Split (pre @ c # t) c) = t"
  by (simp add: Split_append_sep Split_absent)

text \<open>
  \<open>ExtractTLDs\<close>: each top-level domain once, the text after the last dot of exactly the names
  that have one.
\<close>

lemma ExtractTLDs_exact:
  "distinct (ExtractTLDs hs) \<and>
   set (ExtractTLDs hs) = {t. CHR ''.'' \<notin> set t \<and> (\<exists>pre. pre @ ''.'' @ t \<in> set hs)}"
proof -
  have "{last (Split h (CHR ''.'')) | h. h \<in> set hs \<and> 2 \<le> length (Split h (CHR ''.''))} =
    {t. CHR ''.'' \<notin> set t \<and> (\<exists>pre. pre @ ''.'' @ t \<in> set hs)}" (is "?A = ?B")
  proof (rule set_eqI)
    fix t
    show "t \<in> ?A \<longleftrightarrow> t \<in> ?B"
    proof
      assume "t \<in> ?A"
      then obtain h where h: "h \<in> set hs" "CHR ''.'' \<in> set h" "t = last (Split h (CHR ''.''))"
        by (auto simp: length_Split)
      then obtain pre t' where "h = pre @ CHR ''.'' # t'" "CHR ''.'' \<notin> set t'" by (metis split_list_last)
      with h show "t \<in> ?B" using last_Split by auto
    next
      assume "t \<in> ?B"
      then obtain pre where *: "CHR ''.'' \<notin> set t" "pre @ ''.'' @ t \<in> set hs" by blast
      moreover have "t = last (Split (pre @ ''.'' @ t) (CHR ''.''))" using last_Split [OF *(1), of pre] by simp
      moreover have "2 \<le> length (Split (pre @ ''.'' @ t) (CHR ''.''))" by (simp add: length_Split)
      ultimately show "t \<in> ?A" by blast
    qed
  qed
  then show ?thesis unfolding ExtractTLDs_def using extract_tlds_spec [of "[]" "[]" hs] by simp
qed

text \<open>What \<open>JoinHostPort\<close> writes, \<open>SplitHostPort\<close> reads back, for IPv4 and IPv6 hosts alike.\<close>

definition plain_port :: "string \<Rightarrow> bool" where
  "plain_port p \<longleftrightarrow> bracket_free p \<and> CHR '':'' \<notin> set p"

lemma SplitHostPort_JoinHostPort:
  assumes "bracket_free host" and "plain_port port"
  shows "SplitHostPort (JoinHostPort host port) = Some (host, port)"
proof (cases "CHR '':'' \<in> set host \<or> CHR ''%'' \<in> set host")
  case True
  have "LastIndexByte_Suc ((CHR ''['' # host @ [CHR '']'']) @ CHR '':'' # port) (CHR '':'') = Suc (length host + 2)"
    using LastIndexByte_Suc_append [of "CHR '':''" port "CHR ''['' # host @ [CHR '']'']"] assms(2) by (simp add: plain_port_def)
  moreover have "IndexByte ((CHR ''['' # host) @ CHR '']'' # CHR '':'' # port) (CHR '']'') = Some (length host + 1)"
    using IndexByte_append [of "CHR '']''" "CHR ''['' # host"] assms(1) by (simp add: bracket_free_def)
  ultimately show ?thesis using True assms by (auto simp: SplitHostPort_def JoinHostPort_def bracket_free_def plain_port_def)
next
  case False
  have "LastIndexByte_Suc (host @ CHR '':'' # port) (CHR '':'') = Suc (length host)"
    using LastIndexByte_Suc_append assms(2) by (simp add: plain_port_def)
  moreover have "hd (host @ CHR '':'' # port) \<noteq> CHR ''[''"
    using assms(1) by (cases host) (auto simp: bracket_free_def)
  ultimately show ?thesis using False assms by (auto simp: SplitHostPort_def JoinHostPort_def bracket_free_def plain_port_def)
qed

text \<open>
  What discovery returns never names the listener: whichever candidate decides, every server it
  returns splits into a host that is not the one the resolver listens on.
\<close>

definition plain_config :: "go_error + ClientConfig \<Rightarrow> bool" where
  "plain_config cfg =
     (case cfg of Inl _ \<Rightarrow> True | Inr c \<Rightarrow> list_all bracket_free (cc_Servers c) \<and> plain_port (cc_Port c))"

lemma DiscoverFromConfig_not_self:
  assumes "DiscoverFromConfig cfg (JoinHostPort self port) = Inr servers" and "s \<in> set servers"
    and "bracket_free self" "plain_port port" and "plain_config cfg"
  shows "\<exists>host p. SplitHostPort s = Some (host, p) \<and> host \<noteq> self"
  using assms by (auto simp: DiscoverFromConfig_def plain_config_def SplitHostPort_JoinHostPort list_all_iff split: sum.splits)

lemma discovered_not_self:
  assumes "discoverFromFirst paths (JoinHostPort self port) = Inr servers" and "s \<in> set servers"
    and self: "bracket_free self" "plain_port port" and "list_all (plain_config \<circ> snd) paths"
  shows "\<exists>host p. SplitHostPort s = Some (host, p) \<and> host \<noteq> self"
  using assms(1,2,5)
  by (induction paths "JoinHostPort self port" rule: discoverFromFirst.induct)
    (auto split: if_splits dest: DiscoverFromConfig_not_self [OF _ _ self])

text \<open>Clearing through the adapter leaves no name, and removing what was added restores the lookup.\<close>

lemma adapter_Remove_all:
  assumes idem: "\<And>n. n \<in> set (keys (records r)) \<Longrightarrow> fqdn n = n"
  shows "records (adapter_Remove fqdn r) = []"
proof -
  have "records (fold (Unregister fqdn) ks r) = filter (\<lambda>e. fst e \<notin> fqdn ` set ks) (records r)" for ks
  proof (induction ks arbitrary: r)
    case (Cons k ks)
    then show ?case by (auto simp: Unregister_def map_del_def intro!: filter_cong)
  qed simp
  moreover have "fqdn ` set (keys (records r)) = set (keys (records r))" using idem by (force simp: image_iff)
  ultimately show ?thesis by (auto simp: adapter_Remove_def filter_empty_conv keys_def)
qed

end
