(* ===== verification/Hosts_File.thy ===== *)
theory Hosts_File
  imports Resolver
begin

text \<open>
  \<open>internal/dns/manager.go\<close>: the managed block of a hosts file. Lines are read with a
  \<open>bufio.Scanner\<close>, whose limit of 64 KiB per line is part of the model: at a longer line it stops.
  An address is its text, as \<open>IP.String\<close> prints it; \<open>net.ParseIP\<close> is the argument \<open>parse_ip\<close>, giving
  that text for an address it accepts.
\<close>

section \<open>Lines and fields\<close>

definition newline :: char where
  "newline = CHR 0x0A"

definition strip_cr :: "string \<Rightarrow> string" where
  "strip_cr line = (if line \<noteq> [] \<and> last line = CHR 0x0D then butlast line else line)"

definition MaxLine :: nat where
  "MaxLine = 65535"

text \<open>The tokens of \<open>bufio.ScanLines\<close> until the input ends or a line does not fit the buffer.\<close>

function scan_lines :: "bytes \<Rightarrow> string list" where
  "scan_lines content =
     (if content = [] then []
      else case Cut content newline of (line, rest, found) \<Rightarrow>
        if length line > MaxLine then []
        else strip_cr line # (if found then scan_lines rest else []))"
  by pat_completeness auto

termination
  by (relation "measure length") (auto dest: Cut_found [OF sym])

declare scan_lines.simps [simp del]

definition starts_space :: "string \<Rightarrow> bool" where
  "starts_space s = list_ex (\<lambda>r. HasPrefix s r) space_runes"

fun first_word :: "string \<Rightarrow> string" where
  "first_word [] = []"
| "first_word (c # s) = (if starts_space (c # s) then [] else c # first_word s)"

lemma length_first_word: "length (first_word s) \<le> length s"
  by (induction s) auto

text \<open>\<open>strings.Fields\<close>.\<close>

function Fields :: "string \<Rightarrow> string list" where
  "Fields s =
     (let s = trim_front space_runes s
      in if s = [] then []
         else let w = first_word s in w # Fields (drop (length w + (if w = [] then 1 else 0)) s))"
  by pat_completeness auto

termination
proof (relation "measure length", goal_cases)
  case (2 s x xa)
  have "length x \<le> length s" using trim_front_suffix [of space_runes s] 2(1) by (simp add: suffix_length_le)
  moreover have "0 < length x" using 2(2) by simp
  moreover have "0 < length xa + (if xa = [] then 1 else 0)" by simp
  ultimately have "length x - (length xa + (if xa = [] then 1 else 0)) < length s" by linarith
  then show ?case by simp
qed simp

declare Fields.simps [simp del]

section \<open>The managed block\<close>

definition beginMarker :: string where
  "beginMarker = ''# BEGIN holepunch''"

definition endMarker :: string where
  "endMarker = ''# END holepunch''"

record Entry =
  en_IP :: string
  en_Hostname :: string

definition Entry_String :: "Entry \<Rightarrow> string" where
  "Entry_String e = en_IP e @ '' '' @ en_Hostname e"

text \<open>One line inside the block.\<close>

definition parse_line :: "(string \<Rightarrow> string option) \<Rightarrow> string \<Rightarrow> Entry list" where
  "parse_line parse_ip line =
     (if line = [] \<or> HasPrefix line ''#'' then []
      else case Fields line of
          a # h # _ \<Rightarrow> (case parse_ip a of Some i \<Rightarrow> [\<lparr>en_IP = i, en_Hostname = h\<rparr>] | None \<Rightarrow> [])
        | _ \<Rightarrow> [])"

fun parse_lines :: "(string \<Rightarrow> string option) \<Rightarrow> bool \<Rightarrow> string list \<Rightarrow> Entry list" where
  "parse_lines parse_ip inBlock [] = []"
| "parse_lines parse_ip inBlock (raw # rest) =
     (let line = TrimSpace raw
      in if line = beginMarker then parse_lines parse_ip True rest
         else if line = endMarker then []
         else (if inBlock then parse_line parse_ip line else []) @ parse_lines parse_ip inBlock rest)"

definition parseManagedBlock :: "(string \<Rightarrow> string option) \<Rightarrow> bytes \<Rightarrow> Entry list" where
  "parseManagedBlock parse_ip content = parse_lines parse_ip False (scan_lines content)"

fun merge_into :: "Entry list \<Rightarrow> Entry list \<Rightarrow> string list \<Rightarrow> Entry list \<times> string list" where
  "merge_into [] result seen = (result, seen)"
| "merge_into (e # es) result seen =
     (if en_Hostname e \<in> set seen then merge_into es result seen
      else merge_into es (result @ [e]) (en_Hostname e # seen))"

definition mergeEntries :: "Entry list \<Rightarrow> Entry list \<Rightarrow> Entry list" where
  "mergeEntries existing additions =
     (case merge_into existing [] [] of (result, seen) \<Rightarrow> fst (merge_into additions result seen))"

definition subtractEntries :: "Entry list \<Rightarrow> Entry list \<Rightarrow> Entry list" where
  "subtractEntries existing removals =
     filter (\<lambda>e. en_Hostname e \<notin> en_Hostname ` set removals) existing"

text \<open>The lines before and after the block; a marker's state is carried along as in the loop.\<close>

fun split_block :: "bool \<Rightarrow> bool \<Rightarrow> string list \<Rightarrow> string list \<times> string list" where
  "split_block inBlock foundBlock [] = ([], [])"
| "split_block inBlock foundBlock (line # rest) =
     (if TrimSpace line = beginMarker then split_block True True rest
      else if TrimSpace line = endMarker then split_block False foundBlock rest
      else if inBlock then split_block inBlock foundBlock rest
      else case split_block inBlock foundBlock rest of (before, after) \<Rightarrow>
        if foundBlock then (before, line # after) else (line # before, after))"

definition unlines :: "string list \<Rightarrow> bytes" where
  "unlines ls = concat (map (\<lambda>l. l @ [newline]) ls)"

text \<open>\<open>bytes.TrimRight(s, "\n")\<close>.\<close>

definition trim_newlines :: "bytes \<Rightarrow> bytes" where
  "trim_newlines s = rev (dropWhile (\<lambda>c. c = newline) (rev s))"

definition replaceManagedBlock :: "bytes \<Rightarrow> Entry list \<Rightarrow> bytes" where
  "replaceManagedBlock content entries =
     (case split_block False False (scan_lines content) of (before, after) \<Rightarrow>
       if entries = [] then trim_newlines (unlines before @ unlines after)
       else unlines before
            @ beginMarker @ [newline] @ concat (map (\<lambda>e. Entry_String e @ [newline]) entries) @ endMarker @ [newline]
            @ unlines after)"

section \<open>The manager\<close>

text \<open>
  Each call reads the file, computes and writes; \<open>readable\<close> and \<open>write_error\<close> are what the system
  answers. The state is the content of the file.
\<close>

definition write_hosts :: "go_error option \<Rightarrow> bytes \<Rightarrow> bytes \<Rightarrow> go_error option \<times> bytes" where
  "write_hosts write_error new old = (case write_error of None \<Rightarrow> (None, new) | Some err \<Rightarrow> (Some err, old))"

definition manager_Add ::
  "(string \<Rightarrow> string option) \<Rightarrow> go_error option \<Rightarrow> go_error option \<Rightarrow> Entry list \<Rightarrow> bytes \<Rightarrow> go_error option \<times> bytes" where
  "manager_Add parse_ip read_error write_error entries content =
     (case read_error of
        Some err \<Rightarrow> (Some (Errorf_w ''reading hosts file'' err), content)
      | None \<Rightarrow>
          write_hosts write_error
            (replaceManagedBlock content (mergeEntries (parseManagedBlock parse_ip content) entries)) content)"

definition manager_Remove :: "go_error option \<Rightarrow> go_error option \<Rightarrow> bytes \<Rightarrow> go_error option \<times> bytes" where
  "manager_Remove read_error write_error content =
     (case read_error of
        Some err \<Rightarrow> (Some (Errorf_w ''reading hosts file'' err), content)
      | None \<Rightarrow>
          let new = replaceManagedBlock content []
          in if content = new then (None, content) else write_hosts write_error new content)"

definition manager_RemoveEntries ::
  "(string \<Rightarrow> string option) \<Rightarrow> go_error option \<Rightarrow> go_error option \<Rightarrow> Entry list \<Rightarrow> bytes \<Rightarrow> go_error option \<times> bytes" where
  "manager_RemoveEntries parse_ip read_error write_error entries content =
     (case read_error of
        Some err \<Rightarrow> (Some (Errorf_w ''reading hosts file'' err), content)
      | None \<Rightarrow>
          write_hosts write_error
            (replaceManagedBlock content (subtractEntries (parseManagedBlock parse_ip content) entries)) content)"

end
