(* ===== verification/Hosts_Theorems.thy ===== *)
theory Hosts_Theorems
  imports Hosts_File
begin

text \<open>
  What the hosts-file manager keeps: the managed block reads back as what was written, the lines
  of others survive, and the names present after a call are the ones asked for. The locale
  \<open>name_presence\<close> is the part of the DNS contract that this manager and the resolver share.
\<close>

section \<open>Reading back a line\<close>

definition visible :: "string \<Rightarrow> bool" where
  "visible w \<longleftrightarrow> w \<noteq> [] \<and> list_all (\<lambda>c. 32 < byte c \<and> byte c < 127) w"

lemma space_runes_heads: "list_all (\<lambda>r. byte (hd r) \<le> 32 \<or> 127 \<le> byte (hd r)) space_runes"
  by code_simp

lemma space_runes_heads': "r \<in> set space_runes \<Longrightarrow> \<exists>d r'. r = d # r' \<and> (byte d \<le> 32 \<or> 127 \<le> byte d)"
  using space_runes_heads space_runes_nonempty [of r] by (cases r) (auto simp: list_all_iff)

lemma not_starts_space: "32 < byte c \<Longrightarrow> byte c < 127 \<Longrightarrow> \<not> starts_space (c # s)"
  by (auto simp: starts_space_def list_ex_iff dest!: space_runes_heads')

lemma trim_front_visible: "visible w \<Longrightarrow> trim_front space_runes (w @ s) = w @ s"
proof -
  assume "visible w"
  then obtain c w' where w: "w = c # w'" "32 < byte c" "byte c < 127" by (cases w) (auto simp: visible_def)
  then have "find (\<lambda>r. r \<noteq> [] \<and> HasPrefix (w @ s) r) space_runes = None"
    using not_starts_space [of c "w' @ s"] by (auto simp: find_None_iff starts_space_def list_ex_iff)
  then show ?thesis by (subst trim_front.simps) simp
qed

lemma first_word_visible: "list_all (\<lambda>c. 32 < byte c \<and> byte c < 127) w \<Longrightarrow> s = [] \<or> starts_space s \<Longrightarrow> first_word (w @ s) = w"
proof (induction w)
  case Nil
  then show ?case by (cases s) auto
next
  case (Cons c w)
  then show ?case using not_starts_space [of c "w @ s"] by simp
qed

lemma starts_space_blank: "starts_space (CHR '' '' # s)"
  by (simp add: starts_space_def space_runes_def)

lemma trim_blank: "trim_front space_runes (CHR '' '' # s) = trim_front space_runes s"
proof -
  have "find (\<lambda>r. r \<noteq> [] \<and> HasPrefix (CHR '' '' # s) r) space_runes = Some [CHR '' '']"
    by (simp add: space_runes_def)
  then show ?thesis by (subst trim_front.simps) simp
qed

lemma Fields_two:
  assumes "visible a" and "visible h"
  shows "Fields (a @ CHR '' '' # h) = [a, h]"
proof -
  have ne: "a \<noteq> []" "h \<noteq> []" using assms by (auto simp: visible_def)
  have "first_word (a @ CHR '' '' # h) = a" "first_word h = h"
    using assms first_word_visible [of a "CHR '' '' # h"] first_word_visible [of h "[]"]
    by (auto simp: visible_def starts_space_blank)
  moreover have "trim_front space_runes h = h" using trim_front_visible [OF assms(2), of "[]"] by simp
  moreover have "Fields [] = []" by (subst Fields.simps, subst trim_front.simps) (simp add: space_runes_def)
  ultimately have "Fields h = [h]" using ne by (subst Fields.simps) (simp add: Let_def)
  moreover have "Fields (CHR '' '' # h) = Fields h"
    by (subst Fields.simps, subst (2) Fields.simps) (simp add: trim_blank)
  ultimately show ?thesis
    using ne trim_front_visible [OF assms(1), of "CHR '' '' # h"] \<open>first_word (a @ CHR '' '' # h) = a\<close>
    by (subst Fields.simps) (simp add: Let_def)
qed

lemma TrimSpace_two:
  assumes "visible a" and "visible h"
  shows "TrimSpace (a @ CHR '' '' # h) = a @ CHR '' '' # h"
  by (rule TrimSpace_printing) (use assms in \<open>auto simp: visible_def printing_def list_all_iff\<close>)

definition clean :: "(string \<Rightarrow> string option) \<Rightarrow> Entry \<Rightarrow> bool" where
  "clean parse_ip e \<longleftrightarrow> visible (en_IP e) \<and> visible (en_Hostname e) \<and> hd (en_IP e) \<noteq> CHR ''#'' \<and>
     parse_ip (en_IP e) = Some (en_IP e) \<and> length (Entry_String e) \<le> MaxLine"

lemma entry_line:
  assumes "clean parse_ip e"
  shows "TrimSpace (Entry_String e) = Entry_String e" and "parse_line parse_ip (Entry_String e) = [e]"
    and "Entry_String e \<noteq> beginMarker" and "Entry_String e \<noteq> endMarker"
    and "newline \<notin> set (Entry_String e)" and "strip_cr (Entry_String e) = Entry_String e"
proof -
  have v: "visible (en_IP e)" "visible (en_Hostname e)" and hd: "hd (en_IP e) \<noteq> CHR ''#''"
    using assms by (simp_all add: clean_def)
  then obtain c a where a: "en_IP e = c # a" "c \<noteq> CHR ''#''" by (cases "en_IP e") (auto simp: visible_def)
  show "TrimSpace (Entry_String e) = Entry_String e" using TrimSpace_two [OF v] by (simp add: Entry_String_def)
  show "parse_line parse_ip (Entry_String e) = [e]"
    using Fields_two [OF v] a assms by (simp add: parse_line_def Entry_String_def clean_def)
  show "Entry_String e \<noteq> beginMarker" "Entry_String e \<noteq> endMarker"
    using a by (auto simp: Entry_String_def beginMarker_def endMarker_def)
  have bytes: "c \<in> set (Entry_String e) \<Longrightarrow> 32 \<le> byte c" for c
    using v by (auto simp: Entry_String_def visible_def list_all_iff byte_def less_imp_le)
  then show "newline \<notin> set (Entry_String e)" by (fastforce simp: newline_def byte_def)
  have "32 \<le> byte (last (Entry_String e))" using bytes [OF last_in_set] by (simp add: Entry_String_def)
  then show "strip_cr (Entry_String e) = Entry_String e" by (auto simp: strip_cr_def byte_def)
qed

section \<open>Scanning\<close>

lemma scan_line:
  assumes "newline \<notin> set l" and "length l \<le> MaxLine"
  shows "scan_lines (l @ newline # rest) = strip_cr l # scan_lines rest"
  using assms by (subst scan_lines.simps) (simp add: Cut_append)

lemma scan_long_line: "newline \<notin> set l \<Longrightarrow> MaxLine < length l \<Longrightarrow> scan_lines (l @ newline # rest) = []"
  by (subst scan_lines.simps) (simp add: Cut_append)

definition plain_line :: "string \<Rightarrow> bool" where
  "plain_line l \<longleftrightarrow> newline \<notin> set l \<and> length l \<le> MaxLine \<and> strip_cr l = l"

lemma scan_unlines: "list_all plain_line ls \<Longrightarrow> scan_lines (unlines ls @ rest) = ls @ scan_lines rest"
  by (induction ls) (auto simp: unlines_def plain_line_def scan_line)

lemma scan_Nil [simp]: "scan_lines [] = []"
  by (subst scan_lines.simps) simp

lemma scan_lines_plain:
  "CHR 0x0D \<notin> set content \<Longrightarrow> list_all plain_line (scan_lines content)"
proof (induction content rule: scan_lines.induct)
  case (1 content)
  show ?case
  proof (cases "content = []")
    case False
    obtain line rest found where c: "Cut content newline = (line, rest, found)" by (metis prod_cases3)
    have sub: "set line \<subseteq> set content" "set rest \<subseteq> set content" "newline \<notin> set line"
      using Cut_found [of content newline line rest] Cut_not_found [of content newline line rest] c
      by (cases found; force)+
    have "line \<noteq> [] \<Longrightarrow> last line \<noteq> CHR 0x0D" using sub(1) "1.prems" last_in_set [of line] by (metis subsetD)
    then have "strip_cr line = line" by (auto simp: strip_cr_def)
    then have "length line \<le> MaxLine \<Longrightarrow> plain_line (strip_cr line)" using sub(3) by (simp add: plain_line_def)
    then show ?thesis
      using 1 False c sub by (subst scan_lines.simps) auto
  qed simp
qed

lemma plain_markers: "plain_line beginMarker" "plain_line endMarker"
  by (simp_all add: plain_line_def beginMarker_def endMarker_def newline_def MaxLine_def strip_cr_def)

lemma trim_markers: "TrimSpace beginMarker = beginMarker" "TrimSpace endMarker = endMarker"
  by code_simp+

lemma markers_differ [simp]: "endMarker \<noteq> beginMarker"
  by (simp add: beginMarker_def endMarker_def)

lemma plain_entry: "clean parse_ip e \<Longrightarrow> plain_line (Entry_String e)"
  using entry_line(5,6) [of parse_ip e] by (simp add: plain_line_def clean_def)

section \<open>The block\<close>

definition no_marker :: "string \<Rightarrow> bool" where
  "no_marker l \<longleftrightarrow> TrimSpace l \<noteq> beginMarker \<and> TrimSpace l \<noteq> endMarker"

lemma split_block_lines:
  "split_block inB found ls = (before, after) \<Longrightarrow>
     list_all no_marker before \<and> list_all no_marker after \<and> set before \<union> set after \<subseteq> set ls"
proof (induction inB found ls arbitrary: before after rule: split_block.induct)
  case (2 inB found line rest)
  show ?case
  proof (cases "TrimSpace line = beginMarker \<or> TrimSpace line = endMarker \<or> inB")
    case True
    then show ?thesis using 2 by (auto split: if_splits)
  next
    case False
    obtain b a where r: "split_block inB found rest = (b, a)" by fastforce
    then show ?thesis using 2 False by (auto simp: no_marker_def split: if_splits)
  qed
qed simp

lemma split_unmarked:
  "list_all no_marker ls \<Longrightarrow> split_block False found (ls @ rest) =
     (case split_block False found rest of (b, a) \<Rightarrow> if found then (b, ls @ a) else (ls @ b, a))"
  by (induction ls) (auto simp: no_marker_def split: prod.splits)

lemma split_in_block: "list_all no_marker ls \<Longrightarrow> split_block True found (ls @ rest) = split_block True found rest"
  by (induction ls) (auto simp: no_marker_def)

lemma parse_unmarked: "list_all no_marker ls \<Longrightarrow> parse_lines parse_ip False (ls @ rest) = parse_lines parse_ip False rest"
  by (induction ls) (auto simp: no_marker_def Let_def)

lemma entry_no_marker: "clean parse_ip e \<Longrightarrow> no_marker (Entry_String e)"
  using entry_line [of parse_ip e] by (simp add: no_marker_def)

lemma parse_entries:
  "list_all (clean parse_ip) es \<Longrightarrow> parse_lines parse_ip True (map Entry_String es @ endMarker # rest) = es"
  by (induction es) (auto simp: entry_line trim_markers Let_def markers_differ)

text \<open>
  The lines of a text without any limit on their length, and which of them are outside the managed block:
  a notion of the file that owes nothing to the scanner.
\<close>

definition file_lines :: "bytes \<Rightarrow> string list" where
  "file_lines content = (let ls = Split content newline in if last ls = [] then butlast ls else ls)"

fun outside :: "bool \<Rightarrow> string list \<Rightarrow> string list" where
  "outside inside [] = []"
| "outside inside (l # ls) =
     (if TrimSpace l = beginMarker then outside True ls
      else if TrimSpace l = endMarker then outside False ls
      else if inside then outside inside ls
      else l # outside inside ls)"

lemma file_lines_line [simp]: "newline \<notin> set l \<Longrightarrow> file_lines (l @ newline # rest) = l # file_lines rest"
  by (simp add: file_lines_def Let_def Split_append_sep Split_absent)

lemma file_lines_last: "newline \<notin> set l \<Longrightarrow> file_lines l = (if l = [] then [] else [l])"
  by (simp add: file_lines_def Split_absent)

lemma file_lines_unlines: "list_all plain_line ls \<Longrightarrow> file_lines (unlines ls) = ls"
  by (induction ls) (auto simp: unlines_def plain_line_def file_lines_last)

lemma scan_file_lines:
  "CHR 0x0D \<notin> set content \<Longrightarrow> list_all (\<lambda>l. length l \<le> MaxLine) (file_lines content) \<Longrightarrow> scan_lines content = file_lines content"
proof (induction content rule: scan_lines.induct)
  case (1 content)
  show ?case
  proof (cases "content = []")
    case False
    obtain line rest found where c: "Cut content newline = (line, rest, found)" by (metis prod_cases3)
    have line: "newline \<notin> set line" "set line \<subseteq> set content" "set rest \<subseteq> set content"
      using Cut_found [of content newline line rest] Cut_not_found [of content newline line rest] c
      by (cases found; force)+
    have "line \<noteq> [] \<Longrightarrow> last line \<noteq> CHR 0x0D" using line(2) "1.prems"(1) last_in_set [of line] by (metis subsetD)
    then have cr: "strip_cr line = line" by (auto simp: strip_cr_def)
    show ?thesis
    proof (cases found)
      case True
      have lines: "file_lines content = line # file_lines rest" using Cut_found [of content newline line rest] c True line(1) by simp
      then have "length line \<le> MaxLine" "scan_lines rest = file_lines rest"
        using 1 False c True line(3) by auto
      then show ?thesis using c True False cr lines by (subst scan_lines.simps) simp
    next
      case False
      then have "content = line" using Cut_not_found [of content newline line rest] c by simp
      with False line(1) c cr 1(3) \<open>content \<noteq> []\<close> show ?thesis
        by (subst scan_lines.simps) (simp add: file_lines_last)
    qed
  qed (simp add: file_lines_last)
qed

text \<open>Around the place of the block, where the first line that begins one stands.\<close>

definition foreign_lines :: "bytes \<Rightarrow> string list \<times> string list" where
  "foreign_lines content =
     (let other = (\<lambda>l. TrimSpace l \<noteq> beginMarker); ls = file_lines content
      in (outside False (takeWhile other ls), outside False (dropWhile other ls)))"

lemma split_found: "split_block inside True ls = ([], outside inside ls)"
  by (induction ls arbitrary: inside) auto

lemma split_outside:
  "split_block False False ls = (outside False (takeWhile (\<lambda>l. TrimSpace l \<noteq> beginMarker) ls),
     outside False (dropWhile (\<lambda>l. TrimSpace l \<noteq> beginMarker) ls))"
  by (induction ls) (auto simp: split_found)

lemma foreign_split: "foreign_lines content = split_block False False (file_lines content)"
  by (simp add: foreign_lines_def split_outside Let_def)

text \<open>A hosts file the scanner reads to its end and unchanged.\<close>

definition scannable :: "bytes \<Rightarrow> bool" where
  "scannable content \<longleftrightarrow> CHR 0x0D \<notin> set content \<and> list_all (\<lambda>l. length l \<le> MaxLine) (file_lines content)"

lemma block_lines:
  assumes "scannable content" and "list_all (clean parse_ip) es" and "foreign_lines content = (before, after)"
  shows "list_all plain_line (before @ beginMarker # map Entry_String es @ endMarker # after)"
    and "replaceManagedBlock content es =
      (if es = [] then trim_newlines (unlines (before @ after))
       else unlines (before @ beginMarker # map Entry_String es @ endMarker # after))"
proof -
  have scan: "scan_lines content = file_lines content" "CHR 0x0D \<notin> set content"
    using assms(1) scan_file_lines by (simp_all add: scannable_def)
  have sub: "set before \<union> set after \<subseteq> set (scan_lines content)"
    using split_block_lines assms(3) scan(1) by (simp add: foreign_split)
  then show "list_all plain_line (before @ beginMarker # map Entry_String es @ endMarker # after)"
    using scan_lines_plain [OF scan(2)] assms(2) plain_markers plain_entry by (auto simp: list_all_iff)
  show "replaceManagedBlock content es =
      (if es = [] then trim_newlines (unlines (before @ after))
       else unlines (before @ beginMarker # map Entry_String es @ endMarker # after))"
    using assms(3) by (simp add: replaceManagedBlock_def foreign_split scan(1) unlines_def comp_def)
qed

lemma trim_newlines_unlines:
  "list_all plain_line ls \<Longrightarrow> scan_lines (trim_newlines (unlines ls)) = rev (dropWhile (\<lambda>l. l = []) (rev ls))"
proof (induction ls rule: rev_induct)
  case (snoc l ls)
  have u: "unlines (ls @ [l]) = unlines ls @ l @ [newline]" by (simp add: unlines_def)
  show ?case
  proof (cases l rule: rev_cases)
    case Nil
    with snoc u show ?thesis by (simp add: trim_newlines_def)
  next
    case (snoc l' c)
    then have c: "c \<noteq> newline" using snoc.prems by (auto simp: plain_line_def)
    then have "trim_newlines (unlines (ls @ [l])) = unlines ls @ l" using u snoc by (simp add: trim_newlines_def)
    moreover have "scan_lines l = [l]"
      using snoc.prems snoc by (subst scan_lines.simps) (auto simp: plain_line_def Cut_absent)
    ultimately show ?thesis using scan_unlines [of ls l] snoc.prems snoc by simp
  qed
qed (simp add: unlines_def trim_newlines_def)

lemma block_round_trip:
  assumes "scannable content" and "list_all (clean parse_ip) es"
  shows "parseManagedBlock parse_ip (replaceManagedBlock content es) = es"
    and "es \<noteq> [] \<Longrightarrow> foreign_lines (replaceManagedBlock content es) = foreign_lines content"
proof -
  obtain before after where f: "foreign_lines content = (before, after)" by fastforce
  note lines = block_lines [OF assms f]
  have nm: "list_all no_marker before" "list_all no_marker after" "list_all no_marker (map Entry_String es)"
    using split_block_lines [OF f [unfolded foreign_split]] assms(2) entry_no_marker by (auto simp: list_all_iff)
  have ne: "endMarker \<noteq> beginMarker" by (simp add: beginMarker_def endMarker_def)
  show "parseManagedBlock parse_ip (replaceManagedBlock content es) = es"
  proof (cases "es = []")
    case True
    let ?ls = "rev (dropWhile (\<lambda>l. l = []) (rev (before @ after)))"
    have "list_all plain_line (before @ after)" using lines(1) by simp
    then have "scan_lines (replaceManagedBlock content es) = ?ls" using lines(2) True trim_newlines_unlines by simp
    moreover have "set ?ls \<subseteq> set (before @ after)" using set_dropWhileD by fastforce
    then have "list_all no_marker ?ls" using nm by (auto simp: list_all_iff)
    ultimately show ?thesis using parse_unmarked [of ?ls parse_ip "[]"] True by (simp add: parseManagedBlock_def)
  next
    case False
    then show ?thesis
      using parse_entries [OF assms(2), of after] scan_unlines [OF lines(1), of "[]"]
      by (simp add: parseManagedBlock_def lines(2) parse_unmarked [OF nm(1)] trim_markers Let_def)
  qed
  show "foreign_lines (replaceManagedBlock content es) = foreign_lines content" if "es \<noteq> []"
    unfolding f
    using split_unmarked [OF nm(2), of True "[]"] split_in_block [OF nm(3), of True "endMarker # after"] ne that
    by (simp add: foreign_split lines(2) file_lines_unlines [OF lines(1)] split_unmarked [OF nm(1)] trim_markers)
qed

section \<open>Entries\<close>

fun keep_first :: "string list \<Rightarrow> Entry list \<Rightarrow> Entry list" where
  "keep_first seen [] = []"
| "keep_first seen (e # es) =
     (if en_Hostname e \<in> set seen then keep_first seen es else e # keep_first (en_Hostname e # seen) es)"

lemma merge_into_eq: "fst (merge_into es result seen) = result @ keep_first seen es"
  by (induction es result seen rule: merge_into.induct) auto

lemma merge_into_append:
  "merge_into (es @ fs) result seen = (case merge_into es result seen of (r, s) \<Rightarrow> merge_into fs r s)"
  by (induction es result seen rule: merge_into.induct) auto

lemma mergeEntries_eq: "mergeEntries existing additions = keep_first [] (existing @ additions)"
  using merge_into_eq [of "existing @ additions" "[]" "[]"]
  by (simp add: mergeEntries_def merge_into_append split: prod.splits)

lemma keep_first_find:
  "find (\<lambda>e. en_Hostname e = h) (keep_first seen es) = (if h \<in> set seen then None else find (\<lambda>e. en_Hostname e = h) es)"
  by (induction es arbitrary: seen) auto

lemma keep_first_sub: "set (keep_first seen es) \<subseteq> set es"
  by (induction es arbitrary: seen) auto

lemma keep_first_hosts: "en_Hostname ` set (keep_first seen es) = en_Hostname ` set es - set seen"
  by (induction es arbitrary: seen) auto

lemma keep_first_distinct: "distinct (map en_Hostname (keep_first seen es))"
  by (induction es arbitrary: seen) (auto simp: keep_first_hosts)

section \<open>The contract the manager shares with the resolver\<close>

locale name_presence =
  fixes add_name :: "string \<Rightarrow> 'i \<Rightarrow> 's \<Rightarrow> 's"
    and remove_name :: "string \<Rightarrow> 's \<Rightarrow> 's"
    and has_name :: "'s \<Rightarrow> string \<Rightarrow> bool"
    and ok :: "'s \<Rightarrow> bool"
    and same :: "string \<Rightarrow> string \<Rightarrow> bool"
  assumes has_add: "ok s \<Longrightarrow> has_name (add_name h i s) n \<longleftrightarrow> same h n \<or> has_name s n"
    and has_remove: "ok s \<Longrightarrow> has_name (remove_name h s) n \<longleftrightarrow> \<not> same h n \<and> has_name s n"
    and ok_add: "ok s \<Longrightarrow> ok (add_name h i s)"
    and ok_remove: "ok s \<Longrightarrow> ok (remove_name h s)"
begin

text \<open>Adding names and removing them again leaves exactly the names that were there under no such name.\<close>

lemma add_all: "ok s \<Longrightarrow> has_name (fold (\<lambda>(h, i). add_name h i) es s) n \<longleftrightarrow> (\<exists>e\<in>set es. same (fst e) n) \<or> has_name s n"
  by (induction es arbitrary: s) (simp_all add: split_beta has_add ok_add disj_ac)

lemma remove_all: "ok s \<Longrightarrow> has_name (fold remove_name hs s) n \<longleftrightarrow> (\<forall>h\<in>set hs. \<not> same h n) \<and> has_name s n"
  by (induction hs arbitrary: s) (auto simp: has_remove ok_remove)

lemma ok_add_all: "ok s \<Longrightarrow> ok (fold (\<lambda>(h, i). add_name h i) es s)"
  by (induction es arbitrary: s) (auto simp: ok_add)

lemma add_then_remove:
  "ok s \<Longrightarrow> has_name (fold remove_name (map fst es) (fold (\<lambda>(h, i). add_name h i) es s)) n \<longleftrightarrow>
     (\<forall>e\<in>set es. \<not> same (fst e) n) \<and> has_name s n"
  by (auto simp: remove_all add_all ok_add_all)

end

definition has_host :: "Entry list \<Rightarrow> string \<Rightarrow> bool" where
  "has_host es h = (h \<in> en_Hostname ` set es)"

interpretation hosts: name_presence
  "\<lambda>h i es. mergeEntries es [\<lparr>en_IP = i, en_Hostname = h\<rparr>]"
  "\<lambda>h es. subtractEntries es [\<lparr>en_IP = [], en_Hostname = h\<rparr>]"
  has_host "\<lambda>_. True" "(=)"
  by unfold_locales (auto simp: has_host_def mergeEntries_eq keep_first_hosts subtractEntries_def)

sublocale dns_port \<subseteq> presence: name_presence
  add_name remove_name "\<lambda>s n. lookup s (canon n) \<noteq> None" ok "\<lambda>h n. canon h = canon n"
  by unfold_locales (auto simp: lookup_add lookup_remove add_ok remove_ok)

text \<open>
  C37: The managed block reads back. On a hosts file without carriage returns whose lines all stay below
  64 KiB, for entries of visible characters, \<open>Add\<close> leaves a block that parses to the old entries followed
  by the new hostnames, the first entry of a hostname winning; \<open>RemoveEntries\<close> one without the removed
  hostnames. The file that is written is, byte for byte, the lines outside the block in their order with
  the new block between them, where the old block began or else at the end; when no entry is left, it is
  those lines alone, without empty ones at the end.
\<close>

theorem hosts_block_round_trip:
  assumes "scannable content" and "list_all (clean parse_ip) (parseManagedBlock parse_ip content @ es)"
    and "(err, content') = (if adding then manager_Add parse_ip None None es content
      else manager_RemoveEntries parse_ip None None es content)"
    and "new = (if adding then mergeEntries (parseManagedBlock parse_ip content) es
      else subtractEntries (parseManagedBlock parse_ip content) es)"
    and "foreign_lines content = (before, after)"
  shows "err = None \<and> parseManagedBlock parse_ip content' = new \<and>
    content' = (if new = [] then trim_newlines (unlines (before @ after))
      else unlines (before @ beginMarker # map Entry_String new @ endMarker # after)) \<and>
    (new \<noteq> [] \<longrightarrow> foreign_lines content' = (before, after)) \<and>
    (adding \<longrightarrow> (\<forall>h. find (\<lambda>e. en_Hostname e = h) new = find (\<lambda>e. en_Hostname e = h) (parseManagedBlock parse_ip content @ es)))"
proof -
  have content': "err = None" "content' = replaceManagedBlock content new"
    using assms(3,4) by (auto simp: manager_Add_def manager_RemoveEntries_def write_hosts_def split: if_splits)
  have "set new \<subseteq> set (parseManagedBlock parse_ip content @ es)"
    using assms(4) keep_first_sub [of "[]" "parseManagedBlock parse_ip content @ es"]
    by (auto simp: mergeEntries_eq subtractEntries_def split: if_splits)
  then have "list_all (clean parse_ip) new" using assms(2) by (auto simp: list_all_iff)
  then show ?thesis
    using block_round_trip [OF assms(1)] block_lines(2) [OF assms(1) _ assms(5)] content' assms(4,5)
    by (simp add: mergeEntries_eq keep_first_find)
qed

definition sample_hosts :: bytes where
  "sample_hosts = unlines [''127.0.0.1 localhost'', beginMarker, ''127.0.0.5 db.dev'', endMarker, ''::1 localhost'']"

definition sample_entry :: "string \<Rightarrow> string \<Rightarrow> Entry" where
  "sample_entry i h = \<lparr>en_IP = i, en_Hostname = h\<rparr>"

lemma sample_clean: "clean Some (sample_entry ''127.0.0.5'' ''db.dev'')" "clean Some (sample_entry ''127.0.0.6'' ''web.dev'')"
  by (simp_all add: clean_def visible_def byte_def sample_entry_def Entry_String_def MaxLine_def)

lemma sample_hosts_parses: "parseManagedBlock Some sample_hosts = [sample_entry ''127.0.0.5'' ''db.dev'']"
proof -
  let ?local = "''127.0.0.1 localhost''" and ?e = "sample_entry ''127.0.0.5'' ''db.dev''"
  have hosts: "sample_hosts = unlines ([?local, beginMarker] @ map Entry_String [?e] @ [endMarker, ''::1 localhost''])"
    by (simp add: sample_hosts_def sample_entry_def Entry_String_def)
  have "list_all plain_line ([?local, beginMarker] @ map Entry_String [?e] @ [endMarker, ''::1 localhost''])"
    using plain_markers plain_entry [OF sample_clean(1)]
    by (simp add: plain_line_def newline_def MaxLine_def strip_cr_def)
  from scan_unlines [OF this, of "[]"]
  have scan: "scan_lines sample_hosts = [?local] @ beginMarker # map Entry_String [?e] @ endMarker # [''::1 localhost'']"
    unfolding hosts by simp
  have "TrimSpace ?local = ?local"
    using TrimSpace_two [of "''127.0.0.1''" "''localhost''"] by (simp add: visible_def byte_def)
  then have "list_all no_marker [?local]" by (simp add: no_marker_def beginMarker_def endMarker_def)
  then have "parse_lines Some False ([?local] @ beginMarker # map Entry_String [?e] @ endMarker # [''::1 localhost'']) =
      parse_lines Some True (map Entry_String [?e] @ endMarker # [''::1 localhost''])"
    by (subst parse_unmarked) (auto simp: trim_markers)
  also have "\<dots> = [?e]" using sample_clean(1) by (intro parse_entries) simp
  finally show ?thesis unfolding parseManagedBlock_def scan .
qed

lemma sample_merge:
  "mergeEntries [sample_entry ''127.0.0.5'' ''db.dev''] [sample_entry ''127.0.0.6'' ''web.dev''] =
    [sample_entry ''127.0.0.5'' ''db.dev'', sample_entry ''127.0.0.6'' ''web.dev'']"
  by (simp add: mergeEntries_eq sample_entry_def)

theorem hosts_block_round_trip_witness:
  "\<exists>content'. manager_Add Some None None [sample_entry ''127.0.0.6'' ''web.dev''] sample_hosts = (None, content') \<and>
     parseManagedBlock Some content' = [sample_entry ''127.0.0.5'' ''db.dev'', sample_entry ''127.0.0.6'' ''web.dev''] \<and>
     content' = unlines [''127.0.0.1 localhost'', beginMarker, ''127.0.0.5 db.dev'', ''127.0.0.6 web.dev'', endMarker, ''::1 localhost'']"
proof -
  obtain err content' where add: "(err, content') = manager_Add Some None None [sample_entry ''127.0.0.6'' ''web.dev''] sample_hosts"
    by (metis surj_pair)
  have lines: "file_lines sample_hosts = [''127.0.0.1 localhost'', beginMarker, ''127.0.0.5 db.dev'', endMarker, ''::1 localhost'']"
    unfolding sample_hosts_def by (rule file_lines_unlines)
      (simp add: plain_line_def newline_def MaxLine_def strip_cr_def beginMarker_def endMarker_def)
  have cr: "CHR 0x0D \<notin> set sample_hosts"
    by (simp add: sample_hosts_def unlines_def newline_def beginMarker_def endMarker_def)
  then have scan: "scannable sample_hosts"
    by (simp add: scannable_def lines beginMarker_def endMarker_def MaxLine_def)
  have "TrimSpace ''127.0.0.1 localhost'' = ''127.0.0.1 localhost''" "TrimSpace ''::1 localhost'' = ''::1 localhost''"
    "TrimSpace ''127.0.0.5 db.dev'' = ''127.0.0.5 db.dev''" by code_simp+
  then have around: "foreign_lines sample_hosts = ([''127.0.0.1 localhost''], [''::1 localhost''])"
    unfolding foreign_lines_def lines Let_def by (simp add: trim_markers) (simp add: beginMarker_def endMarker_def)
  have cl: "list_all (clean Some) (parseManagedBlock Some sample_hosts @ [sample_entry ''127.0.0.6'' ''web.dev''])"
    unfolding sample_hosts_parses using sample_clean by simp
  have add': "(err, content') = (if True then manager_Add Some None None [sample_entry ''127.0.0.6'' ''web.dev''] sample_hosts
      else manager_RemoveEntries Some None None [sample_entry ''127.0.0.6'' ''web.dev''] sample_hosts)"
    using add by simp
  have texts: "Entry_String (sample_entry ''127.0.0.5'' ''db.dev'') = ''127.0.0.5 db.dev''"
    "Entry_String (sample_entry ''127.0.0.6'' ''web.dev'') = ''127.0.0.6 web.dev''"
    by (simp_all add: sample_entry_def Entry_String_def)
  from hosts_block_round_trip [OF scan cl add' _ around, of "mergeEntries (parseManagedBlock Some sample_hosts) [sample_entry ''127.0.0.6'' ''web.dev'']"] add
  show ?thesis by (intro exI [of _ content']) (auto simp: sample_hosts_parses sample_merge texts)
qed

text \<open>
  A hosts file with a line of 64 KiB or more is cut there: whatever the call, that line and
  everything after it are gone from what is written back.
\<close>

lemma long_line_truncates_hosts:
  assumes "list_all plain_line pre" and "newline \<notin> set l" and "65535 < length l"
  shows "replaceManagedBlock (unlines pre @ l @ newline # rest) es = replaceManagedBlock (unlines pre) es"
  using assms scan_unlines [OF assms(1), of "l @ newline # rest"] scan_unlines [OF assms(1), of "[]"]
    scan_long_line [OF assms(2), of rest]
  by (simp add: replaceManagedBlock_def MaxLine_def)

lemma long_line_truncates_hosts_witness:
  "replaceManagedBlock (unlines [''127.0.0.1 localhost''] @ replicate 65536 (CHR ''x'') @ newline # ''::1 localhost'') [] =
    replaceManagedBlock (unlines [''127.0.0.1 localhost'']) []"
proof -
  have "list_all plain_line [''127.0.0.1 localhost'']"
    by (simp add: plain_line_def newline_def MaxLine_def strip_cr_def)
  moreover have "newline \<notin> set (replicate 65536 (CHR ''x''))" by (simp add: newline_def)
  moreover have "65535 < length (replicate 65536 (CHR ''x''))" by (simp only: length_replicate)
  ultimately show ?thesis by (rule long_line_truncates_hosts)
qed

end
