(* ===== verification/Tcp_Proxy.thy ===== *)
theory Tcp_Proxy
  imports Go_Errors Prelude
begin

text \<open>
  \<open>internal/proxy/proxy.go\<close>: the TCP proxy. Connections are numbers into the list \<open>px_open\<close>, which
  tells whether this end of them is still open; every accepted connection is served by a goroutine
  of its own, a program counter whose steps are the sections under the lock and the calls between
  them, deferred calls included; \<open>Stop\<close> is one more. \<open>px_step\<close> interleaves them all. A copying
  handler gets on when its peers end the connection, which nobody guarantees (\<open>peers\<close>), or when
  both its connections were closed under it.
\<close>

datatype handler =
    H_track_src nat
  | H_dial nat
  | H_track_dst nat nat
  | H_copy nat nat
  | H_untrack_dst nat nat
  | H_close_dst nat nat
  | H_untrack_src nat
  | H_close_src nat
  | H_done

text \<open>\<open>px_listener\<close> is \<open>None\<close> before \<open>Start\<close>, then whether the listener is open.\<close>

record Proxy =
  px_stopped :: bool
  px_conns :: "nat list"
  px_open :: "bool list"
  px_listener :: "bool option"
  px_accepting :: bool
  px_handlers :: "handler list"

definition proxy_New :: Proxy where
  "proxy_New = \<lparr>px_stopped = False, px_conns = [], px_open = [], px_listener = None, px_accepting = False,
     px_handlers = []\<rparr>"

definition proxy_Start :: "string \<Rightarrow> go_error option \<Rightarrow> Proxy \<Rightarrow> go_error option \<times> Proxy" where
  "proxy_Start listenAddr listen p =
     (case listen of
        Some err \<Rightarrow> (Some (Errorf_w (''proxy listen on '' @ listenAddr) err), p)
      | None \<Rightarrow> (None, p\<lparr>px_listener := Some True, px_accepting := True\<rparr>))"

definition StartNew :: "string \<Rightarrow> go_error option \<Rightarrow> go_error + Proxy" where
  "StartNew listenAddr listen =
     (case proxy_Start listenAddr listen proxy_New of (Some err, _) \<Rightarrow> Inl err | (None, p) \<Rightarrow> Inr p)"

definition track :: "nat \<Rightarrow> Proxy \<Rightarrow> bool \<times> Proxy" where
  "track c p = (if px_stopped p then (False, p) else (True, p\<lparr>px_conns := c # removeAll c (px_conns p)\<rparr>))"

definition untrack :: "nat \<Rightarrow> Proxy \<Rightarrow> Proxy" where
  "untrack c p = p\<lparr>px_conns := removeAll c (px_conns p)\<rparr>"

definition close_conn :: "nat \<Rightarrow> Proxy \<Rightarrow> Proxy" where
  "close_conn c p = p\<lparr>px_open := (px_open p)[c := False]\<rparr>"

definition new_conn :: "Proxy \<Rightarrow> nat \<times> Proxy" where
  "new_conn p = (length (px_open p), p\<lparr>px_open := px_open p @ [True]\<rparr>)"

text \<open>One turn of \<open>acceptLoop\<close> that got a connection.\<close>

definition accept :: "Proxy \<Rightarrow> Proxy" where
  "accept p = (case new_conn p of (c, p) \<Rightarrow> p\<lparr>px_handlers := px_handlers p @ [H_track_src c]\<rparr>)"

fun handler_step :: "bool \<Rightarrow> handler \<times> Proxy \<Rightarrow> handler \<times> Proxy" where
  "handler_step dialled (H_track_src c, p) =
     (case track c p of (ok, p) \<Rightarrow> (if ok then H_dial c else H_close_src c, p))"
| "handler_step dialled (H_dial c, p) =
     (if dialled then (case new_conn p of (d, p) \<Rightarrow> (H_track_dst c d, p)) else (H_untrack_src c, p))"
| "handler_step dialled (H_track_dst c d, p) =
     (case track d p of (ok, p) \<Rightarrow> (if ok then H_copy c d else H_close_dst c d, p))"
| "handler_step dialled (H_copy c d, p) = (H_untrack_dst c d, p)"
| "handler_step dialled (H_untrack_dst c d, p) = (H_close_dst c d, untrack d p)"
| "handler_step dialled (H_close_dst c d, p) = (H_untrack_src c, close_conn d p)"
| "handler_step dialled (H_untrack_src c, p) = (H_close_src c, untrack c p)"
| "handler_step dialled (H_close_src c, p) = (H_done, close_conn c p)"
| "handler_step dialled (H_done, p) = (H_done, p)"

definition handler_enabled :: "bool \<Rightarrow> handler \<Rightarrow> Proxy \<Rightarrow> bool" where
  "handler_enabled peers h p =
     (case h of
        H_copy c d \<Rightarrow> peers \<or> \<not> px_open p ! c \<and> \<not> px_open p ! d
      | H_done \<Rightarrow> False
      | _ \<Rightarrow> True)"

definition serve_handler :: "bool \<Rightarrow> nat \<Rightarrow> Proxy \<Rightarrow> Proxy" where
  "serve_handler dialled i p =
     (case handler_step dialled (px_handlers p ! i, p) of (h, p') \<Rightarrow> p'\<lparr>px_handlers := (px_handlers p)[i := h]\<rparr>)"

section \<open>Stop\<close>

datatype px_stopper = Q_mark | Q_listener "nat list" | Q_close "nat list" | Q_wait | Q_done

definition all_served :: "Proxy \<Rightarrow> bool" where
  "all_served p \<longleftrightarrow> \<not> px_accepting p \<and> list_all (\<lambda>h. h = H_done) (px_handlers p)"

fun proxy_stop_step :: "px_stopper \<times> Proxy \<Rightarrow> (px_stopper \<times> Proxy) option" where
  "proxy_stop_step (Q_mark, p) = Some (Q_listener (px_conns p), p\<lparr>px_stopped := True\<rparr>)"
| "proxy_stop_step (Q_listener cs, p) =
     Some (Q_close cs, p\<lparr>px_listener := map_option (\<lambda>_. False) (px_listener p)\<rparr>)"
| "proxy_stop_step (Q_close [], p) = Some (Q_wait, p)"
| "proxy_stop_step (Q_close (c # cs), p) = Some (Q_close cs, close_conn c p)"
| "proxy_stop_step (Q_wait, p) = (if all_served p then Some (Q_done, p) else None)"
| "proxy_stop_step (Q_done, p) = None"

section \<open>Interleaving\<close>

inductive px_step :: "bool \<Rightarrow> px_stopper \<times> Proxy \<Rightarrow> px_stopper \<times> Proxy \<Rightarrow> bool" for peers where
  px_accept: "px_listener p = Some True \<Longrightarrow> px_accepting p \<Longrightarrow> px_step peers (q, p) (q, accept p)"
| px_accept_end: "px_listener p \<noteq> Some True \<Longrightarrow> px_accepting p \<Longrightarrow>
    px_step peers (q, p) (q, p\<lparr>px_accepting := False\<rparr>)"
| px_handler: "i < length (px_handlers p) \<Longrightarrow> handler_enabled peers (px_handlers p ! i) p \<Longrightarrow>
    px_step peers (q, p) (q, serve_handler dialled i p)"
| px_stop: "proxy_stop_step (q, p) = Some (q', p') \<Longrightarrow> px_step peers (q, p) (q', p')"

inductive_cases px_stepE: "px_step peers (q, p) s'"

text \<open>A proxy that was started, or not, with one \<open>Stop\<close> to come at any time.\<close>

inductive px_reachable :: "px_stopper \<times> Proxy \<Rightarrow> bool" where
  px_init: "proxy_Start listenAddr listen proxy_New = (err, p) \<Longrightarrow> px_reachable (Q_mark, p)"
| px_more: "px_reachable s \<Longrightarrow> px_step True s s' \<Longrightarrow> px_reachable s'"

section \<open>Who holds a connection\<close>

fun held :: "handler \<Rightarrow> nat list" where
  "held (H_track_src c) = [c]"
| "held (H_dial c) = [c]"
| "held (H_track_dst c d) = [c, d]"
| "held (H_copy c d) = [c, d]"
| "held (H_untrack_dst c d) = [c, d]"
| "held (H_close_dst c d) = [c, d]"
| "held (H_untrack_src c) = [c]"
| "held (H_close_src c) = [c]"
| "held H_done = []"

fun tracked :: "handler \<Rightarrow> nat list" where
  "tracked (H_dial c) = [c]"
| "tracked (H_track_dst c d) = [c]"
| "tracked (H_copy c d) = [c, d]"
| "tracked (H_untrack_dst c d) = [c, d]"
| "tracked (H_close_dst c d) = [c]"
| "tracked (H_untrack_src c) = [c]"
| "tracked _ = []"

fun copying :: "handler \<Rightarrow> nat list" where
  "copying (H_copy c d) = [c, d]"
| "copying _ = []"

definition px_inv :: "Proxy \<Rightarrow> bool" where
  "px_inv p \<longleftrightarrow> distinct (concat (map held (px_handlers p))) \<and>
     (\<forall>c\<in>set (concat (map held (px_handlers p))). c < length (px_open p)) \<and>
     set (concat (map tracked (px_handlers p))) \<subseteq> set (px_conns p) \<and>
     (\<forall>c<length (px_open p). px_open p ! c \<longrightarrow> c \<in> set (concat (map held (px_handlers p))))"

definition px_cover :: "px_stopper \<times> Proxy \<Rightarrow> bool" where
  "px_cover s \<longleftrightarrow> (case s of (q, p) \<Rightarrow>
     (case q of
        Q_mark \<Rightarrow> True
      | Q_listener cs \<Rightarrow> px_stopped p \<and> set (concat (map copying (px_handlers p))) \<subseteq> set cs
      | Q_close cs \<Rightarrow> px_stopped p \<and> px_listener p \<noteq> Some True \<and>
          (\<forall>c\<in>set (concat (map copying (px_handlers p))). px_open p ! c \<longrightarrow> c \<in> set cs)
      | _ \<Rightarrow> px_stopped p \<and> px_listener p \<noteq> Some True \<and>
          (\<forall>c\<in>set (concat (map copying (px_handlers p))). \<not> px_open p ! c)))"

lemma tracked_held: "set (tracked h) \<subseteq> set (held h)" and copying_tracked: "set (copying h) \<subseteq> set (tracked h)"
  by (cases h; simp)+

lemmas handler_defs = track_def untrack_def close_conn_def new_conn_def

text \<open>The handlers before and after the one that steps.\<close>

lemma serve_split:
  assumes "i < length (px_handlers p)"
  obtains xs h ys where "px_handlers p = xs @ h # ys" and "px_handlers p ! i = h"
    and "serve_handler dialled i p =
      (case handler_step dialled (h, p) of (h', p') \<Rightarrow> p'\<lparr>px_handlers := xs @ h' # ys\<rparr>)"
proof
  let ?xs = "take i (px_handlers p)" and ?ys = "drop (Suc i) (px_handlers p)"
  show "px_handlers p = ?xs @ px_handlers p ! i # ?ys" using assms by (rule id_take_nth_drop)
  show "serve_handler dialled i p =
      (case handler_step dialled (px_handlers p ! i, p) of (h', p') \<Rightarrow> p'\<lparr>px_handlers := ?xs @ h' # ?ys\<rparr>)"
    using assms by (simp add: serve_handler_def upd_conv_take_nth_drop)
qed simp

lemma open_update [simp]: "c < length xs \<Longrightarrow> (xs[d := False]) ! c \<longleftrightarrow> xs ! c \<and> c \<noteq> d"
  by (cases "c = d") simp_all

lemma px_inv_handler:
  assumes "px_inv p" and "i < length (px_handlers p)"
  shows "px_inv (serve_handler dialled i p)"
proof (rule serve_split [OF assms(2)])
  fix xs h ys
  assume hs: "px_handlers p = xs @ h # ys"
    and eq: "serve_handler dialled i p = (case handler_step dialled (h, p) of (h', p') \<Rightarrow> p'\<lparr>px_handlers := xs @ h' # ys\<rparr>)"
  have T: "set (concat (map tracked zs)) \<subseteq> set (concat (map held zs))" for zs
    using tracked_held by fastforce
  note sub = T [of xs] T [of ys]
  show ?thesis
    unfolding eq
    using assms(1) sub
    by (cases "(dialled, (h, p))" rule: handler_step.cases)
      (auto simp: px_inv_def hs handler_defs nth_append less_Suc_eq)
qed

lemma serve_frame [simp]:
  "px_stopped (serve_handler dialled i p) = px_stopped p" "px_listener (serve_handler dialled i p) = px_listener p"
  "px_accepting (serve_handler dialled i p) = px_accepting p"
  by (cases "(dialled, (px_handlers p ! i, p))" rule: handler_step.cases;
      simp add: serve_handler_def handler_defs split: prod.splits)+

lemma serve_copying:
  assumes "i < length (px_handlers p)" and "px_stopped p"
  shows "set (concat (map copying (px_handlers (serve_handler dialled i p)))) \<subseteq> set (concat (map copying (px_handlers p)))"
proof (rule serve_split [OF assms(1)])
  fix xs h ys
  assume hs: "px_handlers p = xs @ h # ys"
    and eq: "serve_handler dialled i p = (case handler_step dialled (h, p) of (h', p') \<Rightarrow> p'\<lparr>px_handlers := xs @ h' # ys\<rparr>)"
  show ?thesis
    unfolding eq using assms(2)
    by (cases "(dialled, (h, p))" rule: handler_step.cases) (auto simp: hs handler_defs)
qed

lemma serve_open:
  assumes "c < length (px_open p)"
  shows "px_open (serve_handler dialled i p) ! c \<longrightarrow> px_open p ! c"
  using assms
  by (cases "(dialled, (px_handlers p ! i, p))" rule: handler_step.cases)
    (auto simp: serve_handler_def handler_defs nth_append)

lemma copying_known: "px_inv p \<Longrightarrow> c \<in> set (concat (map copying (px_handlers p))) \<Longrightarrow> c < length (px_open p) \<and> c \<in> set (px_conns p)"
  using copying_tracked tracked_held by (fastforce simp: px_inv_def)

lemma px_cover_handler:
  assumes "px_inv p" and "px_cover (q, p)" and "i < length (px_handlers p)"
  shows "px_cover (q, serve_handler dialled i p)"
proof (cases "px_stopped p")
  case True
  note sub = serve_copying [OF assms(3) True, of dialled]
  have "px_open (serve_handler dialled i p) ! c \<longrightarrow> px_open p ! c"
    if "c \<in> set (concat (map copying (px_handlers (serve_handler dialled i p))))" for c
    using that sub copying_known [OF assms(1)] serve_open by blast
  with assms(2) sub show ?thesis by (cases q) (fastforce simp: px_cover_def)+
next
  case False
  with assms(2) show ?thesis by (cases q) (auto simp: px_cover_def)
qed

lemma px_stop_keeps:
  assumes "px_inv p" and "px_cover (q, p)" and "proxy_stop_step (q, p) = Some (q', p')"
  shows "px_inv p' \<and> px_cover (q', p')"
  using assms copying_known [OF assms(1)]
  by (cases "(q, p)" rule: proxy_stop_step.cases)
    (auto simp: px_inv_def px_cover_def close_conn_def simp del: set_concat split: if_splits)

lemma px_reachable_inv: "px_reachable s \<Longrightarrow> px_inv (snd s) \<and> px_cover s"
proof (induction rule: px_reachable.induct)
  case (px_init listenAddr listen err p)
  then show ?case by (auto simp: proxy_Start_def proxy_New_def px_inv_def px_cover_def split: option.splits)
next
  case (px_more s s')
  from px_more.hyps(2) px_more.IH show ?case
  proof (cases rule: px_step.cases)
    case (px_accept p q)
    with px_more.IH show ?thesis
      by (cases q) (auto simp: px_inv_def px_cover_def accept_def new_conn_def nth_append less_Suc_eq)
  next
    case (px_accept_end p q)
    with px_more.IH show ?thesis by (cases q) (auto simp: px_inv_def px_cover_def)
  next
    case (px_handler i p q dialled)
    with px_more.IH show ?thesis by (simp add: px_inv_handler px_cover_handler)
  next
    case (px_stop q p q' p')
    with px_more.IH px_stop_keeps [of p q q' p'] show ?thesis by simp
  qed
qed

section \<open>Stop ends and leaves nothing open\<close>

fun handler_left :: "handler \<Rightarrow> nat" where
  "handler_left (H_track_src c) = 8"
| "handler_left (H_dial c) = 7"
| "handler_left (H_track_dst c d) = 6"
| "handler_left (H_copy c d) = 5"
| "handler_left (H_untrack_dst c d) = 4"
| "handler_left (H_close_dst c d) = 3"
| "handler_left (H_untrack_src c) = 2"
| "handler_left (H_close_src c) = 1"
| "handler_left H_done = 0"

definition px_left :: "Proxy \<Rightarrow> nat" where
  "px_left p = (if px_accepting p then 1 else 0) + sum_list (map handler_left (px_handlers p))"

lemma serve_left:
  assumes "i < length (px_handlers p)" and "px_handlers p ! i \<noteq> H_done"
  shows "px_left (serve_handler dialled i p) < px_left p"
proof (rule serve_split [OF assms(1)])
  fix xs h ys
  assume hs: "px_handlers p = xs @ h # ys" and h: "px_handlers p ! i = h"
    and eq: "serve_handler dialled i p = (case handler_step dialled (h, p) of (h', p') \<Rightarrow> p'\<lparr>px_handlers := xs @ h' # ys\<rparr>)"
  have "h \<noteq> H_done" using h assms(2) by simp
  then show ?thesis
    unfolding eq
    by (cases "(dialled, (h, p))" rule: handler_step.cases) (auto simp: px_left_def hs handler_defs)
qed

lemma enabled_not_done: "handler_enabled peers h p \<Longrightarrow> h \<noteq> H_done"
  by (auto simp: handler_enabled_def)

lemma left_accept_end: "px_accepting p \<Longrightarrow> px_left (p\<lparr>px_accepting := False\<rparr>) < px_left p"
  by (simp add: px_left_def)

text \<open>A proxy with one connection being copied, stopped.\<close>

definition busy :: Proxy where
  "busy = serve_handler True 0 (serve_handler True 0 (serve_handler True 0 (accept (snd (proxy_Start [] None proxy_New)))))"

definition stopped_busy :: Proxy where
  "stopped_busy = \<lparr>px_stopped = True, px_conns = [1, 0], px_open = [False, False], px_listener = Some False,
     px_accepting = True, px_handlers = [H_copy 0 1]\<rparr>"

lemma busy_eq:
  "busy = \<lparr>px_stopped = False, px_conns = [1, 0], px_open = [True, True], px_listener = Some True,
     px_accepting = True, px_handlers = [H_copy 0 1]\<rparr>"
  by (simp add: busy_def accept_def serve_handler_def handler_defs proxy_Start_def proxy_New_def)

lemma reach_handler:
  "px_reachable (q, p) \<Longrightarrow> i < length (px_handlers p) \<Longrightarrow> handler_enabled True (px_handlers p ! i) p \<Longrightarrow>
   px_reachable (q, serve_handler dialled i p)"
  by (metis px_more px_handler)

lemma reach_stop: "px_reachable (q, p) \<Longrightarrow> proxy_stop_step (q, p) = Some s \<Longrightarrow> px_reachable s"
  by (metis px_more px_stop surj_pair)

lemma busy_reachable: "px_reachable (Q_mark, busy)"
proof -
  have "px_reachable (Q_mark, snd (proxy_Start [] None proxy_New))" by (rule px_init [of "[]" None None]) (simp add: proxy_Start_def)
  then have "px_reachable (Q_mark, accept (snd (proxy_Start [] None proxy_New)))"
    by (rule px_more) (rule px_accept; simp add: proxy_Start_def proxy_New_def)
  then show ?thesis
    unfolding busy_def
    by (intro reach_handler)
      (simp_all add: accept_def serve_handler_def handler_defs proxy_Start_def proxy_New_def handler_enabled_def)
qed

lemma stopped_busy_reachable: "px_reachable (Q_wait, stopped_busy)"
proof -
  have "px_reachable (Q_listener [1, 0], busy\<lparr>px_stopped := True\<rparr>)"
    by (rule reach_stop [OF busy_reachable]) (simp add: busy_eq)
  then have "px_reachable (Q_close [1, 0], busy\<lparr>px_stopped := True, px_listener := Some False\<rparr>)"
    by (rule reach_stop) (simp add: busy_eq)
  then have "px_reachable (Q_close [0], busy\<lparr>px_stopped := True, px_open := [True, False], px_listener := Some False\<rparr>)"
    by (rule reach_stop) (simp add: busy_eq close_conn_def)
  then have "px_reachable (Q_close [], busy\<lparr>px_stopped := True, px_open := [False, False], px_listener := Some False\<rparr>)"
    by (rule reach_stop) (simp add: busy_eq close_conn_def)
  then show ?thesis by (rule reach_stop) (simp add: busy_eq stopped_busy_def)
qed

text \<open>
  C34: \<open>Stop\<close> cannot hang on idle connections: once it waits for the handlers, every step anyone can
  take brings the proxy closer to its end, and until the end is reached somebody can take one
  without the help of any peer.
\<close>

theorem proxy_stop_never_hangs:
  assumes "px_reachable (Q_wait, p)"
  shows "(\<forall>s'. px_step True (Q_wait, p) s' \<longrightarrow> s' = (Q_done, p) \<or> fst s' = Q_wait \<and> px_left (snd s') < px_left p) \<and>
    (\<exists>s'. px_step False (Q_wait, p) s')"
proof
  have inv: "px_inv p" "px_listener p \<noteq> Some True" "\<And>c. c \<in> set (concat (map copying (px_handlers p))) \<Longrightarrow> \<not> px_open p ! c"
    using px_reachable_inv [OF assms] by (auto simp: px_cover_def)
  show "\<forall>s'. px_step True (Q_wait, p) s' \<longrightarrow> s' = (Q_done, p) \<or> fst s' = Q_wait \<and> px_left (snd s') < px_left p"
  proof (intro allI impI)
    fix s' assume "px_step True (Q_wait, p) s'"
    then show "s' = (Q_done, p) \<or> fst s' = Q_wait \<and> px_left (snd s') < px_left p"
      using inv(2) serve_left left_accept_end
      by (cases rule: px_stepE) (auto dest: enabled_not_done split: if_splits)
  qed
  show "\<exists>s'. px_step False (Q_wait, p) s'"
  proof (cases "px_accepting p")
    case True
    with inv(2) show ?thesis by (metis px_accept_end)
  next
    case False
    show ?thesis
    proof (cases "list_all (\<lambda>h. h = H_done) (px_handlers p)")
      case True
      with False have "proxy_stop_step (Q_wait, p) = Some (Q_done, p)" by (simp add: all_served_def)
      then show ?thesis by (metis px_stop)
    next
      case notall: False
      then obtain i where i: "i < length (px_handlers p)" "px_handlers p ! i \<noteq> H_done"
        by (auto simp: list_all_length)
      have "set (copying (px_handlers p ! i)) \<subseteq> set (concat (map copying (px_handlers p)))" using i(1) by fastforce
      then have "handler_enabled False (px_handlers p ! i) p"
        using inv(3) i(2) by (cases "px_handlers p ! i") (auto simp: handler_enabled_def)
      with i(1) show ?thesis by (metis px_handler)
    qed
  qed
qed

theorem proxy_stop_never_hangs_witness:
  "px_handlers stopped_busy = [H_copy 0 1] \<and> (\<exists>s'. px_step False (Q_wait, stopped_busy) s')"
  using proxy_stop_never_hangs [OF stopped_busy_reachable] by (simp add: stopped_busy_def)

text \<open>
  C35: When \<open>Stop\<close> has returned, nothing of the proxy is left: the listener is closed, no handler
  runs, every connection it ever accepted or dialled is closed and nothing can reopen one.
\<close>

theorem proxy_stop_closes_everything:
  assumes "px_reachable (Q_done, p)"
  shows "px_listener p \<noteq> Some True \<and> all_served p \<and> True \<notin> set (px_open p) \<and> (\<nexists>s'. px_step True (Q_done, p) s')"
proof -
  have served: "\<And>s. px_reachable s \<Longrightarrow> fst s = Q_done \<Longrightarrow> all_served (snd s)"
  proof -
    fix s assume "px_reachable s" "fst s = Q_done"
    then show "all_served (snd s)"
    proof (induction rule: px_reachable.induct)
      case (px_more s s')
      have cov: "px_cover s" using px_reachable_inv px_more.hyps(1) by blast
      from px_more.hyps(2) px_more.IH px_more.prems cov show ?case
      proof (cases rule: px_step.cases)
        case (px_accept p q)
        with px_more cov show ?thesis by (auto simp: px_cover_def)
      next
        case (px_handler i p q dialled)
        with px_more have "px_handlers p ! i = H_done" by (auto simp: all_served_def list_all_length)
        with px_handler show ?thesis by (simp add: handler_enabled_def)
      next
        case (px_stop q p q' p')
        with px_more show ?thesis
          by (cases "(q, p)" rule: proxy_stop_step.cases) (auto split: if_splits)
      qed (auto simp: all_served_def)
    qed simp
  qed
  have inv: "px_inv p" "px_listener p \<noteq> Some True" using px_reachable_inv [OF assms] by (auto simp: px_cover_def)
  have s: "all_served p" using served [OF assms] by simp
  then have "concat (map held (px_handlers p)) = []" by (auto simp: all_served_def list_all_iff)
  then have "True \<notin> set (px_open p)" using inv(1) by (auto simp: px_inv_def in_set_conv_nth)
  moreover have "\<nexists>s'. px_step True (Q_done, p) s'"
    using s by (auto elim!: px_stepE simp: all_served_def list_all_length handler_enabled_def)
  ultimately show ?thesis using inv s by simp
qed

theorem proxy_stop_closes_everything_witness:
  "\<exists>p. px_reachable (Q_done, p) \<and> length (px_open p) = 2 \<and> True \<notin> set (px_open p)"
proof -
  let ?s = "serve_handler True 0"
  let ?p = "?s (?s (?s (?s (?s (stopped_busy\<lparr>px_accepting := False\<rparr>)))))"
  have "px_reachable (Q_wait, stopped_busy\<lparr>px_accepting := False\<rparr>)"
    by (rule px_more [OF stopped_busy_reachable], rule px_accept_end) (simp_all add: stopped_busy_def)
  then have "px_reachable (Q_wait, ?p)"
    by (intro reach_handler) (simp_all add: stopped_busy_def serve_handler_def handler_defs handler_enabled_def)
  then have "px_reachable (Q_done, ?p)"
    by (rule reach_stop) (simp add: stopped_busy_def serve_handler_def handler_defs all_served_def)
  moreover have "length (px_open ?p) = 2" by (simp add: stopped_busy_def serve_handler_def handler_defs)
  ultimately show ?thesis using proxy_stop_closes_everything by blast
qed

end
