(* ===== verification/Sigv4_Proxy.thy ===== *)
theory Sigv4_Proxy
  imports Tcp_Proxy Service_Loop
begin

text \<open>
  \<open>internal/proxy/sigv4.go\<close>: the signing HTTP proxy, and the choice between the two proxies
  (\<open>realProxyFactory\<close> in \<open>cmd/daemon.go\<close>). The AWS library's signer and credentials and SHA-256 are
  arguments; what Go's \<open>httputil.ReverseProxy\<close> does to a request is written out. The handler closes over the \<open>err\<close> of \<open>Start\<close>: reading a request's body
  assigns that shared variable, so the two statements around it are steps of their own.
\<close>

record Sigv4Config =
  sc_ListenAddr :: string
  sc_TargetAddr :: string
  sc_RealHost :: string
  sc_AWSProfile :: string
  sc_AWSRegion :: string
  sc_AWSService :: string

text \<open>
  A request as the handler sees it: header names are canonical, a body may be missing, \<open>hr_RemoteIP\<close> is
  the address part of \<open>RemoteAddr\<close>, if there is one.
\<close>

record http_request =
  hr_Method :: string
  hr_Header :: "(string \<times> string list) list"
  hr_Host :: string
  hr_URL_Host :: string
  hr_URL_Scheme :: string
  hr_URL_Path :: string
  hr_URL_RawQuery :: string
  hr_ContentLength :: int
  hr_RemoteIP :: "string option"
  hr_Body :: "bytes option"

datatype http_result = Http_error string | Forwarded http_request

definition stripped_headers :: "string list" where
  "stripped_headers = [''Connection'', ''Accept-Encoding'', ''Accept-Language'', ''Accept'',
     ''Upgrade-Insecure-Requests'', ''Cache-Control'', ''Pragma'', ''Sec-Fetch-Dest'', ''Sec-Fetch-Mode'',
     ''Sec-Fetch-Site'', ''Sec-Fetch-User'', ''Sec-Ch-Ua'', ''Sec-Ch-Ua-Mobile'', ''Sec-Ch-Ua-Platform'',
     ''User-Agent'', ''Referer'', ''Origin'']"

definition strip_headers :: "http_request \<Rightarrow> http_request" where
  "strip_headers r = r\<lparr>hr_Header := fold map_del stripped_headers (hr_Header r)\<rparr>"

section \<open>The body reader\<close>







section \<open>The handler\<close>

text \<open>
  What the libraries answer: the credentials, the signer, whether the values of a \<open>Te\<close> header contain the
  token trailers. \<open>SignHTTP\<close> gets the request, the payload's hash, the service and the region and changes
  the request in place: the result is the request as it leaves it, whatever it replaced.
\<close>

record 'c sigv4_env =
  se_sha256 :: "bytes \<Rightarrow> string"
  se_creds :: "go_error + 'c"
  se_sign :: "'c \<Rightarrow> http_request \<Rightarrow> string \<Rightarrow> string \<Rightarrow> string \<Rightarrow> go_error + http_request"
  se_trailers :: "string list \<Rightarrow> bool"

text \<open>
  \<open>ReverseProxy.ServeHTTP\<close> up to the round trip, for \<open>NewSingleHostReverseProxy\<close> on a target without a path.
  The handler has deleted \<open>Connection\<close>, so no header is named by it and no upgrade is asked for.
\<close>

definition hop_headers :: "string list" where
  "hop_headers = [''Connection'', ''Proxy-Connection'', ''Keep-Alive'', ''Proxy-Authenticate'', ''Proxy-Authorization'',
     ''Te'', ''Trailer'', ''Transfer-Encoding'', ''Upgrade'']"

definition values_of :: "string \<Rightarrow> (string \<times> string list) list \<Rightarrow> string list" where
  "values_of name h = (case map_of h name of None \<Rightarrow> [] | Some vs \<Rightarrow> vs)"

definition proxied_headers ::
  "(string list \<Rightarrow> bool) \<Rightarrow> string option \<Rightarrow> (string \<times> string list) list \<Rightarrow> (string \<times> string list) list" where
  "proxied_headers trailers client h =
     (let h1 = fold map_del hop_headers h;
          h2 = (if trailers (values_of ''Te'' h) then map_put ''Te'' [''trailers''] h1 else h1);
          h3 = (case client of
              None \<Rightarrow> h2
            | Some addr \<Rightarrow> map_put ''X-Forwarded-For'' [Join (values_of ''X-Forwarded-For'' h2 @ [addr]) '', ''] h2)
      in if ''User-Agent'' \<in> set (keys h3) then h3 else map_put ''User-Agent'' [[]] h3)"

definition reverse_proxy :: "(string list \<Rightarrow> bool) \<Rightarrow> string \<Rightarrow> http_request \<Rightarrow> http_request" where
  "reverse_proxy trailers target r =
     r\<lparr>hr_Header := proxied_headers trailers (hr_RemoteIP r) (hr_Header r), hr_URL_Scheme := ''https'', hr_URL_Host := target,
       hr_URL_Path := (if HasPrefix (hr_URL_Path r) ''/'' then hr_URL_Path r else CHR ''/'' # hr_URL_Path r),
       hr_Body := (if hr_ContentLength r = 0 then None else hr_Body r)\<rparr>"

text \<open>The handler after the check of the body's error; \<open>Forwarded\<close> is what the transport is handed.\<close>

definition sign_and_forward :: "Sigv4Config \<Rightarrow> 'c sigv4_env \<Rightarrow> bytes option \<Rightarrow> http_request \<Rightarrow> http_result" where
  "sign_and_forward cfg env body r =
     (let payloadHash = se_sha256 env (case body of None \<Rightarrow> [] | Some b \<Rightarrow> b)
      in case se_creds env of
          Inl err \<Rightarrow> Http_error (''failed to get AWS credentials: '' @ error_text err)
        | Inr creds \<Rightarrow>
            let r = r\<lparr>hr_URL_Host := sc_RealHost cfg, hr_URL_Scheme := ''https''\<rparr>
            in case se_sign env creds r payloadHash (sc_AWSService cfg) (sc_AWSRegion cfg) of
                Inl err \<Rightarrow> Http_error (''failed to sign request: '' @ error_text err)
              | Inr r \<Rightarrow>
                  let r = r\<lparr>hr_Body := (case body of None \<Rightarrow> hr_Body r | Some b \<Rightarrow> Some b), hr_URL_Host := sc_TargetAddr cfg\<rparr>
                  in Forwarded (reverse_proxy (se_trailers env) (sc_TargetAddr cfg) r))"

text \<open>
  The steps of one request: prepare and read the body, which assigns the shared \<open>err\<close>; look at
  \<open>err\<close>; the rest. \<open>read\<close> is the body with the error of reading it.
\<close>

datatype sigv4_pc =
    V_read http_request
  | V_check http_request "bytes option"
  | V_done http_result

definition sigv4_step ::
  "Sigv4Config \<Rightarrow> 'c sigv4_env \<Rightarrow> (bytes \<times> go_error option) \<Rightarrow> sigv4_pc \<times> go_error option \<Rightarrow> sigv4_pc \<times> go_error option" where
  "sigv4_step cfg env read s =
     (case s of (pc, err) \<Rightarrow>
       (case pc of
          V_read r \<Rightarrow>
            let r = (strip_headers r)\<lparr>hr_Host := sc_RealHost cfg\<rparr>
            in (case hr_Body r of
                None \<Rightarrow> (V_done (sign_and_forward cfg env None r), err)
              | Some _ \<Rightarrow> (V_check r (Some (fst read)), snd read))
        | V_check r body \<Rightarrow>
            (case err of
               Some _ \<Rightarrow> (V_done (Http_error ''failed to read request body''), err)
             | None \<Rightarrow> (V_done (sign_and_forward cfg env body (r\<lparr>hr_Body := body\<rparr>)), err))
        | V_done res \<Rightarrow> (V_done res, err)))"

text \<open>A request that runs alone.\<close>

definition sigv4_handler :: "Sigv4Config \<Rightarrow> 'c sigv4_env \<Rightarrow> (bytes \<times> go_error option) \<Rightarrow> http_request \<Rightarrow> http_result" where
  "sigv4_handler cfg env read r =
     (case (sigv4_step cfg env read ^^ 2) (V_read r, None) of (V_done res, _) \<Rightarrow> res | _ \<Rightarrow> Http_error [])"

text \<open>
  Requests served at the same time, each on a goroutine of its own: a schedule says whose turn it is.
\<close>

definition sigv4_turn ::
  "Sigv4Config \<Rightarrow> 'c sigv4_env \<Rightarrow> (bytes \<times> go_error option) list \<Rightarrow> nat \<Rightarrow>
   sigv4_pc list \<times> go_error option \<Rightarrow> sigv4_pc list \<times> go_error option" where
  "sigv4_turn cfg env reads i s =
     (case s of (pcs, err) \<Rightarrow>
       (case sigv4_step cfg env (reads ! i) (pcs ! i, err) of (pc, err) \<Rightarrow> (pcs[i := pc], err)))"

definition sigv4_serve ::
  "Sigv4Config \<Rightarrow> 'c sigv4_env \<Rightarrow> (bytes \<times> go_error option) list \<Rightarrow> http_request list \<Rightarrow> nat list \<Rightarrow>
   sigv4_pc list" where
  "sigv4_serve cfg env reads rs schedule = fst (fold (sigv4_turn cfg env reads) schedule (map V_read rs, None))"

section \<open>Start, Stop and the choice of the proxy\<close>

text \<open>\<open>Start\<close>: the load of the AWS configuration and the listener may fail.\<close>

definition sigv4_Start :: "Sigv4Config \<Rightarrow> go_error option \<Rightarrow> go_error option \<Rightarrow> go_error option" where
  "sigv4_Start cfg load listen =
     (case load of
        Some err \<Rightarrow> Some (Errorf_w (''loading AWS config for profile '' @ sc_AWSProfile cfg) err)
      | None \<Rightarrow> map_option (Errorf_w (''sigv4 proxy listen on '' @ sc_ListenAddr cfg)) listen)"

text \<open>
  \<open>Stop\<close>. \<open>http.Server.Shutdown\<close> closes the listener and every connection without a request, then waits
  for the others until the context of two seconds is over; \<open>answered\<close> are the connections whose request
  was answered by then. What it returns is not looked at.
\<close>

record http_server =
  hs_listening :: bool
  hs_idle :: "nat list"
  hs_busy :: "nat list"

definition sigv4_Stop :: "nat list \<Rightarrow> http_server option \<Rightarrow> http_server option" where
  "sigv4_Stop answered server =
     map_option (\<lambda>hs. hs\<lparr>hs_listening := False, hs_idle := [], hs_busy := filter (\<lambda>c. c \<notin> set answered) (hs_busy hs)\<rparr>) server"

datatype started_proxy = Signing Sigv4Config | Plain Proxy

definition NewSigv4Proxy :: "ProxyConfig \<Rightarrow> Sigv4Config" where
  "NewSigv4Proxy cfg =
     \<lparr>sc_ListenAddr = ListenAddr cfg, sc_TargetAddr = TargetAddr cfg, sc_RealHost = RealHost cfg,
      sc_AWSProfile = px_AWSProfile cfg, sc_AWSRegion = px_AWSRegion cfg, sc_AWSService = px_Sigv4Service cfg\<rparr>"

definition real_NewProxy ::
  "ProxyConfig \<Rightarrow> go_error option \<Rightarrow> go_error option \<Rightarrow> go_error + started_proxy" where
  "real_NewProxy cfg load listen =
     (if px_Sigv4Service cfg \<noteq> [] then
        let c = NewSigv4Proxy cfg
        in case sigv4_Start c load listen of Some err \<Rightarrow> Inl err | None \<Rightarrow> Inr (Signing c)
      else case StartNew (ListenAddr cfg) listen of Inl err \<Rightarrow> Inl err | Inr p \<Rightarrow> Inr (Plain p))"

section \<open>What is forwarded\<close>

lemma fold_map_del: "fold map_del ks m = filter (\<lambda>e. fst e \<notin> set ks) m"
  by (induction ks arbitrary: m) (auto simp: map_del_def intro: filter_cong)

lemma strip_headers_eq:
  "strip_headers r = r\<lparr>hr_Header := filter (\<lambda>e. fst e \<notin> set stripped_headers) (hr_Header r)\<rparr>"
  by (simp add: strip_headers_def fold_map_del)

lemma sigv4_step_simps [simp]:
  "sigv4_step cfg env read (V_done res, err) = (V_done res, err)"
  "sigv4_step cfg env read (V_check r body, Some e) = (V_done (Http_error ''failed to read request body''), Some e)"
  "sigv4_step cfg env read (V_check r body, None) = (V_done (sign_and_forward cfg env body (r\<lparr>hr_Body := body\<rparr>)), None)"
  "sigv4_step cfg env read (V_read r, err) =
     (let r = (strip_headers r)\<lparr>hr_Host := sc_RealHost cfg\<rparr>
      in (case hr_Body r of
          None \<Rightarrow> (V_done (sign_and_forward cfg env None r), err)
        | Some _ \<Rightarrow> (V_check r (Some (fst read)), snd read)))"
  by (simp_all add: sigv4_step_def)

text \<open>The request handed to the signer.\<close>

definition to_sign :: "Sigv4Config \<Rightarrow> bytes \<Rightarrow> http_request \<Rightarrow> http_request" where
  "to_sign cfg body r =
     r\<lparr>hr_Header := filter (\<lambda>e. fst e \<notin> set stripped_headers) (hr_Header r), hr_Host := sc_RealHost cfg,
       hr_URL_Host := sc_RealHost cfg, hr_URL_Scheme := ''https'', hr_Body := map_option (\<lambda>_. body) (hr_Body r)\<rparr>"





lemma map_of_filter_keys: "map_of (filter (\<lambda>e. P (fst e)) m) k = (if P k then map_of m k else None)"
  by (induction m) auto














text \<open>
  The list of headers deleted before signing lacks hop-by-hop headers the reverse proxy deletes after
  it: the signer sees them, the cluster does not.
\<close>

lemma signed_then_dropped:
  "map_of (hr_Header (to_sign cfg body r)) ''Keep-Alive'' = map_of (hr_Header r) ''Keep-Alive''"
  "map_of (proxied_headers trailers client h) ''Keep-Alive'' = None"
proof -
  have "''Keep-Alive'' \<in> set hop_headers" by (simp add: hop_headers_def)
  then show "map_of (proxied_headers trailers client h) ''Keep-Alive'' = None"
    by (simp add: proxied_headers_def Let_def fold_map_del map_of_filter_keys [of "\<lambda>k. k \<notin> set hop_headers"] split: option.split)
qed (simp add: to_sign_def map_of_filter_keys [of "\<lambda>k. k \<notin> set stripped_headers"], simp add: stripped_headers_def)

text \<open>
  Requests served at the same time share one error variable. A request whose body broke off is
  refused when it runs alone, and one read in full is served; but if the other one finishes reading
  in between, the broken one is signed and forwarded with the part of the body that arrived, or the
  good one is refused.
\<close>

lemma sigv4_requests_share_an_error:
  "\<forall>ra rb. let a = ra\<lparr>hr_Body := Some x\<rparr>; b = rb\<lparr>hr_Body := Some y\<rparr>;
      serve = sigv4_serve cfg env [(part, Some e), (full, None)] [a, b];
      refused = V_done (Http_error ''failed to read request body'');
      good = (\<lambda>body r. V_done (sigv4_handler cfg env (body, None) r))
    in serve [0, 0, 1, 1] = [refused, good full b] \<and> serve [0, 1, 0, 1] = [good part a, good full b] \<and>
      serve [1, 0, 1, 0] = [refused, refused]"
  by (simp add: sigv4_serve_def sigv4_turn_def sigv4_handler_def eval_nat_numeral strip_headers_eq Let_def)

end
