(* ===== verification/Netwatch.thy ===== *)
theory Netwatch
  imports Go_Format Go_Channels Engine_Events "HOL-Library.List_Lexorder" "HOL-Library.Char_ord"
begin

text \<open>
  \<open>internal/netwatch/watcher.go\<close>: the watcher that turns a jump of the wall clock or a change of the
  local IPv4 addresses into an event on a channel of capacity one. An IP is \<open>net.IP\<close>, a slice of 4 or
  16 bytes; strings are ordered byte by byte, as \<open>slices.Sort\<close> orders them.
\<close>

record Event =
  ev_Reason :: string
  ev_Time :: instant

datatype net_addr = IPNet "8 word list" | Other_addr

text \<open>\<open>IP.To4\<close> of the standard library: four bytes, or the IPv4-mapped form of sixteen.\<close>

definition To4 :: "8 word list \<Rightarrow> 8 word list option" where
  "To4 i =
     (if length i = 4 then Some i
      else if length i = 16 \<and> take 12 i = replicate 10 0 @ [255, 255] then Some (drop 12 i)
      else None)"

definition IsLoopback4 :: "8 word list \<Rightarrow> bool" where
  "IsLoopback4 i \<longleftrightarrow> i ! 0 = 127"

definition quad :: "8 word list \<Rightarrow> ip" where
  "quad i = IPv4 (i ! 0) (i ! 1) (i ! 2) (i ! 3)"

text \<open>What the loop of \<open>ipv4Set\<close> takes from an address.\<close>

definition ipv4_text :: "net_addr \<Rightarrow> string option" where
  "ipv4_text a =
     (case a of
        IPNet i \<Rightarrow> (case To4 i of Some i4 \<Rightarrow> (if IsLoopback4 i4 then None else Some (ip_String (quad i4))) | None \<Rightarrow> None)
      | Other_addr \<Rightarrow> None)"

definition ipv4Set :: "net_addr list \<Rightarrow> string list" where
  "ipv4Set addrs = remdups_adj (sort (List.map_filter ipv4_text addrs))"

text \<open>\<open>lastTick\<close> is \<open>None\<close> for the zero time, \<open>lastAddrs\<close> for nil.\<close>

record Watcher =
  wt_interval :: duration
  wt_events :: "Event chan"
  lastTick :: "instant option"
  lastAddrs :: "string list option"

definition newWatcher :: "duration \<Rightarrow> Watcher" where
  "newWatcher interval = \<lparr>wt_interval = interval, wt_events = make_chan 1, lastTick = None, lastAddrs = None\<rparr>"

text \<open>\<open>t.Sub\<close> saturates.\<close>

definition time_Sub :: "instant \<Rightarrow> instant \<Rightarrow> duration" where
  "time_Sub t u = max int64_min (min int64_max (t - u))"

definition sleep_reason :: "instant \<Rightarrow> Watcher \<Rightarrow> string list" where
  "sleep_reason now w =
     (case lastTick w of
        None \<Rightarrow> []
      | Some t \<Rightarrow>
          let gap = time_Sub now t
          in if gap > wrap64 (2 * wt_interval w)
             then [''host resumed from sleep ('' @ Duration_String (round_second gap) @ '' since the last check)'']
             else [])"

definition change_reason :: "string list \<Rightarrow> Watcher \<Rightarrow> string list" where
  "change_reason current w =
     (case lastAddrs w of
        None \<Rightarrow> []
      | Some prev \<Rightarrow>
          if current \<noteq> prev
          then [''local addresses changed from ['' @ Join prev '' '' @ ''] to ['' @ Join current '' '' @ '']'']
          else [])"

definition tick :: "instant \<Rightarrow> go_error + net_addr list \<Rightarrow> Watcher \<Rightarrow> Watcher" where
  "tick now listing w =
     (let slept = sleep_reason now w;
          w1 = w\<lparr>lastTick := Some now\<rparr>;
          (changed, w2) =
            (case listing of
               Inl _ \<Rightarrow> ([], w1)
             | Inr addrs \<Rightarrow> let current = ipv4Set addrs in (change_reason current w1, w1\<lparr>lastAddrs := Some current\<rparr>));
          reasons = slept @ changed
      in if reasons = [] then w2
         else w2\<lparr>wt_events := chan_offer \<lparr>ev_Reason = Join reasons ''; '', ev_Time = now\<rparr> (wt_events w2)\<rparr>)"

text \<open>The ticks of \<open>Run\<close>, and the reader of the channel.\<close>

datatype watch_op = Tick instant "go_error + net_addr list" | Read

definition watch_step :: "watch_op \<Rightarrow> Watcher \<Rightarrow> Watcher" where
  "watch_step x w =
     (case x of
        Tick now listing \<Rightarrow> tick now listing w
      | Read \<Rightarrow> (case chan_poll (wt_events w) of None \<Rightarrow> w | Some (_, ch) \<Rightarrow> w\<lparr>wt_events := ch\<rparr>))"

text \<open>
  The daemon's interval, \<open>time.Duration(seconds) * time.Second\<close>, and the panic of \<open>time.NewTicker\<close>.
\<close>

definition watch_interval :: "int \<Rightarrow> duration" where
  "watch_interval secs = wrap64 (secs * second)"

definition NewTicker_panics :: "duration \<Rightarrow> bool" where
  "NewTicker_panics d \<longleftrightarrow> d \<le> 0"

section \<open>The set of addresses\<close>

text \<open>The addresses the watcher looks at: IPv4, in either form, and not loopback.\<close>

definition watched :: "net_addr list \<Rightarrow> 8 word list set" where
  "watched addrs = {q. \<exists>i. IPNet i \<in> set addrs \<and> To4 i = Some q \<and> \<not> IsLoopback4 q}"

lemma To4_length: "To4 i = Some q \<Longrightarrow> length q = 4"
  by (auto simp: To4_def split: if_splits)

lemma quad_inj: "length p = 4 \<Longrightarrow> length q = 4 \<Longrightarrow> quad p = quad q \<longleftrightarrow> p = q"
  by (auto simp: quad_def numeral_eq_Suc length_Suc_conv)

lemma watched_length: "q \<in> watched addrs \<Longrightarrow> length q = 4"
  by (auto simp: watched_def To4_length)

lemma set_map_filter: "set (List.map_filter f xs) = {y. \<exists>x\<in>set xs. f x = Some y}"
  by (induction xs) (auto split: option.splits)

lemma distinct_remdups_adj_sorted: "sorted xs \<Longrightarrow> distinct (remdups_adj xs)"
  by (induction xs rule: remdups_adj.induct) (auto simp: order_antisym_conv)

lemma ipv4_text_Some:
  "ipv4_text a = Some s \<longleftrightarrow> (\<exists>i q. a = IPNet i \<and> To4 i = Some q \<and> \<not> IsLoopback4 q \<and> s = ip_String (quad q))"
  by (auto simp: ipv4_text_def split: net_addr.splits option.splits)

lemma set_ipv4Set: "set (ipv4Set addrs) = (\<lambda>q. ip_String (quad q)) ` watched addrs"
  by (auto simp: ipv4Set_def watched_def set_map_filter ipv4_text_Some simp del: ip_String.simps)

lemma inj_texts: "inj_on (\<lambda>q. ip_String (quad q)) {q. length q = 4}"
  by (rule inj_onI) (simp add: ip_String_inj quad_inj)

lemma ipv4Set_eq: "ipv4Set a = ipv4Set b \<longleftrightarrow> watched a = watched b"
proof
  assume "ipv4Set a = ipv4Set b"
  then have "(\<lambda>q. ip_String (quad q)) ` watched a = (\<lambda>q. ip_String (quad q)) ` watched b"
    by (simp flip: set_ipv4Set)
  then show "watched a = watched b"
    by (subst (asm) inj_on_image_eq_iff [OF inj_texts]) (auto intro: watched_length)
next
  assume "watched a = watched b"
  then have "set (ipv4Set a) = set (ipv4Set b)" by (simp add: set_ipv4Set)
  moreover have "sorted (ipv4Set c) \<and> distinct (ipv4Set c)" for c
    by (simp add: ipv4Set_def distinct_remdups_adj_sorted sorted_remdups_adj)
  ultimately show "ipv4Set a = ipv4Set b" by (metis sorted_distinct_set_unique)
qed

section \<open>What the watcher reports\<close>

text \<open>
  The contract, on the history of what was observed: the last tick before, the last listing that
  succeeded, and whether a tick reports anything.
\<close>

fun last_tick :: "watch_op list \<Rightarrow> instant option" where
  "last_tick [] = None"
| "last_tick (Tick t l # xs) = (case last_tick xs of None \<Rightarrow> Some t | Some u \<Rightarrow> Some u)"
| "last_tick (Read # xs) = last_tick xs"

fun last_listing :: "watch_op list \<Rightarrow> net_addr list option" where
  "last_listing [] = None"
| "last_listing (Tick t l # xs) =
     (case last_listing xs of None \<Rightarrow> (case l of Inl _ \<Rightarrow> None | Inr a \<Rightarrow> Some a) | Some a \<Rightarrow> Some a)"
| "last_listing (Read # xs) = last_listing xs"

definition reports :: "duration \<Rightarrow> watch_op list \<Rightarrow> instant \<Rightarrow> go_error + net_addr list \<Rightarrow> bool" where
  "reports interval before now listing \<longleftrightarrow>
     (\<exists>t. last_tick before = Some t \<and> time_Sub now t > wrap64 (2 * interval)) \<or>
     (\<exists>a b. last_listing before = Some a \<and> listing = Inr b \<and> watched a \<noteq> watched b)"

text \<open>The reports nobody read, by the time of their ticks: every read takes all of them.\<close>

fun unread :: "duration \<Rightarrow> watch_op list \<Rightarrow> watch_op list \<Rightarrow> instant list \<Rightarrow> instant list" where
  "unread interval before [] pending = pending"
| "unread interval before (Tick t l # xs) pending =
     unread interval (before @ [Tick t l]) xs (if reports interval before t l then pending @ [t] else pending)"
| "unread interval before (Read # xs) pending = unread interval (before @ [Read]) xs []"

lemma last_tick_append:
  "last_tick (xs @ ys) = (case last_tick ys of None \<Rightarrow> last_tick xs | Some t \<Rightarrow> Some t)"
  by (induction xs rule: last_tick.induct) (auto split: option.splits)

lemma last_listing_append:
  "last_listing (xs @ ys) = (case last_listing ys of None \<Rightarrow> last_listing xs | Some a \<Rightarrow> Some a)"
  by (induction xs rule: last_listing.induct) (auto split: option.splits)

definition watch_rel :: "duration \<Rightarrow> watch_op list \<Rightarrow> instant list \<Rightarrow> Watcher \<Rightarrow> bool" where
  "watch_rel interval before pending w \<longleftrightarrow> wt_interval w = interval \<and> lastTick w = last_tick before \<and>
     lastAddrs w = map_option ipv4Set (last_listing before) \<and> \<not> ch_closed (wt_events w) \<and> ch_cap (wt_events w) = 1 \<and>
     map ev_Time (ch_buf (wt_events w)) = take 1 pending"

text \<open>The watcher simulates its contract: one slot stands for all that is pending.\<close>

lemma chan_offer_slot:
  "\<not> ch_closed ch \<Longrightarrow> ch_cap ch = 1 \<Longrightarrow> map f (ch_buf ch) = take 1 pending \<Longrightarrow>
   \<not> ch_closed (chan_offer e ch) \<and> ch_cap (chan_offer e ch) = 1 \<and>
   map f (ch_buf (chan_offer e ch)) = take 1 (pending @ [f e])"
  by (cases pending) (auto simp: chan_offer_def try_send_def)

lemma tick_rel:
  assumes "watch_rel interval before pending w"
  shows "watch_rel interval (before @ [Tick t l]) (if reports interval before t l then pending @ [t] else pending) (tick t l w)"
proof -
  have slept: "sleep_reason t w = [] \<longleftrightarrow> \<not> (\<exists>u. last_tick before = Some u \<and> time_Sub t u > wrap64 (2 * interval))"
    using assms by (auto simp: sleep_reason_def watch_rel_def Let_def split: option.splits)
  have changed: "change_reason (ipv4Set b) (w\<lparr>lastTick := x\<rparr>) = [] \<longleftrightarrow>
      \<not> (\<exists>a. last_listing before = Some a \<and> watched a \<noteq> watched b)" for b x
    using assms by (auto simp: change_reason_def watch_rel_def ipv4Set_eq split: option.splits)
  show ?thesis
    using assms chan_offer_slot [of "wt_events w" ev_Time pending] slept changed
    by (cases l) (auto simp: tick_def Let_def reports_def watch_rel_def last_tick_append last_listing_append)
qed

lemma read_rel:
  assumes "watch_rel interval before pending w"
  shows "watch_rel interval (before @ [Read]) [] (watch_step Read w)"
  using assms
  by (cases pending)
    (auto simp: watch_rel_def watch_step_def chan_poll_def chan_recv_def last_tick_append last_listing_append split: list.splits)

lemma watch_run_rel:
  "watch_rel interval before pending w \<Longrightarrow>
   watch_rel interval (before @ ops) (unread interval before ops pending) (fold watch_step ops w)"
proof (induction ops arbitrary: before pending w)
  case (Cons x xs)
  show ?case
  proof (cases x)
    case (Tick t l)
    then show ?thesis using Cons.IH [OF tick_rel [OF Cons.prems]] by (simp add: watch_step_def)
  next
    case Read
    then show ?thesis using Cons.IH [OF read_rel [OF Cons.prems]] by simp
  qed
qed simp

text \<open>
  C38: However ticks and reads interleave, nothing is lost and nothing is made up: an event waits
  exactly when, since the last read, some tick found that the host had slept or that the set of its
  non-loopback IPv4 addresses differed from the last one listed, whatever the order, form or
  repetition of the listing and whatever listings failed in between; the event carries the time of
  the first such tick, and there is never more than one.
\<close>

theorem watcher_reports_exactly:
  "map ev_Time (ch_buf (wt_events (fold watch_step ops (newWatcher interval)))) = take 1 (unread interval [] ops [])"
proof -
  have "watch_rel interval [] [] (newWatcher interval)"
    by (simp add: watch_rel_def newWatcher_def make_chan_def)
  from watch_run_rel [OF this, of ops] show ?thesis by (simp add: watch_rel_def)
qed

text \<open>
  The configured interval is the watcher's for everything up to 4611686018 seconds, and a sleep of
  more than two intervals is seen; 9223372037 seconds, which the configuration accepts, wrap to a
  negative duration and the ticker panics.
\<close>

lemma watch_interval_wraps:
  "(\<forall>secs. 0 < secs \<and> secs \<le> 4611686018 \<longrightarrow> watch_interval secs = secs * second \<and>
      wrap64 (2 * watch_interval secs) = 2 * secs * second \<and> \<not> NewTicker_panics (watch_interval secs)) \<and>
   NewTicker_panics (watch_interval 9223372037)"
  by (auto simp: watch_interval_def NewTicker_panics_def wrap64_id int64_min_def int64_max_def wrap64_def)

end
