(* ===== verification/Network.thy ===== *)
theory Network
  imports Netwatch Resolver Engine
begin

text \<open>
  \<open>internal/daemon/network.go\<close>: the follower that reacts to the watcher's events, with the resolver
  and the engine it was given in \<open>cmd/daemon.go\<close>. \<open>hn_stopped\<close> records the sessions
  \<open>Engine.DropSessions\<close> stopped, by instance and number; the daemon's log lines are kept in
  \<open>hn_log\<close>.
\<close>

record NetworkFollower =
  hn_watcher :: Watcher
  hn_dns :: Resolver
  hn_engine :: Engine
  hn_stopped :: "(nat \<times> nat) list"
  hn_log :: "string list"

definition RefreshUpstream :: "go_error + string list \<Rightarrow> NetworkFollower \<Rightarrow> NetworkFollower" where
  "RefreshUpstream discover f =
     (case discover of
        Inl err \<Rightarrow> f\<lparr>hn_log := hn_log f @ [''DNS forwarding unchanged (discover upstream: '' @ error_text err @ '')'']\<rparr>
      | Inr servers \<Rightarrow>
          let f = f\<lparr>hn_dns := SetUpstream servers (hn_dns f)\<rparr>
          in if servers = [] then f\<lparr>hn_log := hn_log f @ [''DNS forwarding disabled (no upstream resolvers found)'']\<rparr>
             else f\<lparr>hn_log := hn_log f @ [''DNS forwarding enabled (upstream: '' @ slice_text servers @ '')'']\<rparr>)"

text \<open>One turn of \<open>Follow\<close>'s loop; without an event it blocks.\<close>

definition follow_step :: "go_error + string list \<Rightarrow> instant \<Rightarrow> NetworkFollower \<Rightarrow> NetworkFollower option" where
  "follow_step discover now f =
     (case chan_poll (wt_events (hn_watcher f)) of
        None \<Rightarrow> None
      | Some (evt, ch) \<Rightarrow>
          let f = f\<lparr>hn_watcher := (hn_watcher f)\<lparr>wt_events := ch\<rparr>,
                hn_log := hn_log f @ [''network event: '' @ ev_Reason evt]\<rparr>;
              f = RefreshUpstream discover f;
              e = hn_engine f
          in Some (f\<lparr>hn_stopped := hn_stopped f @ dropped e,
               hn_engine := e\<lparr>e_emitted := e_emitted e @ [DropSessions_log now (ev_Reason evt) e]\<rparr>\<rparr>))"

lemma RefreshUpstream_frame [simp]:
  "hn_watcher (RefreshUpstream d f) = hn_watcher f" "hn_engine (RefreshUpstream d f) = hn_engine f"
  "hn_stopped (RefreshUpstream d f) = hn_stopped f"
  "hn_dns (RefreshUpstream d f) = (case d of Inl _ \<Rightarrow> hn_dns f | Inr servers \<Rightarrow> SetUpstream servers (hn_dns f))"
  by (auto simp: RefreshUpstream_def Let_def split: sum.splits)

text \<open>The sessions of the connected instances, one for each.\<close>

lemma set_dropped:
  "set (dropped e) = {(n, k). \<exists>key. (key, n) \<in> set (instances e) \<and> si_state (objs e ! n) = Connected \<and>
     si_session (objs e ! n) = Some k}"
  by (force simp: dropped_def List.map_filter_def Let_def split: if_splits)

lemma distinct_dropped: "distinct (map snd (instances e)) \<Longrightarrow> distinct (dropped e)"
proof -
  have "map fst (List.map_filter (\<lambda>(key, n). let s = objs e ! n in
        if si_state s = Connected then map_option (Pair n) (si_session s) else None) ms) =
      filter (\<lambda>n. si_state (objs e ! n) = Connected \<and> si_session (objs e ! n) \<noteq> None) (map snd ms)" for ms
    by (induction ms) (auto simp: Let_def)
  then have "map fst (dropped e) =
      filter (\<lambda>n. si_state (objs e ! n) = Connected \<and> si_session (objs e ! n) \<noteq> None) (map snd (instances e))"
    by (simp only: dropped_def)
  then show "distinct (map snd (instances e)) \<Longrightarrow> distinct (dropped e)"
    using distinct_filter distinct_map [of fst "dropped e"] by simp
qed

text \<open>The follower is blocked exactly as long as the watcher has nothing to report.\<close>

lemma follower_runs:
  assumes "hn_watcher f = fold watch_step ops (newWatcher interval)"
  shows "follow_step discover now f = None \<longleftrightarrow> unread interval [] ops [] = []"
proof -
  let ?ch = "wt_events (hn_watcher f)"
  have "map ev_Time (ch_buf ?ch) = take 1 (unread interval [] ops [])"
    using watch_run_rel [of interval "[]" "[]" "newWatcher interval" ops]
    by (simp add: assms watch_rel_def newWatcher_def make_chan_def)
  then have "ch_buf ?ch = [] \<longleftrightarrow> unread interval [] ops [] = []"
    by (metis map_is_Nil_conv take_eq_Nil zero_neq_one)
  moreover have "follow_step discover now f = None \<longleftrightarrow> ch_buf ?ch = []"
    by (auto simp: follow_step_def chan_poll_def chan_recv_def Let_def split: list.splits)
  ultimately show ?thesis by simp
qed

text \<open>
  A change of the network is followed: whenever the watcher found one since its events were last
  read, the follower's next turn leaves the resolver forwarding to exactly the servers it could
  discover, or to the old ones when it could not read them, keeps every name holepunch answers for,
  and has stopped the session of every connected service, each of them once, and no other; with no
  change found it does nothing.
\<close>

lemma network_change_followed:
  assumes "hn_watcher f = fold watch_step ops (newWatcher interval)"
    and "distinct (map snd (instances (hn_engine f)))"
  shows "case follow_step discover now f of
      None \<Rightarrow> unread interval [] ops [] = []
    | Some f' \<Rightarrow> unread interval [] ops [] \<noteq> [] \<and>
        hn_watcher f' = fold watch_step (ops @ [Read]) (newWatcher interval) \<and>
        upstream (hn_dns f') = (case discover of Inl _ \<Rightarrow> upstream (hn_dns f) | Inr servers \<Rightarrow> servers) \<and>
        records (hn_dns f') = records (hn_dns f) \<and>
        (\<exists>stopped. hn_stopped f' = hn_stopped f @ stopped \<and> distinct stopped \<and>
          set stopped = {(n, k). \<exists>key. (key, n) \<in> set (instances (hn_engine f)) \<and>
            si_state (objs (hn_engine f) ! n) = Connected \<and> si_session (objs (hn_engine f) ! n) = Some k})"
proof (cases "follow_step discover now f")
  case None
  then show ?thesis using follower_runs [OF assms(1)] by simp
next
  case (Some f')
  then obtain evt ch where poll: "chan_poll (wt_events (hn_watcher f)) = Some (evt, ch)"
    by (auto simp: follow_step_def split: option.splits)
  show ?thesis
    using Some follower_runs [OF assms(1), of discover now] distinct_dropped [OF assms(2)] poll
    by (auto simp: follow_step_def Let_def SetUpstream_def set_dropped watch_step_def
        simp flip: assms(1) split: sum.splits)
qed


text \<open>A daemon with one connected service, whose host slept for an hour.\<close>

definition after_sleep :: "Engine \<Rightarrow> serviceInstance \<Rightarrow> NetworkFollower" where
  "after_sleep e s =
     \<lparr>hn_watcher = fold watch_step [Tick 0 (Inr []), Tick (3600 * second) (Inr [])] (newWatcher (10 * second)),
      hn_dns = SetUpstream [''old:53''] resolver_New,
      hn_engine = e\<lparr>instances := [(''dev/db'', 0)], objs := [s\<lparr>si_state := Connected, si_session := Some 7\<rparr>]\<rparr>,
      hn_stopped = [], hn_log = []\<rparr>"

lemma network_change_followed_witness:
  "\<forall>e s. \<exists>f'. follow_step (Inr [''new:53'']) 0 (after_sleep e s) = Some f' \<and> upstream (hn_dns f') = [''new:53''] \<and>
     set (hn_stopped f') = {(0, 7)}"
proof (rule allI, rule allI)
  fix e s
  let ?f = "after_sleep e s" and ?d = "Inr [''new:53''] :: go_error + string list"
  have unread: "unread (10 * second) [] [Tick 0 (Inr []), Tick (3600 * second) (Inr [])] [] = [3600 * second]"
    by (simp add: reports_def time_Sub_def wrap64_def int64_min_def int64_max_def)
  have watcher: "hn_watcher ?f = fold watch_step [Tick 0 (Inr []), Tick (3600 * second) (Inr [])] (newWatcher (10 * second))"
    and distinct: "distinct (map snd (instances (hn_engine ?f)))" and none_yet: "hn_stopped ?f = []"
    by (simp_all add: after_sleep_def del: fold.simps)
  have one: "{(n, k). \<exists>key. (key, n) \<in> set (instances (hn_engine ?f)) \<and>
      si_state (objs (hn_engine ?f) ! n) = Connected \<and> si_session (objs (hn_engine ?f) ! n) = Some k} = {(0, 7)}"
    by (auto simp: after_sleep_def)
  note T = network_change_followed [OF watcher distinct, of ?d 0, unfolded unread one]
  show "\<exists>f'. follow_step ?d 0 ?f = Some f' \<and> upstream (hn_dns f') = [''new:53''] \<and> set (hn_stopped f') = {(0, 7)}"
  proof (cases "follow_step ?d 0 ?f")
    case None
    from T show ?thesis unfolding None option.case by (rule notE [rotated]) (rule list.distinct)
  next
    case (Some f')
    from T [unfolded Some option.case sum.case] obtain stopped
      where "upstream (hn_dns f') = [''new:53'']" "hn_stopped f' = hn_stopped ?f @ stopped" "set stopped = {(0, 7)}"
      by (elim conjE exE) (rule that)
    then show ?thesis using Some none_yet by simp
  qed
qed

text \<open>
  The daemon discovers with its own listening address left out, at start and after every change of the network:
  whatever the candidate files said in any of the rounds, no query is ever forwarded to a server on
  the resolver's own address.
\<close>

definition defaultResolverAddr :: string where
  "defaultResolverAddr = ''127.0.0.1:15353''"

lemma defaultResolverAddr_split: "SplitHostPort defaultResolverAddr = Some (''127.0.0.1'', ''15353'')"
  by code_simp

lemma upstreams_never_self:
  assumes "list_all (list_all (plain_config \<circ> snd)) rounds" and "upstream (hn_dns f) = []"
    and "s \<in> set (upstream (hn_dns (fold (\<lambda>paths. RefreshUpstream (discoverFromFirst paths defaultResolverAddr)) rounds f)))"
  shows "\<exists>host p. SplitHostPort s = Some (host, p) \<and> host \<noteq> ''127.0.0.1''"
proof -
  let ?ok = "\<lambda>f. \<forall>s \<in> set (upstream (hn_dns f)). \<exists>host p. SplitHostPort s = Some (host, p) \<and> host \<noteq> ''127.0.0.1''"
  have addr: "JoinHostPort ''127.0.0.1'' ''15353'' = defaultResolverAddr"
    and self: "bracket_free ''127.0.0.1''" "plain_port ''15353''"
    by code_simp+
  have turn: "?ok (RefreshUpstream (discoverFromFirst paths defaultResolverAddr) f)"
    if "list_all (plain_config \<circ> snd) paths" "?ok f" for paths f
    using that discovered_not_self [of paths "''127.0.0.1''" "''15353''"] self
    by (auto simp: addr SetUpstream_def split: sum.splits)
  have run: "?ok (fold (\<lambda>paths. RefreshUpstream (discoverFromFirst paths defaultResolverAddr)) rounds f)"
    if "list_all (list_all (plain_config \<circ> snd)) rounds" "?ok f" for f
    using that
  proof (induction rounds arbitrary: f)
    case (Cons paths rounds)
    then have "?ok (RefreshUpstream (discoverFromFirst paths defaultResolverAddr) f)" by (intro turn) (simp_all add: o_def)
    with Cons show ?case by (simp del: RefreshUpstream_frame)
  qed simp
  have "?ok f" by (simp add: assms(2))
  from run [OF assms(1) this] assms(3) show ?thesis by blast
qed

end
