(* ===== verification/Probing.thy ===== *)
theory Probing
  imports Ip_Allocator
begin

text \<open>
  The addresses linear probing can ever reach. \<open>holepunch setup\<close> allocates an address for every
  configured service at once and makes aliases for them; the daemon allocates for the services that
  run, in any order, and releases. Although a service then often gets another address than setup gave
  it, it never gets one outside the set setup made. The argument counts, for each slot, the keys whose
  probing passed it, which no history can push above the count of the full table.
\<close>

section \<open>Probing on a line\<close>

text \<open>
  \<open>h\<close> is where a key starts, \<open>f\<close> where the full table holds it, \<open>g\<close> where a table at hand does.
\<close>

definition crossing :: "('k \<Rightarrow> nat) \<Rightarrow> ('k \<rightharpoonup> nat) \<Rightarrow> nat \<Rightarrow> 'k set" where
  "crossing h g s = {k. h k < s \<and> (\<exists>p. g k = Some p \<and> s \<le> p)}"

definition full_table :: "('k \<Rightarrow> nat) \<Rightarrow> ('k \<rightharpoonup> nat) \<Rightarrow> bool" where
  "full_table h f \<longleftrightarrow> finite (dom f) \<and> inj_on f (dom f) \<and>
     (\<forall>k p. f k = Some p \<longrightarrow> h k \<le> p \<and> (\<forall>s. h k \<le> s \<and> s \<le> p \<longrightarrow> s \<in> ran f))"

definition within :: "('k \<Rightarrow> nat) \<Rightarrow> ('k \<rightharpoonup> nat) \<Rightarrow> ('k \<rightharpoonup> nat) \<Rightarrow> bool" where
  "within h f g \<longleftrightarrow> dom g \<subseteq> dom f \<and> ran g \<subseteq> ran f \<and> (\<forall>k p. g k = Some p \<longrightarrow> h k \<le> p) \<and>
     (\<forall>s. card (crossing h g s) \<le> card (crossing h f s))"

lemma crossing_dom: "crossing h g s \<subseteq> dom g"
  by (auto simp: crossing_def)

lemma finite_crossing: "finite (dom g) \<Longrightarrow> finite (crossing h g s)"
  by (rule finite_subset [OF crossing_dom])

lemma within_empty [simp]: "within h f Map.empty"
  by (simp add: within_def crossing_def)

lemma within_dom: "within h f g \<Longrightarrow> g k = Some p \<Longrightarrow> k \<in> dom f"
  by (auto simp: within_def)

lemma within_finite: "full_table h f \<Longrightarrow> within h f g \<Longrightarrow> finite (dom g)"
  by (auto simp: within_def full_table_def intro: finite_subset)

lemma within_remove:
  assumes "full_table h f" and "within h f g"
  shows "within h f (g(k := None))"
proof -
  have "card (crossing h (g(k := None)) s) \<le> card (crossing h g s)" for s
    by (rule card_mono [OF finite_crossing [OF within_finite [OF assms]]]) (auto simp: crossing_def)
  then have "card (crossing h (g(k := None)) s) \<le> card (crossing h f s)" for s
    using assms(2) unfolding within_def by (meson order_trans)
  moreover have "ran (g(k := None)) \<subseteq> ran g" by (auto simp: ran_def)
  ultimately show ?thesis
    using assms(2) unfolding within_def by auto
qed

text \<open>What passes a slot in the full table, one slot further.\<close>

lemma full_crossing_Suc:
  assumes "full_table h f"
  shows "card (crossing h f t) + card {k \<in> dom f. h k = t} \<le> Suc (card (crossing h f (Suc t)))"
proof -
  have fin: "finite (dom f)" using assms by (simp add: full_table_def)
  let ?here = "{k. f k = Some t}" and ?start = "{k \<in> dom f. h k = t}"
  have "inj_on f (dom f)" using assms by (simp add: full_table_def)
  then have here: "?here \<subseteq> {k}" if "f k = Some t" for k
    using that by (auto intro: inj_onD [of f "dom f"])
  have one: "card ?here \<le> 1"
  proof (cases "?here = {}")
    case False
    then obtain k where "f k = Some t" by auto
    from here [OF this] have "card ?here \<le> card {k}" by (rule card_mono [rotated]) simp
    then show ?thesis by simp
  qed simp
  have "?here \<subseteq> dom f" by auto
  then have fin_here: "finite ?here" using fin by (rule finite_subset)
  have "crossing h f t \<union> ?start \<subseteq> crossing h f (Suc t) \<union> ?here"
    using assms by (force simp: crossing_def full_table_def)
  then have "card (crossing h f t \<union> ?start) \<le> card (crossing h f (Suc t) \<union> ?here)"
    by (rule card_mono [rotated]) (simp add: finite_crossing fin fin_here)
  also have "\<dots> \<le> card (crossing h f (Suc t)) + 1" using card_Un_le [of "crossing h f (Suc t)" ?here] one by linarith
  finally show ?thesis
    by (subst card_Un_disjoint [symmetric]) (simp_all add: finite_crossing fin, auto simp: crossing_def)
qed

text \<open>An insertion by probing keeps every count below that of the full table.\<close>

lemma crossing_insert:
  assumes full: "full_table h f" and g: "within h f g" and k: "k \<in> dom f" "g k = None"
    and run: "\<And>s. h k \<le> s \<Longrightarrow> s < p \<Longrightarrow> s \<in> ran g"
  shows "card (crossing h (g(k \<mapsto> p)) s) \<le> card (crossing h f s)"
proof (induction s)
  case 0
  show ?case by (simp add: crossing_def)
next
  case (Suc t)
  let ?g = "g(k \<mapsto> p)" and ?start = "{x \<in> dom f. h x = t}"
  have fin: "finite (dom ?g)" "finite (dom f)"
    using within_finite [OF full g] full by (simp_all add: full_table_def del: dom_fun_upd) (simp add: dom_fun_upd)
  show ?case
  proof (cases "h k \<le> t \<and> t < p")
    case True
    then obtain q where q: "g q = Some t" using run by (auto simp: ran_def)
    with k(2) have "q \<noteq> k" by auto
    have "q \<in> dom f" "h q \<le> t" using q g by (auto simp: within_def)
    have past: "x \<in> crossing h ?g t \<union> ?start" if "h x \<le> t" "x \<in> dom f" "?g x = Some r" "t \<le> r" for x r
      using that unfolding crossing_def by auto
    have "crossing h ?g (Suc t) \<subseteq> crossing h ?g t \<union> ?start"
      using past within_dom [OF g] k(1) unfolding crossing_def
      by (smt (verit) fun_upd_apply less_Suc_eq_le mem_Collect_eq Suc_leD subsetI)
    moreover have "q \<in> crossing h ?g t \<union> ?start"
      using q \<open>q \<noteq> k\<close> \<open>q \<in> dom f\<close> \<open>h q \<le> t\<close> by (intro past [of q t]) simp_all
    ultimately have "insert q (crossing h ?g (Suc t)) \<subseteq> crossing h ?g t \<union> ?start" by simp
    then have "card (insert q (crossing h ?g (Suc t))) \<le> card (crossing h ?g t \<union> ?start)"
      by (rule card_mono [rotated]) (simp add: finite_crossing [OF fin(1)] fin(2))
    then have "card (insert q (crossing h ?g (Suc t))) \<le> card (crossing h ?g t) + card ?start"
      using card_Un_le by (rule order_trans)
    moreover have "q \<notin> crossing h ?g (Suc t)" using q \<open>q \<noteq> k\<close> by (auto simp: crossing_def)
    from this have "card (insert q (crossing h ?g (Suc t))) = Suc (card (crossing h ?g (Suc t)))"
      by (rule card_insert_disjoint [OF finite_crossing [OF fin(1)]])
    ultimately show ?thesis using Suc.IH full_crossing_Suc [OF full, of t] by linarith
  next
    case False
    then have "crossing h ?g (Suc t) = crossing h g (Suc t)"
      using k(2) by (auto simp: crossing_def)
    then show ?thesis using g by (simp only: within_def)
  qed
qed

lemma within_insert:
  assumes full: "full_table h f" and g: "within h f g" and k: "k \<in> dom f" "g k = None" and "h k \<le> p"
    and run: "\<And>s. h k \<le> s \<Longrightarrow> s < p \<Longrightarrow> s \<in> ran g"
  shows "within h f (g(k \<mapsto> p))"
proof -
  have count: "card (crossing h (g(k \<mapsto> p)) s) \<le> card (crossing h f s)" for s
    using run by (rule crossing_insert [OF full g k])
  have "p \<in> ran f"
  proof (cases "h k = p")
    case True
    with full k(1) show ?thesis by (auto simp: full_table_def)
  next
    case False
    with \<open>h k \<le> p\<close> have "k \<in> crossing h (g(k \<mapsto> p)) p" by (simp add: crossing_def)
    then have "card (crossing h (g(k \<mapsto> p)) p) > 0"
      using within_finite [OF full g] by (auto simp: card_gt_0_iff finite_crossing)
    with count [of p] have "0 < card (crossing h f p)" by linarith
    then have "crossing h f p \<noteq> {}" by auto
    with full show ?thesis by (auto simp: crossing_def full_table_def)
  qed
  then show ?thesis using g k \<open>h k \<le> p\<close> count by (auto simp: within_def ran_def)
qed

section \<open>Unrolling the ring\<close>

text \<open>The distance of an octet from \<open>oct b\<close>; the ring is cut before \<open>oct b\<close>.\<close>

definition coord :: "nat \<Rightarrow> 8 word \<Rightarrow> nat" where
  "coord b w = (THE i. i < 253 \<and> w = oct (b + i))"

lemma oct_add_eq_iff: "i < 253 \<Longrightarrow> j < 253 \<Longrightarrow> oct (b + i) = oct (b + j) \<longleftrightarrow> i = j"
proof -
  have le: "i = j" if "i \<le> j" "j < 253" "oct (b + i) = oct (b + j)" for i j
  proof -
    have "(b + j) mod 253 = (b + i) mod 253" using that(3) by (simp add: oct_eq_iff)
    then have "253 dvd b + j - (b + i)" using that(1) by (subst (asm) mod_eq_dvd_iff_nat) simp_all
    then have "253 dvd j - i" by simp
    then show ?thesis using that(1,2) by (auto dest: dvd_imp_le)
  qed
  assume "i < 253" "j < 253"
  then show ?thesis using le [of i j] le [of j i] by (cases "i \<le> j") auto
qed

lemma coord_oct [simp]: "i < 253 \<Longrightarrow> coord b (oct (b + i)) = i"
  unfolding coord_def by (rule the_equality) (auto simp: oct_add_eq_iff)

lemma coord_lt_and_oct:
  assumes "w \<in> octets"
  shows "coord b w < 253 \<and> oct (b + coord b w) = w"
proof -
  obtain i where "i < 253" "w = oct (b + i)" using assms octets_from [of b] by auto
  then show ?thesis by simp
qed

lemma coord_inj: "v \<in> octets \<Longrightarrow> w \<in> octets \<Longrightarrow> coord b v = coord b w \<longleftrightarrow> v = w"
  using coord_lt_and_oct by metis

lemma coord_Suc: "coord b (oct n) \<noteq> 252 \<Longrightarrow> coord b (oct (Suc n)) = Suc (coord b (oct n))"
proof -
  assume ne: "coord b (oct n) \<noteq> 252"
  let ?i = "coord b (oct n)"
  have "?i < 253" and eq: "oct (b + ?i) = oct n" using coord_lt_and_oct [of "oct n" b] by simp_all
  then have "Suc ?i < 253" using ne by simp
  moreover have "oct (Suc n) = oct (b + Suc ?i)" using eq oct_Suc [of n] oct_Suc [of "b + ?i"] by simp
  ultimately show ?thesis using coord_oct [of "Suc ?i" b] by simp
qed

lemma coord_run: "(\<And>j. j < i \<Longrightarrow> coord b (oct (n + j)) \<noteq> 252) \<Longrightarrow> coord b (oct (n + i)) = coord b (oct n) + i"
proof (induction i)
  case (Suc i)
  then have "coord b (oct (n + i)) = coord b (oct n) + i" by simp
  then show ?case using coord_Suc [of b "n + i"] Suc.prems [of i] by simp
qed simp

section \<open>Tables of the allocator\<close>

text \<open>Every key sits at the end of a run of taken octets that starts at its hash.\<close>

definition start_of :: "string \<Rightarrow> nat" where
  "start_of key = unat (fnv32a key)"

definition probed :: "Allocator \<Rightarrow> bool" where
  "probed a \<longleftrightarrow> (\<forall>(w, key) \<in> set (assigned a). \<exists>i. w = oct (start_of key + i) \<and>
     (\<forall>j\<le>i. oct (start_of key + j) \<in> set (keys (assigned a))))"

definition owners :: "Allocator \<Rightarrow> string set" where
  "owners a = snd ` set (assigned a)"

lemma owners_owner_octet: "key \<in> owners a \<longleftrightarrow> owner_octet a key \<noteq> None"
  by (simp add: owners_def owner_octet_None)

lemma probed_New [simp]: "probed alloc_New"
  by (simp add: probed_def alloc_New_def)

text \<open>What an allocation of a new key does to the table.\<close>

lemma Allocate_step:
  assumes "alloc_ok a"
  obtains
    (same) r where "Allocate key a = (r, a)" "(\<exists>i. r = Inr i) \<longleftrightarrow> key \<in> owners a"
  | (new) i where "i < 253" "key \<notin> owners a" "oct (start_of key + i) \<notin> set (keys (assigned a))"
      "\<And>j. j < i \<Longrightarrow> oct (start_of key + j) \<in> set (keys (assigned a))"
      "Allocate key a = (Inr (loopback (oct (start_of key + i))), a\<lparr>assigned := assigned a @ [(oct (start_of key + i), key)]\<rparr>)"
proof (cases "owner_octet a key = None \<and> length (assigned a) < 253")
  case True
  then obtain i where "i < 253" "map_of (assigned a) (oct (start_of key + i)) = None"
    "\<And>j. j < i \<Longrightarrow> map_of (assigned a) (oct (start_of key + j)) \<noteq> None"
    "alloc_Allocate key a = Some (Inr (loopback (oct (start_of key + i))), a\<lparr>assigned := assigned a @ [(oct (start_of key + i), key)]\<rparr>)"
    using Allocate_new [OF assms] unfolding start_of_def by metis
  with True show ?thesis
    by (intro new [of i]) (auto simp: Allocate_def map_of_eq_None_keys owners_owner_octet)
next
  case False
  then show ?thesis
    by (cases rule: Allocate_cases [OF assms, of key]) (use same in \<open>auto simp: owners_owner_octet\<close>)
qed

lemma probed_Allocate [inv_intros]:
  assumes "alloc_ok a" and "probed a"
  shows "probed (snd (Allocate key a))"
proof (cases rule: Allocate_step [OF assms(1), of key, case_names same new])
  case (new i)
  have "\<exists>i'. w = oct (start_of k + i') \<and> (\<forall>j\<le>i'. oct (start_of k + j) \<in> insert v (set (keys (assigned a))))"
    if "(w, k) \<in> set (assigned a)" for w k v
    using assms(2) that unfolding probed_def by blast
  moreover have "oct (start_of key + j) \<in> insert (oct (start_of key + i)) (set (keys (assigned a)))" if "j \<le> i" for j
    using new(4) [of j] that by (cases "j = i") auto
  ultimately show ?thesis by (auto simp: probed_def new(5))
qed (simp add: assms)

section \<open>Nothing outside the full table\<close>

definition table :: "nat \<Rightarrow> Allocator \<Rightarrow> string \<rightharpoonup> nat" where
  "table b a = map_option (coord b) \<circ> owner_octet a"

definition start_coord :: "nat \<Rightarrow> string \<Rightarrow> nat" where
  "start_coord b key = coord b (oct (start_of key))"

lemma dom_table: "dom (table b a) = owners a"
  by (auto simp: table_def owners_owner_octet)

lemma ran_table: "alloc_ok a \<Longrightarrow> ran (table b a) = coord b ` set (keys (assigned a))"
  by (force simp: table_def ran_def owner_octet_Some keys_def)

lemma keys_octets: "alloc_ok a \<Longrightarrow> w \<in> set (keys (assigned a)) \<Longrightarrow> w \<in> octets"
  by (auto simp: alloc_ok_def)

lemma full_table_probed:
  assumes ok: "alloc_ok a" and pr: "probed a" and free: "oct (b + 252) \<notin> set (keys (assigned a))"
  shows "full_table (start_coord b) (table b a)"
proof -
  have not_free: "coord b w \<noteq> 252" if "w \<in> set (keys (assigned a))" for w
    using that free keys_octets [OF ok that] coord_lt_and_oct [of w b] by auto
  have inj: "inj_on (table b a) (owners a)"
  proof (rule inj_onI)
    fix k k' assume "k \<in> owners a" "k' \<in> owners a" "table b a k = table b a k'"
    then obtain v w where "owner_octet a k = Some v" "owner_octet a k' = Some w" "coord b v = coord b w"
      by (auto simp: table_def owners_owner_octet)
    moreover from this have "v = w"
      using coord_inj keys_octets [OF ok] by (force simp: owner_octet_Some [OF ok] keys_def)
    ultimately show "k = k'" using owner_octet_inj [OF ok] by blast
  qed
  have "start_coord b key \<le> p \<and> (\<forall>s. start_coord b key \<le> s \<and> s \<le> p \<longrightarrow> s \<in> ran (table b a))"
    if key: "table b a key = Some p" for key p
  proof -
    obtain w where w: "(w, key) \<in> set (assigned a)" "p = coord b w"
      using key by (auto simp: table_def owner_octet_Some [OF ok])
    then obtain i where i: "w = oct (start_of key + i)"
      and taken: "\<And>j. j \<le> i \<Longrightarrow> oct (start_of key + j) \<in> set (keys (assigned a))"
      using pr unfolding probed_def by blast
    have at: "coord b (oct (start_of key + j)) = start_coord b key + j" if "j \<le> i" for j
      unfolding start_coord_def using that by (intro coord_run not_free taken) simp
    then have "p = start_coord b key + i" by (simp add: w(2) i)
    moreover have "s \<in> ran (table b a)" if "start_coord b key \<le> s" "s \<le> start_coord b key + i" for s
    proof -
      have "s = coord b (oct (start_of key + (s - start_coord b key)))" using that by (subst at) simp_all
      then show ?thesis unfolding ran_table [OF ok] using taken [of "s - start_coord b key"] that by auto
    qed
    ultimately show ?thesis by simp
  qed
  moreover have "finite (owners a)" by (simp add: owners_def)
  ultimately show ?thesis using inj by (simp add: full_table_def dom_table)
qed

definition inside :: "nat \<Rightarrow> Allocator \<Rightarrow> Allocator \<Rightarrow> bool" where
  "inside b full a \<longleftrightarrow> alloc_ok a \<and> within (start_coord b) (table b full) (table b a)"

lemma inside_step:
  assumes full: "alloc_ok full" "probed full" "oct (b + 252) \<notin> set (keys (assigned full))"
    and a: "inside b full a" and key: "key \<in> owners full"
  shows "inside b full (snd (Allocate key a))" and "inside b full (alloc_Release key a)"
proof -
  note ft = full_table_probed [OF full]
  have ok: "alloc_ok a" and w: "within (start_coord b) (table b full) (table b a)"
    using a by (simp_all add: inside_def)
  have "table b (alloc_Release key a) = (table b a)(key := None)"
    by (simp add: table_def owner_octet_Release [OF ok] fun_eq_iff)
  then show "inside b full (alloc_Release key a)"
    using within_remove [OF ft w] alloc_ok_Release [OF ok] by (simp add: inside_def)
  show "inside b full (snd (Allocate key a))"
  proof (cases rule: Allocate_step [OF ok, of key, case_names same new])
    case (new i)
    have taken: "coord b (oct (start_of key + j)) \<in> ran (table b a)" if "j < i" for j
      using new(4) [OF that] ran_table [OF ok] by blast
    moreover have "252 \<notin> ran (table b full)"
      unfolding ran_table [OF full(1)]
      using full(3) keys_octets [OF full(1)] coord_lt_and_oct by (metis imageE)
    ultimately have ne: "coord b (oct (start_of key + j)) \<noteq> 252" if "j < i" for j
      using w that by (metis subsetD within_def)
    then have at: "coord b (oct (start_of key + j)) = start_coord b key + j" if "j \<le> i" for j
      unfolding start_coord_def using that by (intro coord_run) simp
    have "owner_octet a key = None" using new(2) by (simp add: owners_owner_octet)
    from owner_octet_append [OF this]
    have "table b (snd (Allocate key a)) = (table b a)(key \<mapsto> start_coord b key + i)"
      by (simp add: new(5) table_def at fun_eq_iff)
    moreover have "within (start_coord b) (table b full) ((table b a)(key \<mapsto> start_coord b key + i))"
    proof (rule within_insert [OF ft w])
      show "key \<in> dom (table b full)" using key by (simp add: dom_table)
      show "table b a key = None" using new(2) by (metis dom_table domIff)
      show "s \<in> ran (table b a)" if "start_coord b key \<le> s" "s < start_coord b key + i" for s
        using taken [of "s - start_coord b key"] at [of "s - start_coord b key"] that by simp
    qed simp
    ultimately show ?thesis using alloc_ok_Allocate [OF ok] by (simp add: inside_def)
  qed (simp add: a)
qed

end
