(* ===== verification/Setup.thy ===== *)
theory Setup
  imports Probing Hosts_File Engine_Events
begin

text \<open>
  \<open>cmd/setup.go\<close>, \<open>cmd/setup_darwin.go\<close> and \<open>cmd/setup_linux.go\<close>: \<open>holepunch setup\<close> and
  \<open>unsetup\<close>. What they do to the system are calls of \<open>sudo\<close>, whose outcomes are the argument \<open>sudo\<close>;
  a model of a run returns the error and the calls made, in order. The profiles come in the order a
  \<open>range\<close> over their map takes, any order, and so do the addresses.
\<close>

datatype sudo_call =
    SudoRun "string list"
  | SudoWriteFile string string

type_synonym sudo = "sudo_call \<Rightarrow> go_error option"

text \<open>
  A step is a call with what to make of its error: the message it is wrapped in and returned with,
  or nothing where the code ignores it.
\<close>

type_synonym sudo_step = "sudo_call \<times> string option"

fun run_steps :: "sudo \<Rightarrow> sudo_step list \<Rightarrow> go_error option \<times> sudo_call list" where
  "run_steps sudo [] = (None, [])"
| "run_steps sudo ((call, fatal) # steps) =
     (case (sudo call, fatal) of
        (Some err, Some msg) \<Rightarrow> (Some (Errorf_w msg err), [call])
      | _ \<Rightarrow> (case run_steps sudo steps of (r, calls) \<Rightarrow> (r, call # calls)))"

section \<open>The addresses\<close>

record serviceInfo =
  svi_key :: string
  svi_dnsName :: string
  svi_ip :: string

fun allocate_services :: "(string \<times> Service) list \<Rightarrow> Allocator \<Rightarrow> go_error + serviceInfo list" where
  "allocate_services [] alloc = Inr []"
| "allocate_services ((profileName, svc) # rest) alloc =
     (let key = profileName @ ''/'' @ Name svc
      in case Allocate key alloc of
          (Inl err, _) \<Rightarrow> Inl (Errorf_w (''allocating IP for '' @ key) (Opaque (alloc_error_text err)))
        | (Inr allocated, alloc) \<Rightarrow>
            map_sum id (Cons \<lparr>svi_key = key, svi_dnsName = DNSName svc, svi_ip = ip_String allocated\<rparr>)
              (allocate_services rest alloc))"

definition uniqueIPs :: "serviceInfo list \<Rightarrow> string list" where
  "uniqueIPs services = remdups (filter (\<lambda>i. i \<noteq> ''127.0.0.1'') (map svi_ip services))"

text \<open>
  \<open>runSetup\<close> on a loaded configuration, with the platform's part an argument; the outcome of saving
  the hash is a warning only. An address set is listed in some order.
\<close>

definition runSetup ::
  "(string list \<Rightarrow> string list \<Rightarrow> go_error option \<times> sudo_call list) \<Rightarrow> go_error + Config \<Rightarrow>
   go_error option \<times> sudo_call list" where
  "runSetup platformSetup load =
     (case load of
        Inl err \<Rightarrow> (Some err, [])
      | Inr cfg \<Rightarrow>
          (case allocate_services (config_services cfg) alloc_New of
             Inl err \<Rightarrow> (Some err, [])
           | Inr services \<Rightarrow>
               let tlds = ExtractTLDs (map (\<lambda>(_, svc). DNSName svc) (config_services cfg))
               in if tlds = [] then (Some (Opaque ''no DNS names configured''), [])
                  else platformSetup tlds (uniqueIPs services)))"

section \<open>macOS\<close>

definition resolverDir :: string where
  "resolverDir = ''/etc/resolver''"

definition launchDaemonID :: string where
  "launchDaemonID = ''com.holepunch.loopback''"

definition plistPath :: string where
  "plistPath = ''/Library/LaunchDaemons/'' @ launchDaemonID @ ''.plist''"

text \<open>\<open>filepath.Join\<close> of a directory and a name without a slash.\<close>

definition join_path :: "string \<Rightarrow> string \<Rightarrow> string" where
  "join_path dir name = (if name = [] then dir else dir @ ''/'' @ name)"

definition resolverContent :: string where
  "resolverContent = unlines [''# Managed by holepunch'', ''nameserver 127.0.0.1'', ''port 15353'']"

definition escapeXML :: "string \<Rightarrow> string" where
  "escapeXML s =
     ReplaceAll (ReplaceAll (ReplaceAll s CHR ''&'' ''&amp;'') CHR ''<'' ''&lt;'') CHR ''>'' ''&gt;''"

definition plist_script :: "string list \<Rightarrow> string" where
  "plist_script ips = unlines (''#!/bin/sh'' # map (\<lambda>i. ''/sbin/ifconfig lo0 alias '' @ i) ips)"

definition plist_before :: string where
  "plist_before = unlines [
     ''<?xml version=\"1.0\" encoding=\"UTF-8\"?>'',
     ''<!DOCTYPE plist PUBLIC \"-//Apple//DTD PLIST 1.0//EN\" \"http://www.apple.com/DTDs/PropertyList-1.0.dtd\">'',
     ''<plist version=\"1.0\">'', ''<dict>'', ''    <key>Label</key>'',
     ''    <string>'' @ launchDaemonID @ ''</string>'', ''    <key>ProgramArguments</key>'', ''    <array>'',
     ''        <string>/bin/sh</string>'', ''        <string>-c</string>''] @ ''        <string>''"

definition plist_after :: string where
  "plist_after = unlines [''</string>'', ''    </array>'', ''    <key>RunAtLoad</key>'', ''    <true/>'', ''</dict>'', ''</plist>'']"

definition buildLaunchDaemonPlist :: "string list \<Rightarrow> string" where
  "buildLaunchDaemonPlist ips = plist_before @ escapeXML (plist_script ips) @ plist_after"

definition darwin_steps :: "string list \<Rightarrow> string list \<Rightarrow> sudo_step list" where
  "darwin_steps tlds ips =
     [(SudoRun [''mkdir'', ''-p'', resolverDir], Some (''creating '' @ resolverDir))] @
     map (\<lambda>tld. let path = join_path resolverDir tld
       in (SudoWriteFile path resolverContent, Some (''writing '' @ path))) tlds @
     map (\<lambda>i. (SudoRun [''ifconfig'', ''lo0'', ''alias'', i], Some (''creating loopback alias '' @ i))) ips @
     [(SudoWriteFile plistPath (buildLaunchDaemonPlist ips), Some ''writing LaunchDaemon''),
      (SudoRun [''launchctl'', ''load'', plistPath], None)]"

definition platformSetup_darwin :: "sudo \<Rightarrow> string list \<Rightarrow> string list \<Rightarrow> go_error option \<times> sudo_call list" where
  "platformSetup_darwin sudo tlds ips = run_steps sudo (darwin_steps tlds ips)"

text \<open>\<open>entries\<close> are the files of \<open>/etc/resolver\<close>, by name, as far as they can be read.\<close>

definition platformUnsetup_darwin :: "(string \<times> string option) list \<Rightarrow> bool \<Rightarrow> sudo_call list" where
  "platformUnsetup_darwin entries plist_exists =
     concat (map (\<lambda>(name, content).
       (case content of
          None \<Rightarrow> []
        | Some text \<Rightarrow> if Contains text ''holepunch'' then [SudoRun [''rm'', join_path resolverDir name]] else []))
       entries) @
     (if plist_exists then [SudoRun [''launchctl'', ''unload'', plistPath], SudoRun [''rm'', plistPath]] else [])"

section \<open>Linux\<close>

definition systemdUnitName :: string where
  "systemdUnitName = ''holepunch-loopback.service''"

definition formatExecStartLines :: "string list \<Rightarrow> string" where
  "formatExecStartLines commands = Join (map (\<lambda>c. ''ExecStart='' @ c) commands) [newline]"

definition buildSystemdUnit :: "string list \<Rightarrow> string" where
  "buildSystemdUnit ips = unlines [
     ''[Unit]'', ''Description=holepunch loopback aliases'', ''After=network.target'', [],
     ''[Service]'', ''Type=oneshot'', ''RemainAfterExit=yes'',
     formatExecStartLines (map (\<lambda>i. ''/sbin/ip addr add '' @ i @ ''/8 dev lo || true'') ips), [],
     ''[Install]'', ''WantedBy=multi-user.target'']"

definition dropInDir :: string where
  "dropInDir = ''/etc/systemd/resolved.conf.d''"

definition dropInPath :: string where
  "dropInPath = dropInDir @ ''/holepunch.conf''"

definition unitPath :: string where
  "unitPath = ''/etc/systemd/system/'' @ systemdUnitName"

definition dropIn :: "string list \<Rightarrow> string" where
  "dropIn tlds = unlines [''[Resolve]'', ''DNS=127.0.0.1:15353'',
     ''Domains='' @ Join (map (\<lambda>tld. ''~'' @ tld) tlds) '' '']"

text \<open>\<open>lo\<close> is what \<open>ip addr show dev lo\<close> prints when an address is looked up, unless it fails.\<close>

definition linux_alias :: "(string \<Rightarrow> string option) \<Rightarrow> string \<Rightarrow> sudo_step list" where
  "linux_alias lo i =
     (case lo i of
        Some out \<Rightarrow>
          if Contains out i then []
          else [(SudoRun [''ip'', ''addr'', ''add'', i @ ''/8'', ''dev'', ''lo''], Some (''creating loopback alias '' @ i))]
      | None \<Rightarrow> [(SudoRun [''ip'', ''addr'', ''add'', i @ ''/8'', ''dev'', ''lo''], Some (''creating loopback alias '' @ i))])"

definition linux_steps :: "(string \<Rightarrow> string option) \<Rightarrow> string list \<Rightarrow> string list \<Rightarrow> sudo_step list" where
  "linux_steps lo tlds ips =
     concat (map (\<lambda>tld.
       [(SudoRun [''resolvectl'', ''dns'', ''lo'', ''127.0.0.1''], Some ''configuring resolvectl dns''),
        (SudoRun [''resolvectl'', ''domain'', ''lo'', ''~'' @ tld], Some (''configuring resolvectl domain for '' @ tld))]) tlds) @
     [(SudoRun [''mkdir'', ''-p'', dropInDir], Some (''creating '' @ dropInDir)),
      (SudoWriteFile dropInPath (dropIn tlds), Some ''writing resolved drop-in''),
      (SudoRun [''systemctl'', ''restart'', ''systemd-resolved''], None)] @
     concat (map (linux_alias lo) ips) @
     [(SudoWriteFile unitPath (buildSystemdUnit ips), Some ''writing systemd unit''),
      (SudoRun [''systemctl'', ''daemon-reload''], None),
      (SudoRun [''systemctl'', ''enable'', systemdUnitName], None)]"

definition platformSetup_linux ::
  "bool \<Rightarrow> (string \<Rightarrow> string option) \<Rightarrow> sudo \<Rightarrow> string list \<Rightarrow> string list \<Rightarrow> go_error option \<times> sudo_call list" where
  "platformSetup_linux hasSystemdResolved lo sudo tlds ips =
     (if hasSystemdResolved then run_steps sudo (linux_steps lo tlds ips)
      else (Some (Opaque (''systemd-resolved not found. Manual DNS configuration required.'' @ [newline] @
        ''Add 'nameserver 127.0.0.1' and 'port 15353' to your DNS config for TLDs: '' @ Join tlds '', '')), []))"

definition platformUnsetup_linux :: "bool \<Rightarrow> bool \<Rightarrow> sudo_call list" where
  "platformUnsetup_linux dropIn_exists unit_exists =
     (if dropIn_exists then [SudoRun [''rm'', dropInPath], SudoRun [''systemctl'', ''restart'', ''systemd-resolved'']] else []) @
     (if unit_exists then [SudoRun [''systemctl'', ''disable'', systemdUnitName], SudoRun [''rm'', unitPath],
        SudoRun [''systemctl'', ''daemon-reload'']] else [])"

end
