(* ===== verification/Setup_Theorems.thy ===== *)
theory Setup_Theorems
  imports Setup
begin

text \<open>
  What \<open>holepunch setup\<close> promises the daemon: an alias for every address the daemon can ever give to a
  configured service. On Linux the promise is broken by the check for aliases that already exist.
\<close>

section \<open>Every history stays inside the full table\<close>

lemma inside_run:
  assumes "alloc_ok full" and "probed full" and "oct (b + 252) \<notin> set (keys (assigned full))"
  shows "inside b full a \<Longrightarrow> fst ` set xs \<subseteq> owners full \<Longrightarrow> inside b full (alloc_run xs a)"
  by (induction xs a rule: alloc_run.induct) (auto simp: inside_step [OF assms])

lemma octet_taken: "alloc_ok a \<Longrightarrow> loopback w \<in> ran (alloc_addr a) \<longleftrightarrow> w \<in> set (keys (assigned a))"
  by (force simp: alloc_addr_def ran_def owner_octet_Some keys_def)

lemma ran_alloc_addr: "alloc_ok a \<Longrightarrow> i \<in> ran (alloc_addr a) \<Longrightarrow> \<exists>w. i = loopback w \<and> w \<in> octets"
  by (force simp: alloc_addr_def ran_def owner_octet_Some alloc_ok_def keys_def)

lemma full_keys: "alloc_ok a \<Longrightarrow> 253 \<le> length (assigned a) \<Longrightarrow> set (keys (assigned a)) = octets"
proof -
  assume ok: "alloc_ok a" and len: "253 \<le> length (assigned a)"
  have "finite octets" by (simp add: octets_oct)
  moreover have "card (set (keys (assigned a))) = length (assigned a)"
    using ok by (simp add: alloc_ok_def distinct_card) (simp add: keys_def)
  ultimately show ?thesis
    using ok len by (intro card_seteq) (simp_all add: card_octets alloc_ok_def)
qed

lemma history_inside_full:
  assumes full: "alloc_ok full" "probed full" and xs: "fst ` set xs \<subseteq> owners full"
  shows "ran (alloc_addr (alloc_run xs alloc_New)) \<subseteq> ran (alloc_addr full)"
proof
  fix i assume i: "i \<in> ran (alloc_addr (alloc_run xs alloc_New))"
  let ?a = "alloc_run xs alloc_New"
  have ok: "alloc_ok ?a" by (simp add: alloc_run_ok)
  from ran_alloc_addr [OF ok i] obtain w where w: "i = loopback w" "w \<in> octets" by blast
  have "w \<in> set (keys (assigned full))"
  proof (cases "length (assigned full) < 253")
    case False
    then show ?thesis using full_keys [OF full(1)] w(2) by simp
  next
    case True
    then obtain n where n: "map_of (assigned full) (oct (0 + n)) = None" by (rule free_octet [OF full(1)])
    have "oct (Suc n + 252) = oct (0 + n)" by (simp add: oct_eq_iff)
    then have free: "oct (Suc n + 252) \<notin> set (keys (assigned full))" using n by (simp add: map_of_eq_None_keys)
    have "table (Suc n) alloc_New = Map.empty" by (simp add: table_def owner_octet_def alloc_New_def fun_eq_iff)
    then have "inside (Suc n) full alloc_New" by (simp add: inside_def)
    from inside_run [OF full free this xs] have "ran (table (Suc n) ?a) \<subseteq> ran (table (Suc n) full)"
      by (simp add: inside_def within_def)
    moreover have "w \<in> set (keys (assigned ?a))" using i octet_taken [OF ok] w(1) by simp
    ultimately obtain v where v: "v \<in> set (keys (assigned full))" "coord (Suc n) w = coord (Suc n) v"
      unfolding ran_table [OF ok] ran_table [OF full(1)] by blast
    then show ?thesis using coord_inj [OF w(2) keys_octets [OF full(1) v(1)]] by simp
  qed
  then show "i \<in> ran (alloc_addr full)" using octet_taken [OF full(1)] w(1) by simp
qed

section \<open>The allocations of setup\<close>

lemma no_addr_New [simp]: "alloc_addr alloc_New k = None" "owner_octet alloc_New k = None"
  by (simp_all add: alloc_addr_def owner_octet_def alloc_New_def)

lemma allocate_new_key: "\<exists>i a. Allocate k alloc_New = (Inr i, a)"
  by (rule Allocate_cases [OF alloc_ok_New, of k]) (simp_all, simp add: alloc_New_def)

definition setup_history :: "(string \<times> Service) list \<Rightarrow> (string \<times> bool) list" where
  "setup_history svcs = map (\<lambda>(p, svc). (service_key p svc, True)) svcs"

lemma alloc_run_probed: "alloc_ok a \<Longrightarrow> probed a \<Longrightarrow> (\<forall>x\<in>set xs. snd x) \<Longrightarrow> probed (alloc_run xs a)"
  by (induction xs a rule: alloc_run.induct) (simp_all add: probed_Allocate alloc_ok_Allocate)

lemma alloc_run_keeps: "alloc_ok a \<Longrightarrow> alloc_addr a k = Some i \<Longrightarrow> (\<forall>x\<in>set xs. snd x) \<Longrightarrow> alloc_addr (alloc_run xs a) k = Some i"
  by (subst alloc_run_eq) (auto intro!: ipp.run_ports_keeps)

lemma allocate_services_run:
  "allocate_services svcs a = Inr infos \<Longrightarrow> alloc_ok a \<Longrightarrow> (p, svc) \<in> set svcs \<Longrightarrow>
   \<exists>i. alloc_addr (alloc_run (setup_history svcs) a) (service_key p svc) = Some i \<and> ip_String i \<in> svi_ip ` set infos"
proof (induction svcs a arbitrary: infos rule: allocate_services.induct)
  case (2 name s rest a)
  obtain i a' infos' where i: "Allocate (service_key name s) a = (Inr i, a')"
    and infos': "allocate_services rest a' = Inr infos'"
    and infos: "infos = \<lparr>svi_key = service_key name s, svi_dnsName = DNSName s, svi_ip = ip_String i\<rparr> # infos'"
    using 2(2) by (auto simp: Let_def service_key_def map_sum_def split: prod.splits sum.splits)
  have ok: "alloc_ok a'" using alloc_ok_Allocate [OF 2(3), of "service_key name s"] i by simp
  have run: "alloc_run (setup_history ((name, s) # rest)) a = alloc_run (setup_history rest) a'"
    by (simp add: setup_history_def i)
  show ?case
  proof (cases "(p, svc) \<in> set rest")
    case True
    have "allocate_services rest (snd (Allocate (name @ ''/'' @ Name s) a)) = Inr infos'"
      using i infos' by (simp add: service_key_def)
    then show ?thesis
      using 2(1) [OF refl, of "Inr i" a' i infos'] i infos' ok True unfolding run infos by (auto simp: service_key_def)
  next
    case False
    then have "alloc_addr a' (service_key p svc) = Some i"
      using 2(4) ipp.allocate_addr [OF 2(3) i] by simp
    then show ?thesis
      unfolding run infos using alloc_run_keeps [OF ok, of _ i "setup_history rest"]
      by (auto simp: setup_history_def split_beta)
  qed
qed simp

lemma run_steps_done: "run_steps sudo steps = (None, calls) \<Longrightarrow> calls = map fst steps"
  by (induction sudo steps arbitrary: calls rule: run_steps.induct) (auto split: option.splits prod.splits)

lemma no_home: "ip_String (loopback w) \<noteq> ''127.0.0.1'' \<longleftrightarrow> w \<noteq> 1"
proof -
  have "''127.0.0.1'' = ip_String (loopback 1)" by code_simp
  then show ?thesis using ip_String_inj by simp
qed


lemma setup_allocated:
  assumes "allocate_services svcs alloc_New = Inr infos" and "fst ` set xs \<subseteq> (\<lambda>(p, svc). service_key p svc) ` set svcs"
    and "alloc_addr (alloc_run xs alloc_New) k = Some i"
  shows "ip_String i \<in> set (uniqueIPs infos)"
proof -
  let ?full = "alloc_run (setup_history svcs) alloc_New"
  have ok: "alloc_ok ?full" by (simp add: alloc_run_ok)
  have probed: "probed ?full" by (rule alloc_run_probed) (auto simp: setup_history_def)
  have got: "\<exists>i. alloc_addr ?full (service_key p svc) = Some i \<and> ip_String i \<in> svi_ip ` set infos"
    if "(p, svc) \<in> set svcs" for p svc
    using allocate_services_run [OF assms(1) _ that] by simp
  have "service_key p svc \<in> owners ?full" if "(p, svc) \<in> set svcs" for p svc
    using got [OF that] by (auto simp: owners_owner_octet alloc_addr_def)
  with assms(2) have "fst ` set xs \<subseteq> owners ?full" by auto
  from history_inside_full [OF ok probed this] have "i \<in> ran (alloc_addr ?full)"
    using assms(3) by (auto simp: ran_def)
  then obtain k' where k': "alloc_addr ?full k' = Some i" by (auto simp: ran_def)
  have "k' \<in> fst ` set (setup_history svcs)"
    using k' ipp.run_ports_other [OF alloc_ok_New, of k' "setup_history svcs"] by (force simp: alloc_run_eq)
  then obtain p svc where "(p, svc) \<in> set svcs" "k' = service_key p svc" by (auto simp: setup_history_def)
  with got k' have "ip_String i \<in> svi_ip ` set infos" by fastforce
  moreover have "ip_String i \<noteq> ''127.0.0.1''"
  proof -
    obtain w where "i = loopback w" "w \<in> octets"
      using ran_alloc_addr [OF alloc_run_ok [OF alloc_ok_New], of i xs] assms(3) by (auto simp: ran_def)
    then show ?thesis using no_home [of w] by (auto simp: octets_def minOctet_def word_le_nat_alt)
  qed
  ultimately show ?thesis by (auto simp: uniqueIPs_def)
qed

section \<open>Properties\<close>

text \<open>
  C12: After a successful \<open>holepunch setup\<close> on macOS every address the daemon can ever give to a
  configured service has its loopback alias: whatever services are started and stopped in whatever
  order, and in whatever order setup and daemon went through the profiles, although a service need
  not get the address that setup listed for it.
\<close>

theorem setup_covers_daemon:
  assumes "runSetup (platformSetup_darwin sudo) (Inr cfg) = (None, calls)"
    and "fst ` set xs \<subseteq> (\<lambda>(p, svc). service_key p svc) ` set (config_services cfg)"
    and "alloc_addr (alloc_run xs alloc_New) k = Some i"
  shows "SudoRun [''ifconfig'', ''lo0'', ''alias'', ip_String i] \<in> set calls"
proof -
  obtain infos where infos: "allocate_services (config_services cfg) alloc_New = Inr infos"
    and "platformSetup_darwin sudo (ExtractTLDs (map (\<lambda>(_, svc). DNSName svc) (config_services cfg))) (uniqueIPs infos) = (None, calls)"
    using assms(1) by (auto simp: runSetup_def Let_def split: sum.splits if_splits)
  then have "calls = map fst (darwin_steps (ExtractTLDs (map (\<lambda>(_, svc). DNSName svc) (config_services cfg))) (uniqueIPs infos))"
    by (auto simp: platformSetup_darwin_def dest: run_steps_done)
  with setup_allocated [OF infos assms(2,3)] show ?thesis by (simp add: darwin_steps_def)
qed

text \<open>A configuration with one service.\<close>

definition one_service :: Config where
  "one_service = sample_config [(''dev'', sample_profile [sample_service ''db''])]"

theorem setup_covers_daemon_witness:
  "\<exists>calls i. runSetup (platformSetup_darwin (\<lambda>_. None)) (Inr one_service) = (None, calls) \<and>
     alloc_addr (alloc_run [(''dev/db'', True)] alloc_New) ''dev/db'' = Some i \<and>
     SudoRun [''ifconfig'', ''lo0'', ''alias'', ip_String i] \<in> set calls"
proof -
  have ok: "run_steps (\<lambda>_. None) steps = (None, map fst steps)" for steps by (induction steps) auto
  have services: "config_services one_service = [(''dev'', sample_service ''db'')]"
    by (simp add: one_service_def config_services_def sample_config_def sample_profile_def)
  have key: "service_key ''dev'' (sample_service ''db'') = ''dev/db''" by (simp add: service_key_def sample_service_def)
  obtain i a where i: "Allocate ''dev/db'' alloc_New = (Inr i, a)"
    using allocate_new_key [of "''dev/db''"] by blast
  have tlds: "ExtractTLDs [DNSName (sample_service ''db'')] \<noteq> []"
    by (simp add: ExtractTLDs_def sample_service_def)
  have run: "runSetup (platformSetup_darwin (\<lambda>_. None)) (Inr one_service) =
      (None, map fst (darwin_steps (ExtractTLDs [DNSName (sample_service ''db'')]) (uniqueIPs
        [\<lparr>svi_key = ''dev/db'', svi_dnsName = DNSName (sample_service ''db''), svi_ip = ip_String i\<rparr>])))"
    using key tlds by (simp add: runSetup_def services service_key_def i Let_def platformSetup_darwin_def ok)
  have addr: "alloc_addr (alloc_run [(''dev/db'', True)] alloc_New) ''dev/db'' = Some i"
    using ipp.allocate_addr [OF alloc_ok_New i] i by simp
  have "fst ` set [(''dev/db'', True)] \<subseteq> (\<lambda>(p, svc). service_key p svc) ` set (config_services one_service)"
    by (simp add: services key)
  from setup_covers_daemon [OF run this addr] run addr show ?thesis by blast
qed

text \<open>
  On Linux an address gets no alias when the text of another one on the interface contains it:
  a successful setup adds exactly the addresses that are no part of what \<open>ip addr show\<close> printed, so
  with 127.0.0.119 there, 127.0.0.11 is left out.
\<close>

lemma linux_setup_skips_substrings:
  assumes "platformSetup_linux True lo sudo tlds ips = (None, calls)" and "i \<in> set ips"
  shows "(SudoRun [''ip'', ''addr'', ''add'', i @ ''/8'', ''dev'', ''lo''] \<in> set calls \<longleftrightarrow>
      \<not> (\<exists>out. lo i = Some out \<and> sublist i out)) \<and>
    (i = ''127.0.0.11'' \<and> lo i = Some (pre @ ''127.0.0.119'' @ post) \<longrightarrow>
      SudoRun [''ip'', ''addr'', ''add'', ''127.0.0.11/8'', ''dev'', ''lo''] \<notin> set calls)"
proof -
  let ?call = "\<lambda>i. SudoRun [''ip'', ''addr'', ''add'', i @ ''/8'', ''dev'', ''lo'']"
  have calls: "calls = map fst (linux_steps lo tlds ips)"
    using assms(1) by (simp add: platformSetup_linux_def run_steps_done)
  have added: "?call i \<in> fst ` set (linux_alias lo j) \<longleftrightarrow> i = j \<and> \<not> (\<exists>out. lo i = Some out \<and> sublist i out)" for j
    by (auto simp: linux_alias_def Contains_iff split: option.splits)
  have "?call i \<in> set calls \<longleftrightarrow> (\<exists>j\<in>set ips. ?call i \<in> fst ` set (linux_alias lo j))"
    unfolding calls linux_steps_def by (auto simp: image_iff)
  then have iff: "?call i \<in> set calls \<longleftrightarrow> \<not> (\<exists>out. lo i = Some out \<and> sublist i out)"
    using added assms(2) by blast
  moreover have "sublist ''127.0.0.11'' (pre @ ''127.0.0.119'' @ post)"
  proof -
    have "pre @ ''127.0.0.119'' @ post = pre @ ''127.0.0.11'' @ (''9'' @ post)" by simp
    then show ?thesis unfolding sublist_def by blast
  qed
  ultimately show ?thesis by auto
qed

lemma linux_setup_skips_substrings_witness:
  "SudoRun [''ip'', ''addr'', ''add'', ''127.0.0.11/8'', ''dev'', ''lo''] \<notin>
     set (snd (platformSetup_linux True (\<lambda>_. Some ''inet 127.0.0.119/8'') (\<lambda>_. None) [''local''] [''127.0.0.11'']))"
proof -
  have ok: "run_steps (\<lambda>_. None) steps = (None, map fst steps)" for steps
    by (induction steps) auto
  have run: "platformSetup_linux True (\<lambda>_. Some ''inet 127.0.0.119/8'') (\<lambda>_. None) [''local''] [''127.0.0.11''] =
      (None, map fst (linux_steps (\<lambda>_. Some ''inet 127.0.0.119/8'') [''local''] [''127.0.0.11'']))"
    by (simp add: platformSetup_linux_def ok)
  show ?thesis
    unfolding run snd_conv
    by (rule linux_setup_skips_substrings
        [where i = "''127.0.0.11''" and pre = "''inet ''" and post = "''/8''", OF run, THEN conjunct2, THEN mp]) simp_all
qed

end
