(* ===== verification/Persistence.thy ===== *)
theory Persistence
  imports Protocol
begin

text \<open>
  \<open>internal/engine/persistence.go\<close>: the state file. A disk maps paths to contents; \<open>os.WriteFile\<close> may
  fail before or in the middle of its bytes. \<open>save_crashes\<close> lists the disks a crash during a \<open>Save\<close> can
  leave. JSON texts are the library's, \<open>print\<close> for \<open>MarshalIndent\<close>; \<open>rfc3339\<close> formats a time.
\<close>

type_synonym disk = "string \<rightharpoonup> bytes"

section \<open>Files\<close>

datatype written = Written | Not_opened go_error | Cut_short nat go_error

definition WriteFile :: "written \<Rightarrow> string \<Rightarrow> bytes \<Rightarrow> disk \<Rightarrow> go_error option \<times> disk" where
  "WriteFile w path data d =
     (case w of
        Written \<Rightarrow> (None, d(path \<mapsto> data))
      | Not_opened err \<Rightarrow> (Some err, d)
      | Cut_short n err \<Rightarrow> (Some err, d(path \<mapsto> take n data)))"

definition not_exist :: "string \<Rightarrow> go_error" where
  "not_exist path = Opaque (''open '' @ path @ '': no such file or directory'')"

definition ReadFile :: "string \<Rightarrow> disk \<Rightarrow> go_error + bytes" where
  "ReadFile path d = (case d path of None \<Rightarrow> Inl (not_exist path) | Some data \<Rightarrow> Inr data)"

section \<open>The state that is kept\<close>

record PersistedService =
  ps_Profile :: string
  ps_ServiceName :: string
  ps_DNSName :: string
  ps_LocalAddr :: string
  ps_LocalIP :: string
  ps_State :: string
  ps_PID :: int
  ps_ConnectedAt :: string
  ps_Error :: string

record PersistedState =
  ps_Services :: "PersistedService list"
  ps_UpdatedAt :: instant

definition json_PersistedService :: "PersistedService \<Rightarrow> json" where
  "json_PersistedService s = JObj ([(''profile'', JStr (ps_Profile s)), (''service_name'', JStr (ps_ServiceName s)),
     (''dns_name'', JStr (ps_DNSName s)), (''local_addr'', JStr (ps_LocalAddr s)), (''local_ip'', JStr (ps_LocalIP s)),
     (''state'', JStr (ps_State s))] @ omit_int ''pid'' (ps_PID s) @ omit_str ''connected_at'' (ps_ConnectedAt s)
     @ omit_str ''error'' (ps_Error s))"

definition json_PersistedState :: "PersistedState \<Rightarrow> json" where
  "json_PersistedState s = JObj [(''services'', JArr (map json_PersistedService (ps_Services s))),
     (''updated_at'', JTime (ps_UpdatedAt s))]"

definition of_PersistedService :: "json \<Rightarrow> PersistedService option" where
  "of_PersistedService j = do {
     f \<leftarrow> Protocol.fields j; p \<leftarrow> get_str ''profile'' f; s \<leftarrow> get_str ''service_name'' f; d \<leftarrow> get_str ''dns_name'' f;
     la \<leftarrow> get_str ''local_addr'' f; li \<leftarrow> get_str ''local_ip'' f; st \<leftarrow> get_str ''state'' f; pid \<leftarrow> get_int ''pid'' f;
     c \<leftarrow> get_str ''connected_at'' f; e \<leftarrow> get_str ''error'' f;
     Some \<lparr>ps_Profile = p, ps_ServiceName = s, ps_DNSName = d, ps_LocalAddr = la, ps_LocalIP = li, ps_State = st,
       ps_PID = pid, ps_ConnectedAt = c, ps_Error = e\<rparr> }"

definition of_PersistedState :: "json \<Rightarrow> PersistedState option" where
  "of_PersistedState j = do {
     f \<leftarrow> Protocol.fields j; ss \<leftarrow> get_list of_PersistedService ''services'' f; t \<leftarrow> get_time ''updated_at'' f;
     Some \<lparr>ps_Services = ss, ps_UpdatedAt = t\<rparr> }"

definition persisted_service :: "(instant \<Rightarrow> string) \<Rightarrow> ServiceStatus \<Rightarrow> PersistedService" where
  "persisted_service rfc3339 s =
     \<lparr>ps_Profile = st_Profile s, ps_ServiceName = st_ServiceName s, ps_DNSName = st_DNSName s,
      ps_LocalAddr = st_LocalAddr s, ps_LocalIP = [], ps_State = state_String (st_State s), ps_PID = 0,
      ps_ConnectedAt =
        (case st_ConnectedAt s of
           Some t \<Rightarrow> if st_State s = Connected then rfc3339 t else []
         | None \<Rightarrow> []),
      ps_Error = (case st_Error s of Some err \<Rightarrow> error_text err | None \<Rightarrow> [])\<rparr>"

definition persisted :: "(instant \<Rightarrow> string) \<Rightarrow> instant \<Rightarrow> ServiceStatus list \<Rightarrow> PersistedState" where
  "persisted rfc3339 now statuses = \<lparr>ps_Services = map (persisted_service rfc3339) statuses, ps_UpdatedAt = now\<rparr>"

section \<open>Save, Load, Remove\<close>

record save_answers =
  sv_mkdir :: "go_error option"
  sv_write :: written
  sv_rename :: "go_error option"

definition tmp_path :: "string \<Rightarrow> string" where
  "tmp_path path = path @ ''.tmp''"

definition persist_Save ::
  "(json \<Rightarrow> string) \<Rightarrow> string \<Rightarrow> save_answers \<Rightarrow> PersistedState \<Rightarrow> disk \<Rightarrow> go_error option \<times> disk" where
  "persist_Save print path a st d =
     (case sv_mkdir a of
        Some err \<Rightarrow> (Some (Errorf_w ''creating state directory'' err), d)
      | None \<Rightarrow>
          let data = print (json_PersistedState st)
          in case WriteFile (sv_write a) (tmp_path path) data d of
              (Some err, d) \<Rightarrow> (Some (Errorf_w ''writing state'' err), d)
            | (None, d) \<Rightarrow>
                (case sv_rename a of
                   Some err \<Rightarrow> (Some (Errorf_w ''renaming state file'' err), d)
                 | None \<Rightarrow> (None, d(path := d (tmp_path path), tmp_path path := None))))"

text \<open>Where a crash can stop a \<open>Save\<close>: before it, with part of the temporary file, or after it.\<close>

definition save_crashes :: "(json \<Rightarrow> string) \<Rightarrow> string \<Rightarrow> save_answers \<Rightarrow> PersistedState \<Rightarrow> disk \<Rightarrow> disk list" where
  "save_crashes print path a st d =
     (let data = print (json_PersistedState st)
      in d # map (\<lambda>n. d(tmp_path path \<mapsto> take n data)) [0..<Suc (length data)] @ [snd (persist_Save print path a st d)])"

definition persist_Load :: "(string \<Rightarrow> go_error + json) \<Rightarrow> string \<Rightarrow> disk \<Rightarrow> go_error + PersistedState" where
  "persist_Load parse path d =
     (case ReadFile path d of
        Inl err \<Rightarrow> Inl (Errorf_w ''reading state'' err)
      | Inr data \<Rightarrow>
          (case Unmarshal of_PersistedState parse data of
             Inl err \<Rightarrow> Inl (Errorf_w ''parsing state'' err)
           | Inr st \<Rightarrow> Inr st))"

text \<open>A file that is missing already is no error.\<close>

definition persist_Remove :: "go_error option \<Rightarrow> string \<Rightarrow> disk \<Rightarrow> go_error option \<times> disk" where
  "persist_Remove answer path d =
     (case d path of
        None \<Rightarrow> (None, d)
      | Some _ \<Rightarrow> (case answer of Some err \<Rightarrow> (Some err, d) | None \<Rightarrow> (None, d(path := None))))"

section \<open>The state file as a register\<close>

lemma of_json_PersistedService [simp]: "of_PersistedService (json_PersistedService s) = Some s"
  by (simp add: of_PersistedService_def json_PersistedService_def get_defs)

lemma of_json_PersistedState [simp]: "of_PersistedState (json_PersistedState s) = Some s"
  using all_some_map [of "ps_Services s" of_PersistedService json_PersistedService]
  by (simp add: of_PersistedState_def json_PersistedState_def get_defs comp_def)

text \<open>A run of saves, and what should be there afterwards: the state of the last one that succeeded.\<close>

fun run_saves :: "(json \<Rightarrow> string) \<Rightarrow> string \<Rightarrow> (save_answers \<times> PersistedState) list \<Rightarrow> disk \<Rightarrow> disk" where
  "run_saves print path [] d = d"
| "run_saves print path ((a, st) # saves) d = run_saves print path saves (snd (persist_Save print path a st d))"

definition save_succeeds :: "save_answers \<Rightarrow> bool" where
  "save_succeeds a \<longleftrightarrow> sv_mkdir a = None \<and> sv_write a = Written \<and> sv_rename a = None"

fun register :: "(save_answers \<times> PersistedState) list \<Rightarrow> PersistedState option \<Rightarrow> PersistedState option" where
  "register [] r = r"
| "register ((a, st) # saves) r = register saves (if save_succeeds a then Some st else r)"

definition holds :: "(json \<Rightarrow> string) \<Rightarrow> string \<Rightarrow> disk \<Rightarrow> PersistedState option \<Rightarrow> bool" where
  "holds print path d r \<longleftrightarrow> d path = map_option (\<lambda>st. print (json_PersistedState st)) r"

lemma tmp_path_neq [simp]: "tmp_path path \<noteq> path" "path \<noteq> tmp_path path"
  by (simp_all add: tmp_path_def)

lemma save_path:
  "snd (persist_Save print path a st d) path =
     (if save_succeeds a then Some (print (json_PersistedState st)) else d path)"
  "fst (persist_Save print path a st d) = None \<longleftrightarrow> save_succeeds a"
  by (auto simp: persist_Save_def save_succeeds_def WriteFile_def Let_def split: option.splits written.splits)

lemma save_holds: "holds print path d r \<Longrightarrow>
    holds print path (snd (persist_Save print path a st d)) (if save_succeeds a then Some st else r)"
  by (simp add: holds_def save_path)

lemma run_saves_holds: "holds print path d r \<Longrightarrow> holds print path (run_saves print path saves d) (register saves r)"
  by (induction print path saves d arbitrary: r rule: run_saves.induct) (simp_all add: save_holds)

lemma crash_holds:
  assumes "holds print path d r" and "d' \<in> set (save_crashes print path a st d)"
  shows "holds print path d' r \<or> save_succeeds a \<and> holds print path d' (Some st)"
  using assms save_holds [OF assms(1), of a st]
  by (auto simp: save_crashes_def Let_def holds_def fun_upd_apply split: if_splits)

lemma load_register:
  assumes "holds print path d r" and "\<And>st. r = Some st \<Longrightarrow> parse (print (json_PersistedState st)) = Inr (json_PersistedState st)"
  shows "persist_Load parse path d =
    (case r of None \<Rightarrow> Inl (Errorf_w ''reading state'' (not_exist path)) | Some st \<Rightarrow> Inr st)"
  using assms by (auto simp: persist_Load_def ReadFile_def holds_def Unmarshal_def split: option.splits)

lemma register_cases: "register saves None = Some st \<Longrightarrow> st \<in> snd ` set saves"
proof -
  have "register saves r = Some st \<Longrightarrow> st \<in> snd ` set saves \<or> r = Some st" for r
    by (induction saves r rule: register.induct) (auto split: if_splits)
  then show "register saves None = Some st \<Longrightarrow> st \<in> snd ` set saves" by fastforce
qed

text \<open>
  C40: The state file is an atomic register: after any run of saves, some of which fail, and a crash at
  any point of one more, \<open>Load\<close> returns the state of the last save that succeeded or the one that was
  being saved, whole; never a mixture, never a parse error, and nothing when there was none.
\<close>

theorem state_file_atomic:
  assumes codec: "\<And>st. st \<in> insert new (snd ` set saves) \<Longrightarrow> parse (print (json_PersistedState st)) = Inr (json_PersistedState st)"
    and "d path = None"
    and "d' \<in> set (save_crashes print path a new (run_saves print path saves d))"
  shows "persist_Load parse path d' = Inr new \<or>
    persist_Load parse path d' =
      (case register saves None of
         None \<Rightarrow> Inl (Errorf_w ''reading state'' (not_exist path))
       | Some st \<Rightarrow> Inr st)"
proof -
  have "holds print path (run_saves print path saves d) (register saves None)"
    by (rule run_saves_holds) (simp add: holds_def assms(2))
  from crash_holds [OF this assms(3)] show ?thesis
    using load_register [of print path d' "Some new" parse] load_register [of print path d' "register saves None" parse]
      codec register_cases [of saves] by fastforce
qed

definition saved_ok :: save_answers where
  "saved_ok = \<lparr>sv_mkdir = None, sv_write = Written, sv_rename = None\<rparr>"

definition empty_state :: PersistedState where
  "empty_state = \<lparr>ps_Services = [], ps_UpdatedAt = 0\<rparr>"

theorem state_file_atomic_witness:
  "persist_Load (\<lambda>_. Inr (json_PersistedState empty_state)) ''s''
     ((run_saves (\<lambda>_. ''{}'') ''s'' [(saved_ok, empty_state)] Map.empty)(tmp_path ''s'' \<mapsto> ''{'')) = Inr empty_state"
proof -
  let ?d = "run_saves (\<lambda>_. ''{}'') ''s'' [(saved_ok, empty_state)] Map.empty"
  have "?d(tmp_path ''s'' \<mapsto> ''{'') \<in> set (save_crashes (\<lambda>_. ''{}'') ''s'' saved_ok empty_state ?d)"
    by (simp add: save_crashes_def eval_nat_numeral Let_def)
  moreover have "st = empty_state" if "st \<in> insert empty_state (snd ` set [(saved_ok, empty_state)])" for st
    using that by simp
  moreover have "register [(saved_ok, empty_state)] None = Some empty_state"
    by (simp add: save_succeeds_def saved_ok_def)
  ultimately show ?thesis
    using state_file_atomic [of empty_state "[(saved_ok, empty_state)]" "\<lambda>_. Inr (json_PersistedState empty_state)" "\<lambda>_. ''{}''"
        Map.empty "''s''" "?d(tmp_path ''s'' \<mapsto> ''{'')" saved_ok]
    by simp
qed

end
