(* ===== verification/Lifecycle.thy ===== *)
theory Lifecycle
  imports Persistence
begin

text \<open>
  \<open>internal/daemon/lifecycle.go\<close> and \<open>logfile.go\<close>: the PID file that keeps a second daemon from
  starting, and the daemon's log. \<open>alive\<close> says of a PID whether signal 0 reaches a process. Writing the
  PID file is a check and a write, two steps, since nothing makes them one.
\<close>

section \<open>Numbers in text\<close>

text \<open>\<open>strconv.Atoi\<close>: a sign may come first, the number must fit an \<open>int64\<close>.\<close>

definition Atoi_error :: "(string \<Rightarrow> string) \<Rightarrow> string \<Rightarrow> string \<Rightarrow> go_error" where
  "Atoi_error quote s reason = Opaque (''strconv.Atoi: parsing '' @ quote s @ '': '' @ reason)"

definition Atoi :: "(string \<Rightarrow> string) \<Rightarrow> string \<Rightarrow> go_error + int" where
  "Atoi quote s =
     (let ds = (if HasPrefix s ''-'' \<or> HasPrefix s ''+'' then tl s else s);
          v = (if HasPrefix s ''-'' then - int (read_nat ds) else int (read_nat ds))
      in if ds = [] \<or> \<not> list_all is_digit ds then Inl (Atoi_error quote s ''invalid syntax'')
         else if v < int64_min \<or> int64_max < v then Inl (Atoi_error quote s ''value out of range'')
         else Inr v)"

lemma show_nat_hd: "show_nat n = c # cs \<Longrightarrow> is_digit c"
  using show_nat_digits [of c n] by simp

lemma Atoi_show_int: "0 \<le> n \<Longrightarrow> n \<le> int64_max \<Longrightarrow> Atoi quote (show_int n) = Inr n"
proof -
  assume n: "0 \<le> n" "n \<le> int64_max"
  obtain c cs where c: "show_nat (nat n) = c # cs" by (cases "show_nat (nat n)") auto
  from show_nat_hd [OF c] have "c \<noteq> CHR ''-''" "c \<noteq> CHR ''+''" by (auto simp: is_digit_def)
  moreover have "list_all is_digit (show_nat (nat n))" using show_nat_digits by (auto simp: list_all_iff)
  moreover have "read_nat (c # cs) = nat n" using c read_show_nat by metis
  ultimately show ?thesis
    using n c by (simp add: Atoi_def show_int_def Let_def int64_min_def)
qed

section \<open>The PID file\<close>

definition ReadPIDFile :: "(string \<Rightarrow> string) \<Rightarrow> string \<Rightarrow> disk \<Rightarrow> go_error + int" where
  "ReadPIDFile quote path d =
     (case ReadFile path d of
        Inl err \<Rightarrow> Inl err
      | Inr data \<Rightarrow>
          (case Atoi quote (TrimSpace data) of
             Inl err \<Rightarrow> Inl (Errorf_w ''invalid PID file content'' err)
           | Inr pid \<Rightarrow> Inr pid))"

datatype pid_pc = W_check | W_write | W_done "go_error option"

definition pid_step ::
  "(string \<Rightarrow> string) \<Rightarrow> (int \<Rightarrow> bool) \<Rightarrow> go_error option \<Rightarrow> written \<Rightarrow> string \<Rightarrow> int \<Rightarrow> pid_pc \<times> disk \<Rightarrow> pid_pc \<times> disk" where
  "pid_step quote alive mkdir w path pid s =
     (case s of (pc, d) \<Rightarrow>
       (case pc of
          W_check \<Rightarrow>
            (case mkdir of
               Some err \<Rightarrow> (W_done (Some (Errorf_w ''creating PID directory'' err)), d)
             | None \<Rightarrow>
                 (case ReadPIDFile quote path d of
                    Inr existing \<Rightarrow>
                      if alive existing
                      then (W_done (Some (Opaque (''daemon already running with PID '' @ show_int existing))), d)
                      else (W_write, d)
                  | Inl _ \<Rightarrow> (W_write, d)))
        | W_write \<Rightarrow> (case WriteFile w path (show_int pid) d of (err, d) \<Rightarrow> (W_done err, d))
        | W_done err \<Rightarrow> (W_done err, d)))"

definition WritePIDFile ::
  "(string \<Rightarrow> string) \<Rightarrow> (int \<Rightarrow> bool) \<Rightarrow> go_error option \<Rightarrow> written \<Rightarrow> string \<Rightarrow> int \<Rightarrow> disk \<Rightarrow> go_error option \<times> disk" where
  "WritePIDFile quote alive mkdir w path pid d =
     (case (pid_step quote alive mkdir w path pid ^^ 2) (W_check, d) of
        (W_done err, d) \<Rightarrow> (err, d)
      | (_, d) \<Rightarrow> (None, d))"

definition Cleanup :: "string \<Rightarrow> string \<Rightarrow> disk \<Rightarrow> disk" where
  "Cleanup socketPath pidPath d = d(socketPath := None, pidPath := None)"

section \<open>The log\<close>

definition logMaxBytes :: nat where
  "logMaxBytes = 10 * 2 ^ 20"

record log_answers =
  la_mkdir :: "go_error option"
  la_rename :: "go_error option"
  la_open :: "go_error option"

definition OpenLog :: "log_answers \<Rightarrow> string \<Rightarrow> disk \<Rightarrow> go_error option \<times> disk" where
  "OpenLog a path d =
     (case la_mkdir a of
        Some err \<Rightarrow> (Some (Errorf_w ''creating log directory'' err), d)
      | None \<Rightarrow>
          let big = (case d path of Some data \<Rightarrow> length data > logMaxBytes | None \<Rightarrow> False);
              moved = d(path @ ''.1'' := d path, path := None)
          in if big \<and> la_rename a \<noteq> None then (Some (Errorf_w ''rotating daemon log'' (the (la_rename a))), d)
             else let d = (if big then moved else d)
               in case la_open a of
                  Some err \<Rightarrow> (Some (Errorf_w ''opening daemon log'' err), d)
                | None \<Rightarrow> (None, d(path \<mapsto> (case d path of Some data \<Rightarrow> data | None \<Rightarrow> []))))"

text \<open>
  An opened log starts below the limit; nothing is lost but the rotated log before this one, and
  without a rotation nothing at all.
\<close>

lemma log_rotation:
  assumes "OpenLog a path d = (None, d')"
  shows "(\<exists>data. d' path = Some data \<and> length data \<le> logMaxBytes) \<and>
    (case d path of
       Some data \<Rightarrow> if length data > logMaxBytes then d' path = Some [] \<and> d' (path @ ''.1'') = Some data
         else d' = d
     | None \<Rightarrow> d' = d(path \<mapsto> [])) \<and>
    (\<forall>other. other \<noteq> path \<and> other \<noteq> path @ ''.1'' \<longrightarrow> d' other = d other)"
  using assms by (auto simp: OpenLog_def Let_def fun_upd_idem split: option.splits if_splits)

section \<open>One daemon at a time\<close>

text \<open>
  Daemons that start, stop and crash, \<open>holepunch down\<close> commands that kill them and clear up
  (\<open>killDaemon\<close> of \<open>cmd/down.go\<close>), and the other processes of the host: \<open>dm_writing\<close> are the starting
  daemons that have checked the PID file and not yet written it, \<open>dm_daemons\<close> those that wrote it and
  have not yet removed it on their way out, \<open>dm_downs\<close> where each \<open>down\<close> stands. A PID is reused only
  after its process ended; a starting daemon finds itself alive. \<open>os.FindProcess\<close> does not fail on Unix, SIGKILL ends
  whatever process has the PID, SIGINT makes it leave by itself, whenever it gets there.
\<close>

datatype down_pc = K_read bool | K_signal bool int | K_poll int nat | K_cleanup

record daemons =
  dm_disk :: disk
  dm_writing :: "int set"
  dm_daemons :: "int set"
  dm_others :: "int set"
  dm_downs :: "down_pc list"

definition is_alive :: "daemons \<Rightarrow> int \<Rightarrow> bool" where
  "is_alive s p \<longleftrightarrow> p \<in> dm_writing s \<union> dm_daemons s \<union> dm_others s"

fun down_step :: "(string \<Rightarrow> string) \<Rightarrow> string \<Rightarrow> string \<Rightarrow> down_pc \<Rightarrow> daemons \<Rightarrow> down_pc option \<times> daemons" where
  "down_step quote sock path (K_read force) s =
     (case ReadPIDFile quote path (dm_disk s) of Inl _ \<Rightarrow> (Some K_cleanup, s) | Inr p \<Rightarrow> (Some (K_signal force p), s))"
| "down_step quote sock path (K_signal force p) s =
     (if force then (Some K_cleanup, s\<lparr>dm_daemons := dm_daemons s - {p}, dm_writing := dm_writing s - {p},
        dm_others := dm_others s - {p}\<rparr>)
      else (Some (K_poll p 30), s))"
| "down_step quote sock path (K_poll p 0) s = (None, s)"
| "down_step quote sock path (K_poll p (Suc n)) s = (Some (if is_alive s p then K_poll p n else K_cleanup), s)"
| "down_step quote sock path K_cleanup s = (None, s\<lparr>dm_disk := Cleanup sock path (dm_disk s)\<rparr>)"

definition put_down :: "nat \<Rightarrow> down_pc option \<Rightarrow> down_pc list \<Rightarrow> down_pc list" where
  "put_down i pc ds = (case pc of Some pc \<Rightarrow> ds[i := pc] | None \<Rightarrow> take i ds @ drop (Suc i) ds)"

text \<open>
  \<open>starts\<close> says that a daemon may start while another does, \<open>downs\<close> that one may start while a \<open>down\<close> is
  killing.
\<close>

inductive daemon_step :: "bool \<Rightarrow> bool \<Rightarrow> (string \<Rightarrow> string) \<Rightarrow> string \<Rightarrow> string \<Rightarrow> daemons \<Rightarrow> daemons \<Rightarrow> bool"
  for starts downs quote sock path where
  daemon_checks: "\<not> is_alive s pid \<Longrightarrow> 0 < pid \<Longrightarrow> pid \<le> int64_max \<Longrightarrow> starts \<or> dm_writing s = {} \<Longrightarrow> downs \<or> dm_downs s = [] \<Longrightarrow>
    pid_step quote (\<lambda>p. p = pid \<or> is_alive s p) mkdir w path pid (W_check, dm_disk s) = (W_write, d) \<Longrightarrow>
    daemon_step starts downs quote sock path s (s\<lparr>dm_disk := d, dm_writing := insert pid (dm_writing s)\<rparr>)"
| daemon_refused: "pid_step quote (\<lambda>p. p = pid \<or> is_alive s p) mkdir w path pid (W_check, dm_disk s) = (W_done (Some err), d) \<Longrightarrow>
    daemon_step starts downs quote sock path s (s\<lparr>dm_disk := d\<rparr>)"
| daemon_writes: "pid \<in> dm_writing s \<Longrightarrow>
    pid_step quote (\<lambda>p. p = pid \<or> is_alive s p) mkdir w path pid (W_write, dm_disk s) = (W_done err, d) \<Longrightarrow>
    daemon_step starts downs quote sock path s (s\<lparr>dm_disk := d, dm_writing := dm_writing s - {pid},
      dm_daemons := (if err = None then insert pid (dm_daemons s) else dm_daemons s)\<rparr>)"
| daemon_exits: "pid \<in> dm_daemons s \<Longrightarrow>
    daemon_step starts downs quote sock path s (s\<lparr>dm_disk := Cleanup sock path (dm_disk s), dm_daemons := dm_daemons s - {pid}\<rparr>)"
| daemon_crashes: "daemon_step starts downs quote sock path s
    (s\<lparr>dm_daemons := dm_daemons s - {pid}, dm_writing := dm_writing s - {pid}\<rparr>)"
| others_change: "others \<inter> (dm_writing s \<union> dm_daemons s) = {} \<Longrightarrow>
    daemon_step starts downs quote sock path s (s\<lparr>dm_others := others\<rparr>)"
| down_begins: "downs \<or> dm_writing s = {} \<Longrightarrow>
    daemon_step starts downs quote sock path s (s\<lparr>dm_downs := dm_downs s @ [K_read force]\<rparr>)"
| down_goes_on: "i < length (dm_downs s) \<Longrightarrow> down_step quote sock path (dm_downs s ! i) s = (pc, s') \<Longrightarrow>
    daemon_step starts downs quote sock path s (s'\<lparr>dm_downs := put_down i pc (dm_downs s)\<rparr>)"

inductive daemons_reachable :: "bool \<Rightarrow> bool \<Rightarrow> (string \<Rightarrow> string) \<Rightarrow> string \<Rightarrow> string \<Rightarrow> daemons \<Rightarrow> bool"
  for starts downs quote sock path where
  dm_init: "daemons_reachable starts downs quote sock path
    \<lparr>dm_disk = d, dm_writing = {}, dm_daemons = {}, dm_others = others, dm_downs = []\<rparr>"
| dm_more: "daemons_reachable starts downs quote sock path s \<Longrightarrow> daemon_step starts downs quote sock path s s' \<Longrightarrow>
    daemons_reachable starts downs quote sock path s'"

text \<open>What one undisturbed \<open>WritePIDFile\<close> does.\<close>

lemma WritePIDFile_eq:
  "WritePIDFile quote alive mkdir w path pid d =
     (case mkdir of
        Some err \<Rightarrow> (Some (Errorf_w ''creating PID directory'' err), d)
      | None \<Rightarrow>
          (case ReadPIDFile quote path d of
             Inr existing \<Rightarrow>
               if alive existing then (Some (Opaque (''daemon already running with PID '' @ show_int existing)), d)
               else WriteFile w path (show_int pid) d
           | Inl _ \<Rightarrow> WriteFile w path (show_int pid) d))"
  by (simp add: WritePIDFile_def pid_step_def eval_nat_numeral split: option.splits sum.splits prod.splits)

lemma printing_digit: "is_digit c \<Longrightarrow> printing c"
  by (simp add: is_digit_def printing_def byte_def)

lemma TrimSpace_digits: "TrimSpace (show_nat n) = show_nat n"
  by (rule TrimSpace_printing)
    (simp_all add: printing_digit show_nat_digits [OF hd_in_set] show_nat_digits [OF last_in_set])

lemma ReadPIDFile_written:
  "0 < pid \<Longrightarrow> pid \<le> int64_max \<Longrightarrow> d path = Some (show_int pid) \<Longrightarrow> ReadPIDFile quote path d = Inr pid"
  using Atoi_show_int [of pid quote]
  by (simp add: ReadPIDFile_def ReadFile_def show_int_def TrimSpace_digits)

lemma WriteFile_ok: "WriteFile w path data d = (None, d') \<Longrightarrow> d' = d(path \<mapsto> data)"
  by (cases w) (auto simp: WriteFile_def)

lemma pid_step_check:
  "pid_step quote alive mkdir w path pid (W_check, d) = (pc, d') \<Longrightarrow>
     d' = d \<and> (\<forall>p. ReadPIDFile quote path d = Inr p \<and> alive p \<longrightarrow> pc \<noteq> W_write)"
  by (auto simp: pid_step_def split: option.splits sum.splits if_splits)

lemma pid_step_write:
  assumes "pid_step quote alive mkdir w path pid (W_write, d) = (W_done None, d')" and "0 < pid" and "pid \<le> int64_max"
  shows "ReadPIDFile quote path d' = Inr pid"
  using assms ReadPIDFile_written [OF assms(2,3), of d' path quote]
  by (auto simp: pid_step_def dest!: WriteFile_ok split: prod.splits)

text \<open>What a \<open>down\<close> knows of the daemon it is killing, as long as none starts.\<close>

fun down_knows :: "int set \<Rightarrow> down_pc \<Rightarrow> bool" where
  "down_knows ds (K_read force) = True"
| "down_knows ds (K_signal force p) = (ds \<subseteq> {p})"
| "down_knows ds (K_poll p n) = (ds \<subseteq> {p})"
| "down_knows ds K_cleanup = (ds = {})"

lemma down_knows_mono: "down_knows ds pc \<Longrightarrow> ds' \<subseteq> ds \<Longrightarrow> down_knows ds' pc"
  by (cases pc) auto

definition pid_inv :: "(string \<Rightarrow> string) \<Rightarrow> string \<Rightarrow> daemons \<Rightarrow> bool" where
  "pid_inv quote path s \<longleftrightarrow> (dm_writing s = {} \<or> dm_daemons s = {} \<and> dm_downs s = [] \<and> (\<exists>p. dm_writing s = {p} \<and> 0 < p \<and> p \<le> int64_max)) \<and>
     (dm_daemons s = {} \<or> (\<exists>p. dm_daemons s = {p} \<and> ReadPIDFile quote path (dm_disk s) = Inr p)) \<and>
     (\<forall>pc\<in>set (dm_downs s). down_knows (dm_daemons s) pc)"

lemma set_put_down: "set (put_down i pc ds) \<subseteq> set ds \<union> set_option pc"
  by (cases pc) (auto simp: put_down_def dest: in_set_takeD in_set_dropD dest!: subsetD [OF set_update_subset_insert])

lemma down_step_inv:
  assumes "pid_inv quote path s" and "i < length (dm_downs s)" and "down_step quote sock path (dm_downs s ! i) s = (pc, s')"
  shows "pid_inv quote path (s'\<lparr>dm_downs := put_down i pc (dm_downs s)\<rparr>)"
proof -
  let ?pc = "dm_downs s ! i"
  have at: "?pc \<in> set (dm_downs s)" using assms(2) by simp
  then have w: "dm_writing s = {}" and knows: "down_knows (dm_daemons s) ?pc" using assms(1) by (auto simp: pid_inv_def)
  have step: "dm_writing s' = {} \<and> dm_daemons s' \<subseteq> dm_daemons s \<and> (dm_daemons s' \<noteq> {} \<longrightarrow> dm_disk s' = dm_disk s) \<and>
      (\<forall>k. pc = Some k \<longrightarrow> down_knows (dm_daemons s') k)"
    using assms(3) knows w assms(1)
    by (cases "(quote, sock, path, ?pc, s)" rule: down_step.cases)
      (auto simp: pid_inv_def is_alive_def split: sum.splits if_splits)
  then have "\<forall>k\<in>set (put_down i pc (dm_downs s)). down_knows (dm_daemons s') k"
    using set_put_down [of i pc "dm_downs s"] assms(1) down_knows_mono unfolding pid_inv_def
    by (metis (no_types, lifting) Un_iff elem_set subsetD)
  moreover have "dm_daemons s' = {} \<or> (\<exists>p. dm_daemons s' = {p} \<and> ReadPIDFile quote path (dm_disk s') = Inr p)"
    using step assms(1) unfolding pid_inv_def by (cases "dm_daemons s' = {}") (auto dest: subset_singletonD)
  ultimately show ?thesis using step by (simp add: pid_inv_def)
qed

lemma pid_inv_step:
  assumes "pid_inv quote path s" and "daemon_step False False quote sock path s s'"
  shows "pid_inv quote path s'"
  using assms(2)
proof cases
  case (daemon_checks pid mkdir w d)
  note ok = pid_step_check [OF daemon_checks(7)]
  then have "dm_daemons s = {}" using assms(1) by (auto simp: pid_inv_def is_alive_def)
  then show ?thesis using daemon_checks by (simp add: pid_inv_def)
next
  case (daemon_refused pid mkdir w err d)
  then show ?thesis using assms(1) pid_step_check [OF daemon_refused(2)] by simp
next
  case (daemon_writes pid mkdir w err d)
  then have "dm_daemons s = {}" "dm_writing s = {pid}" "dm_downs s = []" "0 < pid" "pid \<le> int64_max"
    using assms(1) by (auto simp: pid_inv_def)
  then show ?thesis
    using pid_step_write daemon_writes(3) by (auto simp: daemon_writes(1) pid_inv_def)
next
  case (daemon_exits pid)
  then have "dm_daemons s = {pid}" "dm_writing s = {}" using assms(1) by (auto simp: pid_inv_def)
  then show ?thesis using assms(1) daemon_exits by (auto simp: pid_inv_def intro: down_knows_mono)
next
  case (daemon_crashes pid)
  then show ?thesis using assms(1) by (auto simp: pid_inv_def intro: down_knows_mono)
next
  case (others_change others)
  then show ?thesis using assms(1) by (simp add: pid_inv_def)
next
  case (down_begins force)
  then show ?thesis using assms(1) by (auto simp: pid_inv_def)
next
  case (down_goes_on i pc s')
  then show ?thesis using down_step_inv [OF assms(1)] by simp
qed

text \<open>A daemon that starts where no PID file is, from the check to the write.\<close>

lemma daemon_start:
  assumes "daemons_reachable starts downs quote sock path s" and "\<not> is_alive s pid" and "0 < pid" and "pid \<le> int64_max"
    and "dm_writing s = {}" and "downs \<or> dm_downs s = []" and "dm_disk s path = None"
  shows "daemons_reachable starts downs quote sock path
    (s\<lparr>dm_disk := (dm_disk s)(path \<mapsto> show_int pid), dm_daemons := insert pid (dm_daemons s)\<rparr>)"
proof -
  let ?s = "s\<lparr>dm_disk := dm_disk s, dm_writing := insert pid (dm_writing s)\<rparr>"
  have "pid_step quote (\<lambda>p. p = pid \<or> is_alive s p) None Written path pid (W_check, dm_disk s) = (W_write, dm_disk s)"
    using assms(7) by (simp add: pid_step_def ReadPIDFile_def ReadFile_def)
  then have "daemon_step starts downs quote sock path s ?s"
    by (intro daemon_checks) (use assms in auto)
  with assms(1) have r: "daemons_reachable starts downs quote sock path ?s" by (rule dm_more)
  have "pid_step quote (\<lambda>p. p = pid \<or> is_alive ?s p) None Written path pid (W_write, dm_disk ?s) =
      (W_done None, (dm_disk s)(path \<mapsto> show_int pid))"
    by (simp add: pid_step_def WriteFile_def)
  from dm_more [OF r daemon_writes [OF _ this]]
  have "daemons_reachable starts downs quote sock path (s\<lparr>dm_disk := (dm_disk s)(path \<mapsto> show_int pid), dm_writing := {},
      dm_daemons := insert pid (dm_daemons s)\<rparr>)" using assms(5) by simp
  also have "s\<lparr>dm_disk := (dm_disk s)(path \<mapsto> show_int pid), dm_writing := {}, dm_daemons := insert pid (dm_daemons s)\<rparr> =
      s\<lparr>dm_disk := (dm_disk s)(path \<mapsto> show_int pid), dm_daemons := insert pid (dm_daemons s)\<rparr>"
    using assms(5) by (cases s) simp
  finally show ?thesis .
qed

definition bare_host :: daemons where
  "bare_host = \<lparr>dm_disk = Map.empty, dm_writing = {}, dm_daemons = {}, dm_others = {}, dm_downs = []\<rparr>"

lemma bare_reachable: "daemons_reachable starts downs quote sock path bare_host"
  unfolding bare_host_def by (rule dm_init)

lemma down_move:
  assumes "daemons_reachable starts downs quote sock path s" and "dm_downs s = [pc]"
    and "down_step quote sock path pc s = (next_pc, s')"
  shows "daemons_reachable starts downs quote sock path (s'\<lparr>dm_downs := (case next_pc of Some k \<Rightarrow> [k] | None \<Rightarrow> [])\<rparr>)"
  using dm_more [OF assms(1) down_goes_on [of 0]] assms(2,3) by (auto simp: put_down_def split: option.splits)

lemma is_alive_simps [simp]: "is_alive (s\<lparr>dm_disk := x0\<rparr>) = is_alive s" "is_alive (s\<lparr>dm_downs := x1\<rparr>) = is_alive s"
  by (auto simp: is_alive_def)

text \<open>Two daemons that both check before either writes.\<close>

lemma starts_race: "\<exists>s. daemons_reachable True False quote sock path s \<and> dm_daemons s = {7, 8}"
proof -
  let ?check = "\<lambda>ws. bare_host\<lparr>dm_writing := ws\<rparr>"
  have check: "daemons_reachable True False quote sock path (?check ws) \<Longrightarrow> pid \<notin> ws \<Longrightarrow> 0 < pid \<Longrightarrow> pid \<le> int64_max \<Longrightarrow>
      daemons_reachable True False quote sock path (?check (insert pid ws))" for ws pid
    using dm_more [OF _ daemon_checks [of "?check ws" pid True False quote None Written path Map.empty sock]]
    by (simp add: bare_host_def is_alive_def pid_step_def ReadPIDFile_def ReadFile_def)
  have "daemons_reachable True False quote sock path (?check {})" using bare_reachable by (simp add: bare_host_def)
  from check [OF check [OF this, of 7], of 8] have both: "daemons_reachable True False quote sock path (?check {8, 7})"
    by (simp add: int64_max_def)
  let ?s1 = "bare_host\<lparr>dm_disk := [path \<mapsto> show_int 7], dm_writing := {8}, dm_daemons := {7}\<rparr>"
  from dm_more [OF both daemon_writes [of 7 _ quote None Written path None "[path \<mapsto> show_int 7]"]]
  have "daemons_reachable True False quote sock path ?s1"
    by (simp add: pid_step_def WriteFile_def bare_host_def insert_Diff_if)
  from dm_more [OF this daemon_writes [of 8 _ quote None Written path None "[path \<mapsto> show_int 8]"]]
  show ?thesis by (auto simp: pid_step_def WriteFile_def bare_host_def intro!: exI)
qed

text \<open>
  A \<open>down\<close> that sees the old daemon gone and clears up after a new one has started: the new one's PID file
  goes, and a third daemon starts beside it.
\<close>

lemma down_race:
  assumes "sock \<noteq> path"
  shows "\<exists>s. daemons_reachable False True quote sock path s \<and> dm_daemons s = {8, 9} \<and> ReadPIDFile quote path (dm_disk s) = Inr 9"
proof -
  note start = daemon_start [of False True quote sock path]
  define s1 where "s1 = bare_host\<lparr>dm_disk := [path \<mapsto> show_int 7], dm_daemons := {7}\<rparr>"
  have "daemons_reachable False True quote sock path s1"
    using start [OF bare_reachable, of 7] by (simp add: s1_def bare_host_def is_alive_def int64_max_def)
  from dm_more [OF this down_begins [of True _ False]]
  have "daemons_reachable False True quote sock path (s1\<lparr>dm_downs := [K_read False]\<rparr>)" by (simp add: s1_def bare_host_def)
  moreover have "ReadPIDFile quote path (dm_disk s1) = Inr 7"
    by (rule ReadPIDFile_written) (simp_all add: s1_def int64_max_def)
  ultimately have "daemons_reachable False True quote sock path (s1\<lparr>dm_downs := [K_signal False 7]\<rparr>)"
    using down_move [of False True quote sock path "s1\<lparr>dm_downs := [K_read False]\<rparr>" "K_read False"] by simp
  then have poll: "daemons_reachable False True quote sock path (s1\<lparr>dm_downs := [K_poll 7 30]\<rparr>)"
    using down_move [of False True quote sock path "s1\<lparr>dm_downs := [K_signal False 7]\<rparr>" "K_signal False 7"] by simp
  define s2 where "s2 = bare_host\<lparr>dm_disk := Cleanup sock path [path \<mapsto> show_int 7]\<rparr>"
  from dm_more [OF poll daemon_exits [of 7]] have "daemons_reachable False True quote sock path (s2\<lparr>dm_downs := [K_poll 7 30]\<rparr>)"
    by (simp add: s1_def s2_def bare_host_def)
  then have cleanup: "daemons_reachable False True quote sock path (s2\<lparr>dm_downs := [K_cleanup]\<rparr>)"
    using down_move [of False True quote sock path "s2\<lparr>dm_downs := [K_poll 7 30]\<rparr>" "K_poll 7 30"]
    by (simp add: eval_nat_numeral is_alive_def s2_def bare_host_def)
  define s3 where "s3 = s2\<lparr>dm_disk := (dm_disk s2)(path \<mapsto> show_int 8), dm_daemons := {8}\<rparr>"
  have "daemons_reachable False True quote sock path (s3\<lparr>dm_downs := [K_cleanup]\<rparr>)"
    using start [OF cleanup, of 8] by (simp add: s3_def s2_def bare_host_def is_alive_def int64_max_def Cleanup_def)
  from down_move [OF this] have "daemons_reachable False True quote sock path (s3\<lparr>dm_disk := Cleanup sock path (dm_disk s3)\<rparr>)"
    by (simp add: s3_def s2_def bare_host_def)
  from start [OF this, of 9] show ?thesis
    by (intro exI [of _ "s3\<lparr>dm_disk := (Cleanup sock path (dm_disk s3))(path \<mapsto> show_int 9), dm_daemons := {8, 9}\<rparr>"])
      (simp add: s3_def s2_def bare_host_def is_alive_def int64_max_def Cleanup_def insert_commute ReadPIDFile_written)
qed

text \<open>
  C39: Through any sequence of starts, refusals, exits and crashes of daemons, \<open>holepunch down\<close> commands
  with and without force, and other processes that come and go with any PIDs, at most one daemon runs and
  the PID file names it: as long as no daemon starts while another is between its check and its write, or
  while a \<open>down\<close> is under way. Both conditions are needed. Two daemons that check before either writes
  both start; and a \<open>down\<close> that found the old daemon gone removes the PID file of a new one, so that
  another starts beside it, with no two starts overlapping.
\<close>

theorem pid_file_excludes:
  assumes "daemons_reachable False False quote sock path s" and "sock \<noteq> path"
  shows "(dm_daemons s = {} \<or> (\<exists>p. dm_daemons s = {p} \<and> ReadPIDFile quote path (dm_disk s) = Inr p)) \<and>
    (\<exists>s. daemons_reachable True False quote sock path s \<and> dm_daemons s = {7, 8}) \<and>
    (\<exists>s. daemons_reachable False True quote sock path s \<and> dm_daemons s = {8, 9} \<and> ReadPIDFile quote path (dm_disk s) = Inr 9)"
proof -
  have "pid_inv quote path s"
    using assms(1) by induction (simp add: pid_inv_def, rule pid_inv_step)
  then show ?thesis using starts_race down_race [OF assms(2)] by (simp add: pid_inv_def)
qed

lemma one_daemon_reachable:
  "daemons_reachable False False id ''s'' ''p'' (bare_host\<lparr>dm_disk := [''p'' \<mapsto> show_int 7], dm_daemons := {7}\<rparr>)"
  using daemon_start [OF bare_reachable, of 7 False "''p''" False id "''s''"]
  by (simp add: bare_host_def is_alive_def int64_max_def)

theorem pid_file_excludes_witness: "ReadPIDFile id ''p'' [''p'' \<mapsto> show_int 7] = Inr 7"
  using pid_file_excludes [OF one_daemon_reachable] by simp

end
