(* ===== verification/Cli.thy ===== *)
theory Cli
  imports Lifecycle Client Netwatch Server
begin

text \<open>
  The commands of \<open>cmd/\<close> that talk to the daemon: \<open>up\<close>, \<open>down\<close>, \<open>restart\<close>, \<open>status\<close> and \<open>logs\<close>, and the
  launching of the daemon. A run gives the error it returns, the lines it prints and what it does to
  the daemon. What the daemon and the host answer are arguments: \<open>alive i\<close> is the answer to the
  \<open>i\<close>-th \<open>IsRunning\<close> of a run, \<open>send\<close> what \<open>SendCommand\<close> returns.
\<close>

section \<open>Launching the daemon\<close>

record launch_answers =
  ln_executable :: "go_error option"
  ln_log :: "go_error option"
  ln_start :: "go_error option"
  ln_close :: "go_error option"

definition launchDaemon :: "launch_answers \<Rightarrow> go_error option" where
  "launchDaemon a =
     (case ln_executable a of
        Some err \<Rightarrow> Some err
      | None \<Rightarrow>
          (case ln_log a of
             Some err \<Rightarrow> Some err
           | None \<Rightarrow>
               (case (ln_close a, ln_start a) of
                  (Some err, None) \<Rightarrow> Some (Errorf_w ''closing daemon log'' err)
                | (_, startErr) \<Rightarrow> startErr)))"

definition ensureDaemon :: "(nat \<Rightarrow> bool) \<Rightarrow> launch_answers \<Rightarrow> go_error option \<times> string list" where
  "ensureDaemon alive a =
     (if alive 0 then (None, [])
      else
        (case launchDaemon a of
           Some err \<Rightarrow> (Some (Errorf_w ''starting daemon'' err), [''Starting daemon...''])
         | None \<Rightarrow>
             (if list_ex alive [1..<51] then None else Some (Opaque ''daemon failed to start within 5 seconds''),
              [''Starting daemon...''])))"

text \<open>\<open>runTray\<close> without \<open>--foreground\<close>: the daemon first, then the tray, which is left to itself.\<close>

definition launchTray :: "go_error option \<Rightarrow> go_error option \<Rightarrow> go_error option \<times> string list" where
  "launchTray executable start =
     (case executable of
        Some err \<Rightarrow> (Some (Errorf_w ''resolving tray executable path'' err), [])
      | None \<Rightarrow>
          (case start of
             Some err \<Rightarrow> (Some (Errorf_w ''starting tray'' err), [])
           | None \<Rightarrow> (None, [''Tray started.''])))"

definition runTray ::
  "(nat \<Rightarrow> bool) \<Rightarrow> launch_answers \<Rightarrow> go_error option \<Rightarrow> go_error option \<Rightarrow> go_error option \<times> string list" where
  "runTray alive a executable start =
     (case ensureDaemon alive a of
        (Some err, out) \<Rightarrow> (Some err, out)
      | (None, out) \<Rightarrow> (case launchTray executable start of (err, out') \<Rightarrow> (err, out @ out')))"

section \<open>up\<close>

record up_answers =
  ua_load :: "go_error + Config"
  ua_stale :: bool
  ua_running :: "nat \<Rightarrow> bool"
  ua_launch :: launch_answers
  ua_send :: "Request \<Rightarrow> go_error + Response"

record cli_run =
  cr_err :: "go_error option"
  cr_out :: "string list"
  cr_sent :: "Request list"

definition up_targets :: "up_answers \<Rightarrow> string list \<Rightarrow> go_error + string list" where
  "up_targets a args =
     (if args \<noteq> [] then Inr args
      else
        (case ua_load a of
           Inl err \<Rightarrow> Inl err
         | Inr cfg \<Rightarrow>
             (if keys (Profiles cfg) = [] then Inl (Opaque ''no profiles defined in config'')
              else Inr (keys (Profiles cfg)))))"

definition stale_warning :: "string list" where
  "stale_warning = [''Warning: config has changed since last setup.'',
     ''Run 'sudo holepunch setup' then 'holepunch restart' to apply changes.'', []]"

text \<open>A response that is not OK becomes an error, in every command.\<close>

definition send_command :: "(Request \<Rightarrow> go_error + Response) \<Rightarrow> Request \<Rightarrow> go_error + Response" where
  "send_command send req =
     (case send req of
        Inl err \<Rightarrow> Inl err
      | Inr resp \<Rightarrow> if rs_OK resp then Inr resp else Inl (Opaque (''daemon error: '' @ rs_Error resp)))"

definition command :: "string \<Rightarrow> string list \<Rightarrow> Request" where
  "command c targets = \<lparr>rq_Command = c, rq_Targets = targets, rq_Follow = False\<rparr>"

definition runUp :: "up_answers \<Rightarrow> string list \<Rightarrow> cli_run" where
  "runUp a args =
     (case up_targets a args of
        Inl err \<Rightarrow> \<lparr>cr_err = Some err, cr_out = [], cr_sent = []\<rparr>
      | Inr args \<Rightarrow>
          (let warned = (if ua_stale a then stale_warning else [])
           in case ensureDaemon (ua_running a) (ua_launch a) of
               (Some err, out) \<Rightarrow> \<lparr>cr_err = Some err, cr_out = warned @ out, cr_sent = []\<rparr>
             | (None, out) \<Rightarrow>
                 (let req = command CmdUp args
                  in case send_command (ua_send a) req of
                      Inl err \<Rightarrow> \<lparr>cr_err = Some err, cr_out = warned @ out, cr_sent = [req]\<rparr>
                    | Inr _ \<Rightarrow>
                        \<lparr>cr_err = None,
                         cr_out = warned @ out @ [''Started: '' @ slice_text args,
                           ''Use 'holepunch status' to check service states.''],
                         cr_sent = [req]\<rparr>)))"

section \<open>down\<close>

datatype signal = SIGINT | SIGKILL

record kill_run =
  kr_out :: "string list"
  kr_signals :: "(int \<times> signal) list"
  kr_cleaned :: bool

text \<open>
  \<open>pid\<close> is what \<open>ReadPIDFile\<close> gives, \<open>find\<close> whether \<open>os.FindProcess\<close> fails, \<open>gone i\<close> whether the
  \<open>i\<close>-th poll found no process.
\<close>

definition killDaemon :: "go_error + int \<Rightarrow> bool \<Rightarrow> (nat \<Rightarrow> bool) \<Rightarrow> bool \<Rightarrow> kill_run" where
  "killDaemon pid find_fails gone force =
     (case pid of
        Inl _ \<Rightarrow> \<lparr>kr_out = [''Daemon stopped.''], kr_signals = [], kr_cleaned = True\<rparr>
      | Inr pid \<Rightarrow>
          if find_fails then \<lparr>kr_out = [''Daemon stopped.''], kr_signals = [], kr_cleaned = True\<rparr>
          else if force
          then \<lparr>kr_out = [''Force killing daemon (PID '' @ show_int pid @ '')...'', ''Daemon killed.''],
                kr_signals = [(pid, SIGKILL)], kr_cleaned = True\<rparr>
          else if list_ex gone [0..<30]
          then \<lparr>kr_out = [''Daemon stopped.''], kr_signals = [(pid, SIGINT)], kr_cleaned = True\<rparr>
          else \<lparr>kr_out = [''Daemon did not stop in time. Use -f to force kill.''],
                kr_signals = [(pid, SIGINT)], kr_cleaned = False\<rparr>)"

record down_answers =
  da_running :: bool
  da_pid :: "go_error + int"
  da_find_fails :: bool
  da_gone :: "nat \<Rightarrow> bool"
  da_send :: "Request \<Rightarrow> go_error + Response"

definition runDown :: "down_answers \<Rightarrow> bool \<Rightarrow> string list \<Rightarrow> cli_run \<times> kill_run option" where
  "runDown a forceKill args =
     (let kill = killDaemon (da_pid a) (da_find_fails a) (da_gone a) forceKill
      in if forceKill then (\<lparr>cr_err = None, cr_out = kr_out kill, cr_sent = []\<rparr>, Some kill)
         else if \<not> da_running a then
           (\<lparr>cr_err = None,
             cr_out = (case da_pid a of
                 Inr pid \<Rightarrow> [''Daemon unresponsive (PID '' @ show_int pid @ ''). Use -f to force kill.'']
               | Inl _ \<Rightarrow> [''Daemon is not running.'']),
             cr_sent = []\<rparr>, None)
         else
           let req = command CmdDown args
           in case send_command (da_send a) req of
               Inl err \<Rightarrow> (\<lparr>cr_err = Some err, cr_out = [], cr_sent = [req]\<rparr>, None)
             | Inr _ \<Rightarrow>
                 if args \<noteq> [] then (\<lparr>cr_err = None, cr_out = [''Stopped: '' @ slice_text args], cr_sent = [req]\<rparr>, None)
                 else
                   (\<lparr>cr_err = None, cr_out = ''All profiles stopped. Shutting down daemon...'' # kr_out kill, cr_sent = [req]\<rparr>,
                    Some kill))"

section \<open>restart\<close>

text \<open>
  The polls stop at the first that finds no daemon, at most 30; the rest of the run's \<open>IsRunning\<close>
  answers are \<open>up\<close>'s. What the old daemon answers to the \<open>down\<close> is ignored.
\<close>

definition restart_polls :: "(nat \<Rightarrow> bool) \<Rightarrow> nat" where
  "restart_polls alive = (if alive 0 then min 31 (length (takeWhile alive [1..<31]) + 2) else 1)"

definition runRestart :: "up_answers \<Rightarrow> go_error + int \<Rightarrow> bool \<Rightarrow> cli_run \<times> (int \<times> signal) list" where
  "runRestart a pid find_fails =
     (let stopping = ua_running a 0;
          n = restart_polls (ua_running a);
          up = runUp (a\<lparr>ua_running := (\<lambda>i. ua_running a (n + i))\<rparr>) []
      in (up\<lparr>cr_out := (if stopping then [''Stopping daemon...''] else []) @ [''Starting daemon...''] @ cr_out up,
             cr_sent := (if stopping then [command CmdDown []] else []) @ cr_sent up\<rparr>,
          if stopping then (case pid of Inr pid \<Rightarrow> if find_fails then [] else [(pid, SIGINT)] | Inl _ \<Rightarrow> []) else []))"

section \<open>status and logs\<close>

definition stateIcon :: "string \<Rightarrow> string" where
  "stateIcon state =
     (if state = ''Connected'' then [CHR 0xE2, CHR 0x97, CHR 0x8F]
      else if state = ''Reconnecting'' then [CHR 0xE2, CHR 0x86, CHR 0xBB]
      else if state = ''Starting'' then [CHR 0xE2, CHR 0x97, CHR 0x8C]
      else if state = ''Failed'' then [CHR 0xE2, CHR 0x9C, CHR 0x97]
      else if state = ''Stopping'' then [CHR 0xE2, CHR 0x97, CHR 0x8C]
      else [CHR 0xE2, CHR 0x97, CHR 0x8B])"

text \<open>A row of the table as its cells, before the tab writer aligns them.\<close>

definition status_row :: "StatusEntry \<Rightarrow> string list" where
  "status_row s = [se_Profile s, se_ServiceName s, se_DNSName s, se_LocalAddr s,
     stateIcon (se_State s) @ '' '' @ se_State s, se_ConnectedAt s, se_Error s]"

definition status_header :: "string list" where
  "status_header = [''PROFILE'', ''SERVICE'', ''DNS'', ''ADDRESS'', ''STATE'', ''UPTIME'', ''ERROR'']"

definition runStatus :: "bool \<Rightarrow> (Request \<Rightarrow> go_error + Response) \<Rightarrow> go_error option \<times> string list list" where
  "runStatus alive send =
     (if \<not> alive then (None, [[''Daemon is not running.'']])
      else
        (case send_command send (command CmdStatus []) of
           Inl err \<Rightarrow> (Some err, [])
         | Inr resp \<Rightarrow>
             if rs_Statuses resp = [] then (None, [[''No services configured.'']])
             else (None, status_header # map status_row (rs_Statuses resp))))"

definition log_line :: "(instant \<Rightarrow> string) \<Rightarrow> EngineLogEntry \<Rightarrow> string" where
  "log_line clock l =
     ''['' @ clock (le_Time l) @ ''] ['' @ le_Level l @ ''] ['' @ le_Profile l @ ''/'' @ le_Service l @ ''] '' @ le_Message l"

definition runLogs ::
  "(instant \<Rightarrow> string) \<Rightarrow> codec \<Rightarrow> conn_answers \<Rightarrow> bytes \<Rightarrow> bool \<Rightarrow> bool \<Rightarrow> go_error option \<times> string list" where
  "runLogs clock c a stream alive followLogs =
     (if \<not> alive then (None, [''Daemon is not running.''])
      else StreamLogs c a stream \<lparr>rq_Command = CmdLogs, rq_Targets = [], rq_Follow = followLogs\<rparr>
        (\<lambda>resp out. (True, out @ (case rs_Event resp of Some l \<Rightarrow> [log_line clock l] | None \<Rightarrow> []))) [])"

end
