(* ===== verification/Cli_Theorems.thy ===== *)
theory Cli_Theorems
  imports Cli Server_Theorems
begin

text \<open>
  The commands against the daemon: what \<open>holepunch up\<close> brings about in the engine through the protocol,
  and what \<open>restart\<close> does with a daemon that takes its time to end.
\<close>

lemma resolve_profiles:
  assumes "distinct (keys ps)"
  shows "set names \<subseteq> set (keys ps) \<Longrightarrow> list_all (\<lambda>p. CHR ''/'' \<notin> set p) names \<Longrightarrow>
    resolveTargets ps names = Inr (concat (map (\<lambda>n. map (Pair n) (Services (the (map_of ps n)))) names))"
proof (induction names)
  case (Cons n names)
  then obtain p where "map_of ps n = Some p" using map_of_eq_None_keys [of ps n] by (cases "map_of ps n") auto
  with Cons show ?case by (simp add: Cut_absent)
qed simp

lemma resolve_all_profiles:
  assumes "distinct (keys (Profiles cfg))" and "list_all (\<lambda>p. CHR ''/'' \<notin> set p) (keys (Profiles cfg))"
  shows "resolveTargets (Profiles cfg) (keys (Profiles cfg)) = Inr (config_services cfg)"
proof -
  have "concat (map (\<lambda>n. map (Pair n) (Services (the (map_of ps n)))) (keys qs)) = concat (map (\<lambda>(name, p). map (Pair name) (Services p)) qs)"
    if "distinct (keys ps)" "set qs \<subseteq> set ps" for ps qs :: "(string \<times> Profile) list"
    using that by (induction qs) (auto simp: map_of_in_set)
  then show ?thesis using resolve_profiles [OF assms(1) subset_refl assms(2)] assms(1) by (simp add: config_services_def)
qed

text \<open>
  C13: \<open>holepunch up\<close> without arguments, where command and daemon loaded the same configuration, with at
  least one profile and no slash in a profile's name, and the connection transports what is written: if
  the daemon is not running and cannot be launched, it fails with that error and sends nothing; otherwise it sends
  one request for all profiles, ends without an error exactly when the engine's \<open>Start\<close> does, and then every
  configured service has an instance with a loopback address of its own, those that ran before untouched.
\<close>

theorem up_starts_every_service:
  fixes cfg :: Config
  defines "req \<equiv> command CmdUp (keys (Profiles cfg))"
  assumes "engine_ok e" and "e_cfg e = cfg" and "ua_load a = Inr cfg" and "Profiles cfg \<noteq> []"
    and "distinct (keys (Profiles cfg))" and "list_all (\<lambda>p. CHR ''/'' \<notin> set p) (keys (Profiles cfg))"
    and "codec_ok c (json_Request req)"
    and "list_all (\<lambda>r. codec_ok c (json_Response r)) (fst (handleConnection env (Inr req) e))"
    and "conversation c env req e = (stream, e')" and "ua_send a = SendCommand c good_conn stream"
  shows "case fst (ensureDaemon (ua_running a) (ua_launch a)) of
      Some err \<Rightarrow> cr_sent (runUp a []) = [] \<and> cr_err (runUp a []) = Some err
    | None \<Rightarrow> cr_sent (runUp a []) = [req] \<and>
    (cr_err (runUp a []) = None \<longleftrightarrow> fst (engine_Start (ce_now env) (keys (Profiles cfg)) e) = None) \<and>
    (cr_err (runUp a []) = None \<longrightarrow> engine_ok e' \<and>
      (\<forall>(p, svc)\<in>set (config_services cfg). \<exists>n i. map_of (instances e') (service_key p svc) = Some n \<and>
         alloc_addr (e_ips e') (service_key p svc) = Some i \<and> si_localIP (objs e' ! n) = ip_String i) \<and>
      (\<forall>key n. map_of (instances e) key = Some n \<longrightarrow> map_of (instances e') key = Some n \<and> objs e' ! n = objs e ! n))"
proof -
  have cmd: "rq_Command req = CmdUp" "rq_Targets req = keys (Profiles cfg)" by (simp_all add: req_def command_def)
  have "rq_Command req \<notin> {CmdLogs, CmdSubscribe, CmdTrayRegister}" by (simp add: cmd(1) cmd_defs)
  from command_reply [OF assms(8,9) this assms(10)] obtain resp where sent: "SendCommand c good_conn stream req = Inr resp"
    and ok: "rs_OK resp = (fst (engine_Start (ce_now env) (keys (Profiles cfg)) e) = None)"
    and e': "e' = snd (engine_Start (ce_now env) (keys (Profiles cfg)) e)"
    by (auto simp: cmd)
  have targets: "up_targets a [] = Inr (keys (Profiles cfg))"
    using assms(4,5) by (cases "Profiles cfg") (auto simp: up_targets_def keys_def)
  have failed: "cr_sent (runUp a []) = [] \<and> cr_err (runUp a []) = Some err"
    if "fst (ensureDaemon (ua_running a) (ua_launch a)) = Some err" for err
    using that targets by (auto simp: runUp_def Let_def split: prod.splits)
  have run: "cr_sent (runUp a []) = [req]" "cr_err (runUp a []) = None \<longleftrightarrow> rs_OK resp"
    if "fst (ensureDaemon (ua_running a) (ua_launch a)) = None"
    using that sent targets assms(11)
    by (auto simp: runUp_def send_command_def Let_def req_def split: prod.splits option.splits)
  obtain err where start: "engine_Start (ce_now env) (keys (Profiles cfg)) e = (err, e')" using e' by (metis surjective_pairing)
  note s = engine_Start_ok [OF assms(2) start, unfolded assms(3) resolve_all_profiles [OF assms(6,7)] sum.case]
  have "\<exists>n i. map_of (instances e') (service_key p svc) = Some n \<and> alloc_addr (e_ips e') (service_key p svc) = Some i \<and>
      si_localIP (objs e' ! n) = ip_String i" if "err = None" "(p, svc) \<in> set (config_services cfg)" for p svc
  proof -
    have "service_key p svc \<in> set (keys (instances e'))" using s that by (force simp: target_key_def)
    then obtain n where n: "map_of (instances e') (service_key p svc) = Some n"
      using map_of_eq_None_keys [of "instances e'"] by (cases "map_of (instances e') (service_key p svc)") auto
    then have "inst_ok e' (service_key p svc) n" using s by (auto simp: engine_ok_def dest: map_of_SomeD)
    with n show ?thesis by (auto simp: inst_ok_def)
  qed
  then show ?thesis
    using failed run ok start s by (cases "fst (ensureDaemon (ua_running a) (ua_launch a))") (auto simp: split_beta)
qed


text \<open>A daemon that was just started with two profiles, and a codec for the exchange.\<close>

definition up_sample :: "codec \<Rightarrow> bytes \<Rightarrow> up_answers" where
  "up_sample c stream = \<lparr>ua_load = Inr (sample_config two_profiles), ua_stale = False, ua_running = (\<lambda>_. True),
     ua_launch = \<lparr>ln_executable = None, ln_log = None, ln_start = None, ln_close = None\<rparr>,
     ua_send = SendCommand c good_conn stream\<rparr>"

theorem up_starts_every_service_witness:
  "\<exists>c stream e'. conversation c sample_env (command CmdUp [''dev'', ''prod'']) sample_engine = (stream, e') \<and>
     cr_sent (runUp (up_sample c stream) []) = [command CmdUp [''dev'', ''prod'']]"
proof -
  let ?req = "command CmdUp [''dev'', ''prod'']"
  obtain resp e1 where "handleUp (ce_quote sample_env) (ce_now sample_env) ?req sample_engine = (resp, e1)"
    by fastforce
  then have h: "handleConnection sample_env (Inr ?req) sample_engine = ([resp], e1)"
    by (simp add: handleConnection_def command_def)
  let ?c = "three_trees (json_Request ?req) (json_Response resp) (JBool True)"
  obtain stream e' where conv: "conversation ?c sample_env ?req sample_engine = (stream, e')" by fastforce
  have names: "keys (Profiles (sample_config two_profiles)) = [''dev'', ''prod'']"
    by (simp add: sample_config_def two_profiles_def)
  have "cr_sent (runUp (up_sample ?c stream) []) = [?req]"
    using up_starts_every_service [of sample_engine "sample_config two_profiles" "up_sample ?c stream" ?c sample_env stream e']
      h conv names three_trees_ok
    by (simp add: up_sample_def ensureDaemon_def sample_engine_def) (simp add: New_def sample_config_def two_profiles_def)
  with conv show ?thesis by blast
qed

text \<open>
  \<open>restart\<close> gives a daemon three seconds to end: if it still answers after them, nothing is
  launched whatever launching would do, and the \<open>up\<close> goes to the daemon that was told to end. Only a
  daemon seen gone is replaced.
\<close>

lemma restart_keeps_slow_daemon:
  assumes "\<forall>i<32. ua_running a i" and "ua_load a = Inr cfg" and "Profiles cfg \<noteq> []"
  shows "runRestart (a\<lparr>ua_launch := l\<rparr>) pid find_fails = runRestart a pid find_fails \<and>
    cr_sent (fst (runRestart a pid find_fails)) = [command CmdDown [], command CmdUp (keys (Profiles cfg))]"
proof -
  have all: "takeWhile (ua_running a) [1..<31] = [1..<31]" using assms(1) by (simp add: takeWhile_eq_all_conv)
  have "restart_polls (ua_running a) = 31" unfolding restart_polls_def all using assms(1) by simp
  then show ?thesis
    using assms
    by (auto simp: runRestart_def runUp_def up_targets_def keys_def ensureDaemon_def Let_def split: sum.splits)
qed

lemma restart_keeps_slow_daemon_witness:
  "cr_sent (fst (runRestart (up_sample (\<lambda>_. [], \<lambda>_. Inl (Opaque [])) []) (Inr 7) False)) =
     [command CmdDown [], command CmdUp [''dev'', ''prod'']]"
  using restart_keeps_slow_daemon [of "up_sample (\<lambda>_. [], \<lambda>_. Inl (Opaque [])) []" "sample_config two_profiles" undefined "Inr 7" False]
  by (simp add: up_sample_def sample_config_def two_profiles_def)

end
