(* ===== verification/Daemon.thy ===== *)
theory Daemon
  imports Lifecycle Config Resolver Go_Format
begin

text \<open>
  \<open>cmd/daemon.go\<close> and the accepting half of \<open>internal/daemon/server.go\<close>: how the daemon comes up, what
  it writes to its log, and how it ends. Every accepted connection is served by a goroutine of its own,
  here the stage it is in; \<open>serve_step\<close> interleaves them with the accept loop, the goroutine that closes
  the listener and the signal. What comes from outside, clients that send their request, read or hang up
  and events, happens only if \<open>peers\<close> says so; without it the daemon is on its own.
\<close>

section \<open>Coming up\<close>

definition NewServer :: "go_error option \<Rightarrow> go_error option \<Rightarrow> string \<Rightarrow> go_error option" where
  "NewServer remove listen socketPath =
     (case remove of
        Some err \<Rightarrow> Some (Errorf_w ''removing stale socket'' err)
      | None \<Rightarrow> map_option (Errorf_w (''listening on '' @ socketPath)) listen)"

record daemon_answers =
  dn_mkdir :: "go_error option"
  dn_written :: written
  dn_load :: "go_error + Config"
  dn_resolver :: "go_error option"
  dn_remove :: "go_error option"
  dn_listen :: "go_error option"
  dn_serve :: "go_error option"

text \<open>
  \<open>runDaemon\<close> from beginning to end, with what \<open>Serve\<close> returns an answer: the error, the disk it leaves
  and whether it served. The deferred \<open>Cleanup\<close> runs on every way out after the PID file was written.
\<close>

definition runDaemon ::
  "(string \<Rightarrow> string) \<Rightarrow> (int \<Rightarrow> bool) \<Rightarrow> daemon_answers \<Rightarrow> string \<Rightarrow> string \<Rightarrow> int \<Rightarrow> disk \<Rightarrow>
   go_error option \<times> disk \<times> bool" where
  "runDaemon quote alive a socketPath pidPath pid d =
     (case WritePIDFile quote alive (dn_mkdir a) (dn_written a) pidPath pid d of
        (Some err, d) \<Rightarrow> (Some (Errorf_w ''acquiring PID lock'' err), d, False)
      | (None, d) \<Rightarrow>
          let cleaned = Cleanup socketPath pidPath d
          in case dn_load a of
              Inl err \<Rightarrow> (Some err, cleaned, False)
            | Inr cfg \<Rightarrow>
                (case resolver_Start (dn_resolver a) of
                   Some err \<Rightarrow> (Some (Errorf_w ''starting DNS resolver'' err), cleaned, False)
                 | None \<Rightarrow>
                     (case NewServer (dn_remove a) (dn_listen a) socketPath of
                        Some err \<Rightarrow> (Some err, cleaned, False)
                      | None \<Rightarrow> (dn_serve a, cleaned, True))))"

text \<open>The log lines of the goroutine that forwards events; the message of a log entry is its text.\<close>

fun daemon_log :: "(log_message \<Rightarrow> string) \<Rightarrow> event \<Rightarrow> string option" where
  "daemon_log msg (ServiceStateChanged profile service dns from to err t) =
     Some (''['' @ profile @ ''/'' @ service @ ''] '' @ state_String from @ '' -> '' @ state_String to @
       (case err of Some e \<Rightarrow> '' ('' @ error_text e @ '')'' | None \<Rightarrow> []))"
| "daemon_log msg (LogEntry lvl m profile service t) =
     Some (''['' @ level_text lvl @ ''] ['' @ profile @ ''/'' @ service @ ''] '' @ msg m)"
| "daemon_log msg (ProfileDone profile t) = Some (''['' @ profile @ ''] all services stopped'')"
| "daemon_log msg (CredentialsExpired profile aws service detail t) = None"

section \<open>Serving and ending\<close>

text \<open>
  A connection is read from; its command runs; the reply is written and the connection closed. A stream
  (logs, subscribe, tray register) writes its first message and then one for each event in its queue of
  the given length, back to its \<open>select\<close> in between. No write has a deadline: the flag beside the stage says
  whether writes return, because the client reads, has hung up, or the socket's buffer still has room.
\<close>

datatype conn_stage = C_reading | C_command | C_reply | C_stream nat | C_sending nat | C_closed

type_synonym conn = "conn_stage \<times> bool"

datatype serve_pc = A_accept | A_wait | A_returned go_error

record Serving =
  sg_pc :: serve_pc
  sg_listening :: bool
  sg_cancelled :: bool
  sg_conns :: "conn list"

definition serving :: Serving where
  "serving = \<lparr>sg_pc = A_accept, sg_listening = True, sg_cancelled = False, sg_conns = []\<rparr>"

text \<open>
  What the handler does next by itself, given the context and whether its write returns. In a stream's
  \<open>select\<close> Go picks between the context and an event when both are there; an event that is not streamed is
  taken without a write, and \<open>logs\<close> without follow ends after one.
\<close>

fun handler_next :: "bool \<Rightarrow> conn \<Rightarrow> conn set" where
  "handler_next cancelled (C_reading, takes) = {}"
| "handler_next cancelled (C_command, takes) = {(C_reply, takes)}"
| "handler_next cancelled (C_reply, takes) = (if takes then {(C_closed, takes)} else {})"
| "handler_next cancelled (C_stream n, takes) =
     (if cancelled then {(C_closed, takes)} else {}) \<union>
     (case n of 0 \<Rightarrow> {} | Suc m \<Rightarrow> {(C_sending m, takes), (C_stream m, takes)})"
| "handler_next cancelled (C_sending n, takes) = (if takes then {(C_stream n, takes), (C_closed, takes)} else {})"
| "handler_next cancelled (C_closed, takes) = {}"

text \<open>What the outside adds: a request or an error of reading it, room for writes or the end of it, a hang-up, an event.\<close>

fun peer_next :: "conn \<Rightarrow> conn set" where
  "peer_next (C_reading, takes) = {(C_command, takes), (C_sending 0, takes), (C_reply, takes)} \<union> {(C_reading, t) | t. True}"
| "peer_next (C_stream n, takes) =
     {(C_closed, takes)} \<union> {(C_stream n, t) | t. True} \<union> (if n < 128 then {(C_stream (Suc n), takes)} else {})"
| "peer_next (C_sending n, takes) = {(C_sending n, t) | t. True} \<union> (if n < 128 then {(C_sending (Suc n), takes)} else {})"
| "peer_next (stage, takes) = {(stage, t) | t. True}"

definition conn_next :: "bool \<Rightarrow> bool \<Rightarrow> conn \<Rightarrow> conn set" where
  "conn_next peers cancelled c = handler_next cancelled c \<union> (if peers then peer_next c else {})"

text \<open>What an error of \<open>Accept\<close> makes of the loop.\<close>

definition accept_failed :: "go_error \<Rightarrow> Serving \<Rightarrow> Serving" where
  "accept_failed err s =
     s\<lparr>sg_pc := (if sg_cancelled s then A_wait else A_returned (Errorf_w ''accepting connection'' err))\<rparr>"

inductive serve_step :: "bool \<Rightarrow> Serving \<Rightarrow> Serving \<Rightarrow> bool" for peers where
  sg_accept: "sg_pc s = A_accept \<Longrightarrow> sg_listening s \<Longrightarrow> peers \<Longrightarrow>
    serve_step peers s (s\<lparr>sg_conns := sg_conns s @ [(C_reading, takes)]\<rparr>)"
| sg_accept_fails: "sg_pc s = A_accept \<Longrightarrow> \<not> sg_listening s \<or> peers \<Longrightarrow> serve_step peers s (accept_failed err s)"
| sg_signal: "\<not> sg_cancelled s \<Longrightarrow> peers \<Longrightarrow> serve_step peers s (s\<lparr>sg_cancelled := True\<rparr>)"
| sg_close: "sg_cancelled s \<Longrightarrow> sg_listening s \<Longrightarrow> serve_step peers s (s\<lparr>sg_listening := False\<rparr>)"
| sg_conn: "i < length (sg_conns s) \<Longrightarrow> c \<in> conn_next peers (sg_cancelled s) (sg_conns s ! i) \<Longrightarrow>
    serve_step peers s (s\<lparr>sg_conns := (sg_conns s)[i := c]\<rparr>)"
| sg_waited: "sg_pc s = A_wait \<Longrightarrow> list_all (\<lambda>c. fst c = C_closed) (sg_conns s) \<Longrightarrow>
    serve_step peers s (s\<lparr>sg_pc := A_returned (Sentinel Canceled)\<rparr>)"

inductive_cases serve_stepE: "serve_step peers s s'"

text \<open>The steps left to the daemon on its own.\<close>

fun stage_left :: "conn_stage \<Rightarrow> nat" where
  "stage_left C_reading = 0"
| "stage_left C_command = 2"
| "stage_left C_reply = 1"
| "stage_left (C_stream n) = 2 * n + 1"
| "stage_left (C_sending n) = 2 * n + 2"
| "stage_left C_closed = 0"

fun pc_left :: "serve_pc \<Rightarrow> nat" where
  "pc_left A_accept = 2"
| "pc_left A_wait = 1"
| "pc_left (A_returned err) = 0"

definition serve_left :: "Serving \<Rightarrow> nat" where
  "serve_left s = pc_left (sg_pc s) + (if sg_listening s then 1 else 0) + sum_list (map (stage_left \<circ> fst) (sg_conns s))"

lemma sum_list_update_lt:
  "i < length xs \<Longrightarrow> (f x :: nat) < f (xs ! i) \<Longrightarrow> sum_list (map f (xs[i := x])) < sum_list (map f xs)"
proof (induction xs arbitrary: i)
  case (Cons y ys)
  then show ?case by (cases i) auto
qed simp

lemma handler_next_left: "c' \<in> handler_next cancelled c \<Longrightarrow> stage_left (fst c') < stage_left (fst c)"
  by (cases "(cancelled, c)" rule: handler_next.cases) (auto split: if_splits nat.splits)

lemma quiet_step_left: "serve_step False s s' \<Longrightarrow> serve_left s' < serve_left s"
proof (erule serve_stepE)
  fix i c
  assume i: "i < length (sg_conns s)" "c \<in> conn_next False (sg_cancelled s) (sg_conns s ! i)"
    and s': "s' = s\<lparr>sg_conns := (sg_conns s)[i := c]\<rparr>"
  have "stage_left (fst c) < stage_left (fst (sg_conns s ! i))" using i(2) handler_next_left by (simp add: conn_next_def)
  then show ?thesis using sum_list_update_lt [OF i(1), of "stage_left \<circ> fst" c] by (simp add: serve_left_def s')
qed (auto simp: serve_left_def accept_failed_def)

text \<open>
  A connection holds the daemon when its goroutine is blocked for good, as long as the client does nothing:
  it waits for a request, or for room to write what it has to. It may come to that when it is in its
  \<open>select\<close> with events queued for a client that does not read.
\<close>

fun holds_up :: "conn \<Rightarrow> bool" where
  "holds_up (C_reading, takes) = True"
| "holds_up (C_command, takes) = (\<not> takes)"
| "holds_up (C_reply, takes) = (\<not> takes)"
| "holds_up (C_sending n, takes) = (\<not> takes)"
| "holds_up (C_stream n, takes) = False"
| "holds_up (C_closed, takes) = False"

fun may_hold_up :: "conn \<Rightarrow> bool" where
  "may_hold_up (C_stream n, takes) = (0 < n \<and> \<not> takes)"
| "may_hold_up c = holds_up c"

lemma handler_next_holds: "c' \<in> handler_next cancelled c \<Longrightarrow> (holds_up c \<longrightarrow> holds_up c') \<and> (may_hold_up c' \<longrightarrow> may_hold_up c)"
  by (cases "(cancelled, c)" rule: handler_next.cases) (auto split: if_splits nat.splits)

lemma handler_next_stuck: "handler_next True c = {} \<Longrightarrow> fst c \<noteq> C_closed \<Longrightarrow> holds_up c"
  by (cases "(True, c)" rule: handler_next.cases) (auto split: if_splits)

lemma quiet_step_holds:
  assumes "serve_step False s s'" and "sg_cancelled s"
  shows "sg_cancelled s' \<and> (list_ex holds_up (sg_conns s) \<longrightarrow> list_ex holds_up (sg_conns s')) \<and>
    (list_ex may_hold_up (sg_conns s') \<longrightarrow> list_ex may_hold_up (sg_conns s))"
  using assms(1)
proof cases
  case (sg_conn i c)
  note n = handler_next_holds [of c "sg_cancelled s" "sg_conns s ! i"]
  have c: "c \<in> handler_next (sg_cancelled s) (sg_conns s ! i)" using sg_conn(3) by (simp add: conn_next_def)
  have "list_ex holds_up ((sg_conns s)[i := c])" if "list_ex holds_up (sg_conns s)"
  proof -
    obtain k where k: "k < length (sg_conns s)" "holds_up (sg_conns s ! k)" using \<open>list_ex _ _\<close> by (auto simp: list_ex_length)
    then show ?thesis using n c by (cases "k = i") (auto simp: list_ex_length intro!: exI [of _ k])
  qed
  moreover have "list_ex may_hold_up (sg_conns s)" if "list_ex may_hold_up ((sg_conns s)[i := c])"
  proof -
    obtain k where k: "k < length (sg_conns s)" "may_hold_up ((sg_conns s)[i := c] ! k)"
      using \<open>list_ex _ _\<close> by (auto simp: list_ex_length)
    then show ?thesis using n c sg_conn(2) by (cases "k = i") (auto simp: list_ex_length intro!: exI [of _ k])
  qed
  ultimately show ?thesis using assms(2) sg_conn(1) by simp
qed (use assms(2) in \<open>auto simp: accept_failed_def\<close>)

text \<open>With nobody holding it up, some step is left until \<open>Serve\<close> has returned.\<close>

lemma quiet_progress:
  assumes "sg_cancelled s" and "\<not> list_ex holds_up (sg_conns s)" and "\<nexists>err. sg_pc s = A_returned err"
  shows "\<exists>s'. serve_step False s s'"
proof (cases "sg_pc s")
  case A_accept
  then show ?thesis using sg_accept_fails [of s False] sg_close [OF assms(1), of False] by blast
next
  case A_wait
  show ?thesis
  proof (cases "list_all (\<lambda>c. fst c = C_closed) (sg_conns s)")
    case True
    then show ?thesis using sg_waited [OF A_wait] by blast
  next
    case False
    then obtain i where i: "i < length (sg_conns s)" "fst (sg_conns s ! i) \<noteq> C_closed" by (auto simp: list_all_length)
    then have "\<not> holds_up (sg_conns s ! i)" using assms(2) by (auto simp: list_ex_length)
    then obtain c where "c \<in> handler_next True (sg_conns s ! i)" using handler_next_stuck i(2) by blast
    then show ?thesis using sg_conn [OF i(1), of c False] assms(1) by (auto simp: conn_next_def)
  qed
next
  case (A_returned err)
  with assms(3) show ?thesis by blast
qed

text \<open>A run of the daemon's own steps.\<close>

inductive quiet_run :: "Serving \<Rightarrow> Serving \<Rightarrow> bool" where
  quiet_refl: "quiet_run s s"
| quiet_more: "serve_step False s s' \<Longrightarrow> quiet_run s' s'' \<Longrightarrow> quiet_run s s''"

lemma quiet_run_keeps: "quiet_run s s' \<Longrightarrow> sg_cancelled s \<Longrightarrow>
    sg_cancelled s' \<and> (list_ex holds_up (sg_conns s) \<longrightarrow> list_ex holds_up (sg_conns s')) \<and>
    (list_ex may_hold_up (sg_conns s') \<longrightarrow> list_ex may_hold_up (sg_conns s)) \<and> serve_left s' \<le> serve_left s"
proof (induction rule: quiet_run.induct)
  case (quiet_more s s' s'')
  then show ?case using quiet_step_holds [OF quiet_more.hyps(1)] quiet_step_left [OF quiet_more.hyps(1)] by auto
qed simp

lemma holds_may: "holds_up c \<Longrightarrow> may_hold_up c"
  by (cases c rule: may_hold_up.cases) auto

lemma held_up_never_returns:
  "quiet_run s s' \<Longrightarrow> sg_cancelled s \<Longrightarrow> list_ex holds_up (sg_conns s) \<Longrightarrow>
   (\<And>e. sg_pc s \<noteq> A_returned e) \<Longrightarrow> sg_pc s' \<noteq> A_returned err'"
proof (induction rule: quiet_run.induct)
  case (quiet_more s s' s'')
  have "\<not> list_all (\<lambda>c. fst c = C_closed) (sg_conns s)"
    using quiet_more.prems(2) by (auto simp: list_ex_iff list_all_iff) (metis fst_conv holds_up.simps(6))
  note busy = this
  have "sg_pc s' \<noteq> A_returned e" for e
    using quiet_more.hyps(1)
    by (cases rule: serve_step.cases) (use quiet_more.prems busy in \<open>auto simp: accept_failed_def\<close>)
  then show ?case
    using quiet_more.IH quiet_step_holds [OF quiet_more.hyps(1) quiet_more.prems(1)] quiet_more.prems(2) by blast
qed blast

lemma may_be_held_up:
  assumes "list_ex may_hold_up (sg_conns s)"
  shows "\<exists>s'. quiet_run s s' \<and> list_ex holds_up (sg_conns s') \<and> sg_pc s' = sg_pc s"
proof -
  obtain i where i: "i < length (sg_conns s)" "may_hold_up (sg_conns s ! i)" using assms by (auto simp: list_ex_length)
  show ?thesis
  proof (cases "holds_up (sg_conns s ! i)")
    case True
    then show ?thesis using i(1) quiet_refl by (auto simp: list_ex_length)
  next
    case False
    then obtain m where m: "sg_conns s ! i = (C_stream (Suc m), False)"
      using i(2) by (cases "sg_conns s ! i" rule: may_hold_up.cases) (auto simp: gr0_conv_Suc)
    let ?s = "s\<lparr>sg_conns := (sg_conns s)[i := (C_sending m, False)]\<rparr>"
    have "serve_step False s ?s" using m by (intro sg_conn [OF i(1)]) (simp add: conn_next_def)
    moreover have "list_ex holds_up (sg_conns ?s)" using i(1) by (auto simp: list_ex_length intro!: exI [of _ i])
    ultimately show ?thesis using quiet_more [OF _ quiet_refl] by (intro exI [of _ ?s]) simp
  qed
qed

text \<open>
  C14: Once the daemon was told to end, it ends by itself or not at all, and the clients decide. If each has
  sent its request or hung up, and none has stopped reading with something left to be written to it, the daemon
  on its own always gets through: until \<open>Serve\<close> has returned some step is left, and each brings the end
  closer, in no more of them than three, two for each connection and two for each event queued for a
  stream. A single client that connected and stays silent, or that does not read what is being written to
  it, keeps \<open>Serve\<close> from ever returning, since nothing closes its connection and no write has a deadline;
  and one that does not read while events are queued for it may, since Go's \<open>select\<close> may pick an event.
\<close>

theorem silent_client_blocks_shutdown:
  assumes "sg_cancelled s" and "\<And>err. sg_pc s \<noteq> A_returned err"
  shows "(\<not> list_ex may_hold_up (sg_conns s) \<longrightarrow>
      (\<forall>s'. quiet_run s s' \<longrightarrow> (\<exists>err. sg_pc s' = A_returned err) \<or> (\<exists>s''. serve_step False s' s''))) \<and>
    (\<forall>s' s''. quiet_run s s' \<and> serve_step False s' s'' \<longrightarrow> serve_left s'' < serve_left s') \<and>
    serve_left s \<le> 3 + (\<Sum>(stage, takes)\<leftarrow>sg_conns s. 2 + 2 * (case stage of C_stream n \<Rightarrow> n | C_sending n \<Rightarrow> n | _ \<Rightarrow> 0)) \<and>
    (list_ex holds_up (sg_conns s) \<longrightarrow> (\<forall>s' err. quiet_run s s' \<longrightarrow> sg_pc s' \<noteq> A_returned err)) \<and>
    (list_ex may_hold_up (sg_conns s) \<longrightarrow>
      (\<exists>s'. quiet_run s s' \<and> (\<forall>s'' err. quiet_run s' s'' \<longrightarrow> sg_pc s'' \<noteq> A_returned err)))"
proof -
  have "(\<Sum>c\<leftarrow>cs. stage_left (fst c)) \<le> (\<Sum>(stage, takes)\<leftarrow>cs. 2 + 2 * (case stage of C_stream n \<Rightarrow> n | C_sending n \<Rightarrow> n | _ \<Rightarrow> 0))" for cs :: "conn list"
    by (rule sum_list_mono) (auto split: conn_stage.splits)
  moreover have "pc_left (sg_pc s) \<le> 2" by (cases "sg_pc s") simp_all
  ultimately have bound: "serve_left s \<le> 3 + (\<Sum>(stage, takes)\<leftarrow>sg_conns s. 2 + 2 * (case stage of C_stream n \<Rightarrow> n | C_sending n \<Rightarrow> n | _ \<Rightarrow> 0))"
    by (simp add: serve_left_def comp_def add_mono)
  have go_on: "(\<exists>err. sg_pc s' = A_returned err) \<or> (\<exists>s''. serve_step False s' s'')"
    if "\<not> list_ex may_hold_up (sg_conns s)" "quiet_run s s'" for s'
    using quiet_progress [of s'] quiet_run_keeps [OF that(2) assms(1)] that(1) holds_may unfolding list_ex_iff by blast
  have "\<exists>s'. quiet_run s s' \<and> (\<forall>s'' err. quiet_run s' s'' \<longrightarrow> sg_pc s'' \<noteq> A_returned err)"
    if may: "list_ex may_hold_up (sg_conns s)"
  proof -
    obtain s' where s': "quiet_run s s'" "list_ex holds_up (sg_conns s')" "sg_pc s' = sg_pc s" using may_be_held_up [OF may] by blast
    then show ?thesis using held_up_never_returns [of s'] quiet_run_keeps [OF s'(1) assms(1)] assms(2) by metis
  qed
  then show ?thesis using bound go_on quiet_step_left held_up_never_returns [OF _ assms(1) _ assms(2)] by blast
qed

theorem silent_client_blocks_shutdown_witness:
  "\<nexists>s' err. quiet_run (serving\<lparr>sg_cancelled := True, sg_conns := [(C_sending 0, False)]\<rparr>) s' \<and> sg_pc s' = A_returned err"
  using silent_client_blocks_shutdown [of "serving\<lparr>sg_cancelled := True, sg_conns := [(C_sending 0, False)]\<rparr>"]
  by (auto simp: serving_def)

text \<open>A daemon that is refused leaves the other one's files alone; any other way out removes its own.\<close>

lemma runDaemon_files:
  assumes "runDaemon quote alive a socketPath pidPath pid d = (err, d', served)"
  shows "(\<forall>p. ReadPIDFile quote pidPath d = Inr p \<and> alive p \<longrightarrow> d' = d \<and> \<not> served) \<and>
    (served \<longrightarrow> d' socketPath = None \<and> d' pidPath = None)"
  using assms
  by (auto simp: runDaemon_def WritePIDFile_eq Cleanup_def Let_def split: prod.splits option.splits sum.splits if_splits)

end
