(* ===== verification/Service_DNS.thy ===== *)
theory Service_DNS
  imports Service_Wiring Resolver
begin

text \<open>
  The service loop and the resolver together: the calls of the DNS port the loop and \<open>Stop\<close> make, as
  operations on the resolver's table, among the calls of all the other services. What a client that
  looks the name up is told is the address its proxy listens on.
\<close>

section \<open>The calls of the port\<close>

text \<open>\<open>Adapter.Add\<close> and \<open>Adapter.RemoveEntries\<close> on the single entry the engine passes.\<close>

fun dns_op :: "port_call \<Rightarrow> name_op list" where
  "dns_op (DNS_Add h i) = [Add_name h i]"
| "dns_op (DNS_Remove h i) = [Remove_name h]"
| "dns_op _ = []"

definition dns_ops :: "port_call list \<Rightarrow> name_op list" where
  "dns_ops cs = concat (map dns_op cs)"

lemma dns_ops_simps [simp]: "dns_ops [] = []" "dns_ops (xs @ ys) = dns_ops xs @ dns_ops ys" "dns_ops [c] = dns_op c"
  by (simp_all add: dns_ops_def)

lemma adapter_single:
  "fold (adapter.apply_op fqdn) (dns_op (DNS_Add h i)) r = adapter_Add fqdn [(h, i)] r"
  "fold (adapter.apply_op fqdn) (dns_op (DNS_Remove h i)) r = adapter_RemoveEntries fqdn [(h, i)] r"
  by (simp_all add: adapter_Add_def adapter_RemoveEntries_def)









section \<open>Every step keeps the name on the proxy\<close>









section \<open>What a client of the service is told\<close>











end
