(* ===== verification/Service_Stop.thy ===== *)
theory Service_Stop
  imports Service_Theorems
begin

text \<open>
  What a stopped service comes to: how far its loop still runs once a \<open>Stop\<close> is done, where it can
  be held up, and what is left when loop, stops and dropped sessions are all through.
\<close>

section \<open>The loop of a cancelled service\<close>

text \<open>The steps the loop of a cancelled service has left, its emits included.\<close>

fun loop_left :: "runner \<Rightarrow> nat" where
  "loop_left (R_emit es pc) = Suc (length es) + loop_left pc"
| "loop_left R_top = 1"
| "loop_left R_from = 16"
| "loop_left (R_starting from) = 15"
| "loop_left R_allocate = 12"
| "loop_left (R_add_dns i) = 11"
| "loop_left (R_free_port i) = 10"
| "loop_left (R_resolve i port) = 9"
| "loop_left (R_start_session i port target) = 8"
| "loop_left (R_start_proxy i port k) = 7"
| "loop_left (R_commit i port k p) = 6"
| "loop_left (R_stop_proxy k p err) = 5"
| "loop_left (R_stop_session k err) = 4"
| "loop_left (R_connected port k) = 20"
| "loop_left (R_connect_failed err) = 1"
| "loop_left (R_wait k) = 16"
| "loop_left (R_session_ended e) = 15"
| "loop_left (R_take_proxy e) = 14"
| "loop_left (R_drain_proxy p e) = 13"
| "loop_left (R_reconnecting from e) = 12"
| "loop_left (R_to_reconnecting from e) = 11"
| "loop_left (R_expired from err) = 6"
| "loop_left (R_to_failed from err) = 5"
| "loop_left (R_reconnected from e) = 8"
| "loop_left R_rotation = 2"
| "loop_left R_backoff = 5"
| "loop_left (R_delay d) = 2"
| "loop_left R_done = 0"

lemma loop_progress:
  assumes "cancelled w" and "run_enabled pc a w" and "run_step profile a (pc, w) = (pc', w')"
  shows "loop_left pc' < loop_left pc"
  using assms
  by (cases "(profile, a, (pc, w))" rule: run_step.cases)
    (auto simp: run_defs stop_session_def run_enabled_def split: run_splits)

lemma loop_left_step:
  assumes "loop_left pc \<le> 20" and "run_step profile a (pc, w) = (pc', w')"
  shows "loop_left pc' \<le> 20"
  using assms
  by (cases "(profile, a, (pc, w))" rule: run_step.cases)
    (auto simp: run_defs stop_session_def split: run_splits)

lemma loop_left_reachable: "reachable profile s \<Longrightarrow> loop_left (rt s) \<le> 20"
proof (induction rule: reachable.induct)
  case (init s)
  then show ?case by (simp add: initial_def)
next
  case (more s s')
  from more.hyps(2) more.IH show ?case by (cases rule: step.cases) (auto dest: loop_left_step)
qed

text \<open>A stop that is done stays done, and has cancelled the service.\<close>

lemma stop_done_cancelled:
  assumes "reachable profile s" and "S_done \<in> set (stoppers s)"
  shows "cancelled (sh s)"
  using undisturbed_reachable [OF assms(1)] assms(2) by (force simp: undisturbed_def)

lemma stop_done_stays:
  assumes "step profile s s'" and "S_done \<in> set (stoppers s)"
  shows "S_done \<in> set (stoppers s')"
  using assms
proof (cases rule: step.cases)
  case (stopper i a pc w)
  obtain j where j: "j < length (stoppers s)" "stoppers s ! j = S_done"
    using assms(2) by (auto simp: in_set_conv_nth)
  have "(stoppers s)[i := pc] ! j = S_done"
    using j stopper(2,3) by (cases "i = j") auto
  then show ?thesis using j unfolding stopper(1) by (auto simp: in_set_conv_nth intro!: exI [of _ j])
qed auto

text \<open>A stretch of the system's life, and how many steps in it are the loop's own.\<close>

inductive loop_steps :: "Profile \<Rightarrow> nat \<Rightarrow> system \<Rightarrow> system \<Rightarrow> bool" for profile where
  none: "loop_steps profile 0 s s"
| loop: "loop_steps profile n s s1 \<Longrightarrow> run_enabled (rt s1) a (sh s1) \<Longrightarrow>
    run_step profile a (rt s1, sh s1) = (pc, w) \<Longrightarrow> loop_steps profile (Suc n) s (s1\<lparr>rt := pc, sh := w\<rparr>)"
| others: "loop_steps profile n s s1 \<Longrightarrow> step profile s1 s2 \<Longrightarrow> rt s2 = rt s1 \<Longrightarrow> loop_steps profile n s s2"

lemma loop_steps_bound:
  assumes "loop_steps profile n s s'" and "reachable profile s" and "S_done \<in> set (stoppers s)"
  shows "reachable profile s' \<and> S_done \<in> set (stoppers s') \<and> n + loop_left (rt s') \<le> loop_left (rt s)"
  using assms
proof (induction rule: loop_steps.induct)
  case (none s)
  then show ?case by simp
next
  case (loop n s s1 a pc w)
  note IH = loop.IH [OF loop.prems]
  have "step profile s1 (s1\<lparr>rt := pc, sh := w\<rparr>)" using loop.hyps(2,3) by (rule step.runner)
  moreover have "loop_left pc < loop_left (rt s1)"
    using loop_progress [OF _ loop.hyps(2,3)] stop_done_cancelled IH by blast
  ultimately show ?case using IH reachable.more by auto
next
  case (others n s s1 s2)
  then show ?case using reachable.more stop_done_stays by metis
qed

section \<open>Warnings\<close>

text \<open>What the loop, a stop or a dropped session has still to emit.\<close>

fun run_pending :: "runner \<Rightarrow> event list" where
  "run_pending (R_emit es pc) = es @ run_pending pc"
| "run_pending _ = []"

fun stop_pending :: "stopper \<Rightarrow> event list" where
  "stop_pending (S_emit es pc) = es @ stop_pending pc"
| "stop_pending _ = []"

fun drop_pending :: "dropper \<Rightarrow> event list" where
  "drop_pending (D_emit es) = es"
| "drop_pending (D_stop k) = []"

definition stop_warning :: "serviceInstance \<Rightarrow> event \<Rightarrow> bool" where
  "stop_warning s evt \<longleftrightarrow> (\<exists>err t. evt = logEntry s Warn (Error_stopping_session err) t)"

lemma stop_warning_log [simp]: "stop_warning s (logEntry s Warn (Error_stopping_session err) t)"
  by (auto simp: stop_warning_def)

text \<open>A session whose \<open>Stop\<close> failed, and the warning about one: emitted or about to be.\<close>

definition unstopped :: "shared \<Rightarrow> bool" where
  "unstopped w \<longleftrightarrow> Stop_failed \<in> set (sessions w)"

definition warned :: "event list \<Rightarrow> shared \<Rightarrow> bool" where
  "warned pending w \<longleftrightarrow> (\<exists>evt\<in>set pending \<union> set (emitted w). stop_warning (si w) evt)"

definition same_name :: "shared \<Rightarrow> shared \<Rightarrow> bool" where
  "same_name w w' \<longleftrightarrow> si_profile (si w') = si_profile (si w) \<and> si_service (si w') = si_service (si w)"

lemma stop_warning_name: "same_name w w' \<Longrightarrow> stop_warning (si w') evt = stop_warning (si w) evt"
  by (simp add: stop_warning_def same_name_def logEntry_def)

lemma stop_session_warns:
  assumes "stop_session a k w = (evts, w')"
  shows "si w' = si w \<and> emitted w' = emitted w \<and>
    (unstopped w' \<longrightarrow> unstopped w \<or> (\<exists>evt\<in>set evts. stop_warning (si w) evt))"
proof -
  have "Stop_failed \<in> set (xs[k := Ended e]) \<Longrightarrow> Stop_failed \<in> set xs" for xs e
    using set_update_subset_insert [of xs k "Ended e"] by auto
  with assms show ?thesis
    by (auto simp: stop_session_def unstopped_def split: run_splits)
qed

text \<open>A step keeps what was to be emitted, and warns when it leaves a session unstopped.\<close>

definition warns :: "event list \<Rightarrow> shared \<Rightarrow> event list \<Rightarrow> shared \<Rightarrow> bool" where
  "warns pending w pending' w' \<longleftrightarrow> same_name w w' \<and>
     set pending \<union> set (emitted w) \<subseteq> set pending' \<union> set (emitted w') \<and>
     (unstopped w' \<longrightarrow> unstopped w \<or> warned pending' w')"

lemma run_warns: "run_step profile a (pc, w) = (pc', w') \<Longrightarrow> warns (run_pending pc) w (run_pending pc') w'"
  by (cases "(profile, a, (pc, w))" rule: run_step.cases)
    (auto simp: warns_def warned_def run_defs same_name_def unstopped_def
      dest: stop_session_warns split: run_splits)

lemma stop_warns: "stop_step a (pc, w) = (pc', w') \<Longrightarrow> warns (stop_pending pc) w (stop_pending pc') w'"
  by (cases "(a, (pc, w))" rule: stop_step.cases)
    (auto simp: warns_def warned_def run_defs stopping_step_def same_name_def unstopped_def
      dest: stop_session_warns split: run_splits)

lemma drop_warns: "drop_step a (d, w) = (d', w') \<Longrightarrow> warns (drop_pending d) w (drop_pending d') w'"
  by (cases "(a, (d, w))" rule: drop_step.cases)
    (auto simp: warns_def warned_def emit_one_def same_name_def unstopped_def
      dest: stop_session_warns split: run_splits)

definition pending :: "system \<Rightarrow> event list" where
  "pending s = run_pending (rt s) @ concat (map stop_pending (stoppers s)) @ concat (map drop_pending (droppers s))"

definition all_warned :: "system \<Rightarrow> bool" where
  "all_warned s \<longleftrightarrow> (unstopped (sh s) \<longrightarrow> warned (pending s) (sh s))"

lemma warned_mono:
  assumes "warned p w" and "same_name w w'" and "set p \<union> set (emitted w) \<subseteq> set p' \<union> set (emitted w')"
  shows "warned p' w'"
  using assms stop_warning_name [OF assms(2)] by (auto simp: warned_def)

lemma all_warned_step:
  assumes "all_warned s" and "warns p (sh s) p' (sh s')"
    and "set (pending s) \<subseteq> rest \<union> set p" and "rest \<union> set p' \<subseteq> set (pending s')"
  shows "all_warned s'"
proof -
  have mono: "set (pending s) \<union> set (emitted (sh s)) \<subseteq> set (pending s') \<union> set (emitted (sh s'))"
    using assms(2-4) unfolding warns_def by blast
  have "warned p' (sh s') \<Longrightarrow> warned (pending s') (sh s')"
    using assms(4) by (auto simp: warned_def)
  then show ?thesis
    using assms(1,2) warned_mono [OF _ _ mono] unfolding all_warned_def warns_def by blast
qed

lemma concat_update:
  assumes "i < length xs"
  shows "\<exists>rest. set (concat (map f xs)) = rest \<union> set (f (xs ! i)) \<and> (\<forall>y. set (concat (map f (xs[i := y]))) = rest \<union> set (f y))"
proof (intro exI conjI allI)
  let ?rest = "set (concat (map f (take i xs))) \<union> set (concat (map f (drop (Suc i) xs)))"
  show "set (concat (map f xs)) = ?rest \<union> set (f (xs ! i))"
    by (subst id_take_nth_drop [OF assms]) auto
  show "set (concat (map f (xs[i := y]))) = ?rest \<union> set (f y)" for y
    by (subst upd_conv_take_nth_drop [OF assms]) auto
qed

lemma all_warned_reachable: "reachable profile s \<Longrightarrow> all_warned s"
proof (induction rule: reachable.induct)
  case (init s)
  then show ?case by (simp add: initial_def all_warned_def unstopped_def)
next
  case (more s s')
  from more.hyps(2) show ?case
  proof (cases rule: step.cases)
    case (runner a pc w)
    show ?thesis unfolding runner(1)
      by (rule all_warned_step [OF more.IH, where rest = "set (concat (map stop_pending (stoppers s))) \<union>
            set (concat (map drop_pending (droppers s)))"])
        (auto simp: pending_def intro: run_warns [OF runner(3)])
  next
    case (stopper i a pc w)
    obtain rest where r: "set (concat (map stop_pending (stoppers s))) = rest \<union> set (stop_pending (stoppers s ! i))"
      "set (concat (map stop_pending ((stoppers s)[i := pc]))) = rest \<union> set (stop_pending pc)"
      using concat_update [OF stopper(2), of stop_pending] by blast
    show ?thesis unfolding stopper(1)
      by (rule all_warned_step [OF more.IH, where rest = "rest \<union> set (run_pending (rt s)) \<union>
            set (concat (map drop_pending (droppers s)))"])
        (use r in \<open>auto simp: pending_def simp del: set_concat intro: stop_warns [OF stopper(3)]\<close>)
  next
    case (dropper i a pc w)
    obtain rest where r: "set (concat (map drop_pending (droppers s))) = rest \<union> set (drop_pending (droppers s ! i))"
      "set (concat (map drop_pending ((droppers s)[i := pc]))) = rest \<union> set (drop_pending pc)"
      using concat_update [OF dropper(2), of drop_pending] by blast
    show ?thesis unfolding dropper(1)
      by (rule all_warned_step [OF more.IH, where rest = "rest \<union> set (run_pending (rt s)) \<union>
            set (concat (map stop_pending (stoppers s)))"])
        (use r in \<open>auto simp: pending_def simp del: set_concat intro: drop_warns [OF dropper(3)]\<close>)
  next
    case (session_dies k e)
    have "Stop_failed \<in> set ((sessions (sh s))[k := Ended e]) \<Longrightarrow> unstopped (sh s)"
      using set_update_subset_insert [of "sessions (sh s)" k "Ended e"] by (auto simp: unstopped_def)
    then show ?thesis using more.IH unfolding session_dies(1)
      by (auto simp: all_warned_def warned_def pending_def unstopped_def)
  qed (use more.IH in \<open>auto simp: all_warned_def warned_def pending_def unstopped_def\<close>)
qed

section \<open>At rest\<close>

text \<open>
  Every \<open>Stop\<close> call and every pass of \<open>DropSessions\<close> is through, and the loop cannot move, whatever
  the outside world answers.
\<close>

definition at_rest :: "system \<Rightarrow> bool" where
  "at_rest s \<longleftrightarrow> set (stoppers s) = {S_done} \<and> set (droppers s) \<subseteq> {D_emit []} \<and>
     \<not> (\<exists>a. run_enabled (rt s) a (sh s))"

lemma loop_blocked:
  assumes "cancelled w" and "\<not> (\<exists>a. run_enabled pc a w)"
  shows "pc = R_done \<or> (\<exists>k. pc = R_wait k \<and> \<not> (\<exists>e. sessions w ! k = Ended e))"
  using assms by (cases pc) (auto simp: run_enabled_def split: session_status.splits)

lemma no_live_when_waiting:
  assumes "owned s" and "S_done \<in> set (stoppers s)" and "carries (rt s) = None"
  shows "\<not> live k (sh s)"
proof
  assume k: "live k (sh s)"
  then have "si_session (si (sh s)) = Some k" using assms(1,3) unfolding owned_def by fastforce
  then have "will_stop S_done k" using assms(1,2) k unfolding owned_def by blast
  then show False by simp
qed

lemma held_up:
  assumes "reachable profile s" and "S_done \<in> set (stoppers s)" and "\<not> (\<exists>a. run_enabled (rt s) a (sh s))"
  shows "rt s = R_done \<or> (\<exists>k. rt s = R_wait k \<and> k < length (sessions (sh s)) \<and> sessions (sh s) ! k = Stop_failed)"
proof -
  note own = owned_reachable [OF assms(1)]
  from loop_blocked [OF stop_done_cancelled [OF assms(1,2)] assms(3)] show ?thesis
  proof (elim disjE exE conjE)
    fix k assume k: "rt s = R_wait k" "\<not> (\<exists>e. sessions (sh s) ! k = Ended e)"
    then have range: "k < length (sessions (sh s))" using own by (simp add: owned_def)
    moreover have "\<not> live k (sh s)" using no_live_when_waiting [OF own assms(2)] k(1) by simp
    ultimately have "sessions (sh s) ! k = Stop_failed"
      using k(2) by (cases "sessions (sh s) ! k") (auto simp: live_def)
    with k(1) range show ?thesis by blast
  qed simp
qed

lemma at_rest_pending:
  assumes "reachable profile s" and "at_rest s"
  shows "pending s = []"
proof -
  have rest: "S_done \<in> set (stoppers s)" "\<not> (\<exists>a. run_enabled (rt s) a (sh s))"
    using assms(2) by (auto simp: at_rest_def)
  have "run_pending (rt s) = []" using held_up [OF assms(1) rest] by auto
  then show ?thesis using assms(2) by (auto simp: at_rest_def pending_def)
qed

lemma at_rest_sessions:
  assumes "reachable profile s" and "at_rest s" and "k < length (sessions (sh s))"
  shows "(\<exists>e. sessions (sh s) ! k = Ended e) \<or> sessions (sh s) ! k = Stop_failed \<and>
    (\<exists>err t. logEntry (si (sh s)) Warn (Error_stopping_session err) t \<in> set (emitted (sh s)))"
proof -
  have rest: "S_done \<in> set (stoppers s)" "\<not> (\<exists>a. run_enabled (rt s) a (sh s))"
    using assms(2) by (auto simp: at_rest_def)
  have "carries (rt s) = None" using held_up [OF assms(1) rest] by auto
  then have "\<not> live k (sh s)"
    by (rule no_live_when_waiting [OF owned_reachable [OF assms(1)] rest(1)])
  moreover have "\<exists>err t. logEntry (si (sh s)) Warn (Error_stopping_session err) t \<in> set (emitted (sh s))"
    if "sessions (sh s) ! k = Stop_failed"
  proof -
    have "unstopped (sh s)" using that assms(3) unfolding unstopped_def by (metis nth_mem)
    then show ?thesis
      using all_warned_reachable [OF assms(1)] at_rest_pending [OF assms(1,2)]
      by (auto simp: all_warned_def warned_def stop_warning_def)
  qed
  ultimately show ?thesis using assms(3) by (cases "sessions (sh s) ! k") (auto simp: live_def)
qed

lemma at_rest_proxies:
  assumes "reachable profile s" and "at_rest s"
  shows "\<not> open_proxy p (sh s) \<and> si_tcpProxy (si (sh s)) = None"
proof -
  note own = proxies_owned_reachable [OF assms(1), unfolded proxies_owned_def]
  have rest: "S_done \<in> set (stoppers s)" "\<not> (\<exists>a. run_enabled (rt s) a (sh s))"
    using assms(2) by (auto simp: at_rest_def)
  have "run_proxy (rt s) = None" using held_up [OF assms(1) rest] by auto
  moreover have none: "si_tcpProxy (si (sh s)) = None" using own rest(1) took_proxy.simps by blast
  moreover have "stop_holds pc = None" if "pc \<in> set (stoppers s)" for pc
    using that assms(2) by (simp add: at_rest_def)
  ultimately have "\<not> open_proxy p (sh s)" using own by (metis option.distinct(1))
  with none show ?thesis by blast
qed

text \<open>
  C1: a stopped service comes to an end and leaves nothing behind unseen. From the moment one \<open>Stop\<close>
  of a service is done, and however loop, further stops, dropped sessions and dying sessions are
  interleaved from there, the loop takes at most 20 more steps, and nothing can hold it up before it
  is over except a session whose own \<open>Stop\<close> failed and that has not ended. A session still live is
  one the loop has only just started and is about to stop. And when loop, stops and dropped sessions
  are all through, no proxy is open and every session ever started has ended, or its \<open>Stop\<close> failed
  and a warning with the error was emitted: that one may live on, the log is where it shows.
\<close>

theorem stop_cleans_up:
  assumes "reachable profile s" and "S_done \<in> set (stoppers s)" and "loop_steps profile n s s'"
  shows "n \<le> 20 \<and>
    ((\<exists>a. run_enabled (rt s') a (sh s')) \<or> rt s' = R_done \<or>
       (\<exists>k. rt s' = R_wait k \<and> k < length (sessions (sh s')) \<and> sessions (sh s') ! k = Stop_failed)) \<and>
    (live k (sh s') \<longrightarrow> carries (rt s') = Some k) \<and>
    (at_rest s' \<longrightarrow> \<not> open_proxy p (sh s') \<and> si_tcpProxy (si (sh s')) = None) \<and>
    (at_rest s' \<and> k < length (sessions (sh s')) \<longrightarrow>
       (\<exists>e. sessions (sh s') ! k = Ended e) \<or>
       sessions (sh s') ! k = Stop_failed \<and>
       (\<exists>err t. logEntry (si (sh s')) Warn (Error_stopping_session err) t \<in> set (emitted (sh s'))))"
proof -
  have s': "reachable profile s'" "S_done \<in> set (stoppers s')" "n + loop_left (rt s') \<le> loop_left (rt s)"
    using loop_steps_bound [OF assms(3,1,2)] by simp_all
  have "live k (sh s') \<longrightarrow> carries (rt s') = Some k"
    using owned_reachable [OF s'(1)] s'(2) unfolding owned_def by (metis will_stop.simps(12))
  moreover have "n \<le> 20" using s'(3) loop_left_reachable [OF assms(1)] by simp
  ultimately show ?thesis
    using held_up [OF s'(1,2)] at_rest_proxies [OF s'(1)] at_rest_sessions [OF s'(1)] by blast
qed

lemma stop_for_keeps_ended:
  "stop_for ans n (pc, w) = (pc', w') \<Longrightarrow> ended k w \<Longrightarrow> ended k w' \<and> length (sessions w') = length (sessions w)"
proof (induction n arbitrary: ans pc w)
  case (Suc n)
  obtain pc1 w1 where r: "stop_step (ans 0) (pc, w) = (pc1, w1)" by fastforce
  with Suc show ?case using stop_frame [OF r] by auto
qed simp

theorem stop_cleans_up_witness:
  "\<exists>s. reachable pinned s \<and> at_rest s \<and> length (sessions (sh s)) = 1 \<and> \<not> live 0 (sh s) \<and>
     si_tcpProxy (si (sh s)) = None"
proof -
  obtain s where s: "reachable pinned s" "rt s = R_wait 0" "sessions (sh s) = [Ended None]" "stoppers s = []"
    "droppers s = []"
    using sample_session_ended [of None] by blast
  define s1 where "s1 = s\<lparr>stoppers := [S_cancel]\<rparr>"
  have s1: "reachable pinned s1" using reachable.more [OF s(1) step.new_stop] s(4) by (simp add: s1_def)
  obtain w where w: "stop_for (\<lambda>_. good) 18 (S_cancel, sh s) = (S_done, w)"
    using stop_for_ends [of S_cancel 18] by auto
  define s2 where "s2 = s1\<lparr>stoppers := [S_done], sh := w\<rparr>"
  have s2: "reachable pinned s2"
    unfolding s2_def using w by (intro stop_for_reachable [OF s1, of S_cancel "\<lambda>_. good" 18]) (simp_all add: s1_def)
  then have c: "cancelled w" using stop_done_cancelled [OF s2] by (simp add: s2_def)
  have "ended 0 w" "length (sessions w) = 1"
    using stop_for_keeps_ended [OF w, of 0] s(3) by (simp_all add: ended_def)
  then obtain e where e: "sessions w ! 0 = Ended e" "length (sessions w) = 1" by (auto simp: ended_def)
  have one: "loop_steps pinned (Suc 0) s2 (s2\<lparr>rt := R_session_ended e, sh := w\<rparr>)"
    by (rule loop_steps.loop [OF loop_steps.none, of _ good]) (use e s(2) in \<open>simp_all add: s2_def s1_def\<close>)
  have "loop_steps pinned (Suc (Suc 0)) s2 (s2\<lparr>rt := R_session_ended e, sh := w\<rparr>\<lparr>rt := R_done, sh := w\<rparr>)"
    by (rule loop_steps.loop [OF one, of good]) (use c in simp_all)
  then have two: "loop_steps pinned (Suc (Suc 0)) s2 (s2\<lparr>rt := R_done, sh := w\<rparr>)" by simp
  let ?s = "s2\<lparr>rt := R_done, sh := w\<rparr>"
  have done2: "S_done \<in> set (stoppers s2)" by (simp add: s2_def)
  have rest: "at_rest ?s" using s(5) by (auto simp: at_rest_def s2_def s1_def run_enabled_def)
  have "reachable pinned ?s" using loop_steps_bound [OF two s2 done2] by simp
  moreover have "\<not> live 0 (sh ?s) \<and> si_tcpProxy (si (sh ?s)) = None"
    using stop_cleans_up [OF s2 done2 two, of 0] rest by simp
  ultimately show ?thesis using rest e(2) by (intro exI [of _ ?s]) simp
qed

end
