(* ===== verification/Event_Stream.thy ===== *)
theory Event_Stream
  imports Service_Wiring Tray_Theorems
begin

text \<open>
  What the events of a service say, and what the tray makes of them: the state changes a service emits
  as one chain that leads to the state its instance is in, along the event stream into the tray's menu.
\<close>

section \<open>Reading the events of a service\<close>

fun about :: "string \<Rightarrow> string \<Rightarrow> event \<Rightarrow> bool" where
  "about p n (ServiceStateChanged profile service dns from to err t) = (profile = p \<and> service = n)"
| "about p n _ = False"

text \<open>
  The state a reader of the changes ends in when each starts where the one before ended; \<open>None\<close> when
  one does not.
\<close>

fun follow :: "string \<Rightarrow> string \<Rightarrow> ServiceState \<Rightarrow> event list \<Rightarrow> ServiceState option" where
  "follow p n s [] = Some s"
| "follow p n s (ServiceStateChanged profile service dns from to err t # es) =
     (if profile = p \<and> service = n then (if from = s then follow p n to es else None) else follow p n s es)"
| "follow p n s (_ # es) = follow p n s es"


lemma follow_other: "\<not> about p n e \<Longrightarrow> follow p n s (e # es) = follow p n s es"
  by (cases e) auto

lemma follow_others: "list_all (\<lambda>e. \<not> about p n e) xs \<Longrightarrow> follow p n s (xs @ ys) = follow p n s ys"
  by (induction xs) (auto simp: follow_other)





section \<open>The invariant\<close>

lemma log_not_about [simp]: "\<not> about p n (logEntry s lvl msg t)"
  by (simp add: logEntry_def)

lemma follow_log [simp]: "follow p n s (logEntry i lvl msg t # es) = follow p n s es"
  by (rule follow_other) simp

lemma follow_change [simp]:
  "si_profile i = p \<Longrightarrow> Name (si_service i) = n \<Longrightarrow>
   follow p n s (stateChange i from to err t # es) = (if from = s then follow p n to es else None)"
  by (simp add: stateChange_def)












section \<open>The tray\<close>

text \<open>The tray's view after a run of envelopes, and the state it shows of a service.\<close>

definition apply_all :: "(string \<Rightarrow> string) \<Rightarrow> event list \<Rightarrow> tray \<Rightarrow> tray" where
  "apply_all quote evts t = fold (\<lambda>e t. snd (tray_apply (eventToEnvelope quote e) t)) evts t"

definition shown :: "tray \<Rightarrow> string \<Rightarrow> string \<Rightarrow> string option" where
  "shown t p n = map_option te_state (svc_lookup t p n)"

lemma apply_all_simps [simp]:
  "apply_all quote [] t = t"
  "apply_all quote (e # es) t = apply_all quote es (snd (tray_apply (eventToEnvelope quote e) t))"
  by (simp_all add: apply_all_def)

lemma shown_tray_apply:
  "shown (snd (tray_apply (eventToEnvelope quote e) t)) p n =
     (if about p n e then Some (state_String (evt_To e)) else shown t p n)"
  by (cases e)
    (auto simp: tray_apply_def no_envelope_def kind_defs apply_state_def apply_creds_def getOrCreateProfileLocked_def
      shown_def svc_lookup_def set_profile_def set_service_def new_profile_def Let_def split: option.splits)




section \<open>A late event\<close>

text \<open>The sample service just after its loop has committed a connection.\<close>

lemma committed:
  "\<exists>x w. run_for pinned (\<lambda>_. good) 12 (R_top, sample_shared) = (R_connected 40000 0, w) \<and>
    runs_ok pinned (\<lambda>_. good) 12 (R_top, sample_shared) \<and> \<not> cancelled w \<and> serving 0 (si w) \<and>
    si_profile (si w) = ''dev'' \<and> si_service (si w) = sample_service ''db'' \<and> sessions w = [Live] \<and> proxies w = [True] \<and>
    si_tcpProxy (si w) = Some 0 \<and>
    emitted w = [stateChange sample_instance Disconnected Starting None 0] \<and> ips w = \<lparr>assigned = [(x, ''dev/db'')]\<rparr>"
proof -
  obtain x where x: "Allocate ''dev/db'' alloc_New = (Inr (loopback x), \<lparr>assigned = [(x, ''dev/db'')]\<rparr>)"
    using first_allocation by blast
  then show ?thesis
    by (simp add: service_key_def eval_nat_numeral sample_shared_def sample_instance_def new_instance_def transition_def
        emit_one_def set_si_def allocate_ip_def svc_key_def log_call_def good_def sample_service_def dns_step_def
        resolve_step_def Resolve_def sample_profile_def start_session_step_def start_proxy_step_def commit_step_def
        serving_def stateChange_def)
qed

lemma stopped_between:
  assumes "serving 0 (si w)" and "si_profile (si w) = ''dev''" and "si_service (si w) = sample_service ''db''"
    and "sessions w = [Live]" and "proxies w = [True]" and "si_tcpProxy (si w) = Some 0" and "ips w = \<lparr>assigned = [(x, ''dev/db'')]\<rparr>"
  shows "\<exists>w'. stop_for (\<lambda>_. good) 17 (S_cancel, w) = (S_done, w') \<and> cancelled w' \<and> si_state (si w') = Disconnected \<and>
    si_profile (si w') = ''dev'' \<and> si_service (si w') = sample_service ''db'' \<and> sessions w' = [Ended None] \<and>
    emitted w' = emitted w @ [stateChange (si w) Connected Stopping None 0, stateChange (si w) Stopping Disconnected None 0]"
proof -
  have "Allocate ''dev/db'' \<lparr>assigned = [(x, ''dev/db'')]\<rparr> = (Inr (loopback x), \<lparr>assigned = [(x, ''dev/db'')]\<rparr>)"
    by (simp add: Allocate_def owner_octet_def alloc_Allocate_def)
  with assms show ?thesis
    by (simp add: serving_def service_key_def eval_nat_numeral stopping_step_def transition_def stop_session_def stop_proxy_def
        emit_one_def set_si_def allocate_ip_def svc_key_def log_call_def good_def sample_service_def stateChange_def)
qed

lemma shown_last:
  "about p n e \<Longrightarrow> \<not> about p n e' \<Longrightarrow> shown (apply_all quote (es @ [e, e']) t) p n = Some (state_String (evt_To e))"
proof -
  assume about: "about p n e" "\<not> about p n e'"
  have "apply_all quote (es @ [e, e']) t =
      snd (tray_apply (eventToEnvelope quote e') (snd (tray_apply (eventToEnvelope quote e) (apply_all quote es t))))"
    by (simp add: apply_all_def)
  then show ?thesis using about by (simp only: shown_tray_apply if_True if_False)
qed

lemma event_comes_late:
  assumes "cancelled w" and "si_state (si w) = Disconnected" and "sessions w = [Ended None]"
    and "si_profile (si w) = ''dev''" and "si_service (si w) = sample_service ''db''"
  shows "\<exists>w'. run_for pinned (\<lambda>_. good) 6 (R_connected 40000 0, w) = (R_done, w') \<and>
    runs_ok pinned (\<lambda>_. good) 6 (R_connected 40000 0, w) \<and> si_state (si w') = Disconnected \<and>
    si_profile (si w') = ''dev'' \<and> si_service (si w') = sample_service ''db'' \<and>
    shown (apply_all quote (emitted w') newTray) ''dev'' ''db'' = Some ''Connected''"
proof -
  have "\<exists>w'. run_for pinned (\<lambda>_. good) 6 (R_connected 40000 0, w) = (R_done, w') \<and>
      runs_ok pinned (\<lambda>_. good) 6 (R_connected 40000 0, w) \<and> si_state (si w') = Disconnected \<and>
      si_profile (si w') = ''dev'' \<and> si_service (si w') = sample_service ''db'' \<and>
      (\<exists>lg. emitted w' = emitted w @ [stateChange (si w) Starting Connected None 0, logEntry (si w) Info lg 0])"
    using assms by (simp add: eval_nat_numeral connected_step_def set_si_def emit_one_def stateChange_def logEntry_def good_def)
  moreover have "shown (apply_all quote (es @ [stateChange (si w) Starting Connected None 0, logEntry (si w) Info lg 0]) newTray)
      ''dev'' ''db'' = Some ''Connected''" for es lg
    using assms(4,5)
    by (subst shown_last) (simp_all add: stateChange_def sample_service_def state_String_def stateNames_def)
  ultimately show ?thesis by metis
qed

text \<open>
  C24: A stopped service can look connected. The loop emits its change to Connected after it released
  the instance, so a whole stop fits in between: below, both are done, the service is Disconnected, yet
  the change to Connected is the last one emitted, and a tray that applied the events in their order
  shows Connected.
\<close>

theorem stopped_service_shown_connected:
  "\<exists>s. reachable pinned s \<and> rt s = R_done \<and> stoppers s = [S_done] \<and> si_state (si (sh s)) = Disconnected \<and>
    si_profile (si (sh s)) = ''dev'' \<and> Name (si_service (si (sh s))) = ''db'' \<and>
    shown (apply_all quote (emitted (sh s)) newTray) ''dev'' ''db'' = Some ''Connected''"
proof -
  obtain x w where w: "run_for pinned (\<lambda>_. good) 12 (R_top, sample_shared) = (R_connected 40000 0, w)"
    "runs_ok pinned (\<lambda>_. good) 12 (R_top, sample_shared)" "serving 0 (si w)" "si_profile (si w) = ''dev''"
    "si_service (si w) = sample_service ''db''" "sessions w = [Live]" "proxies w = [True]" "si_tcpProxy (si w) = Some 0"
    "emitted w = [stateChange sample_instance Disconnected Starting None 0]" "ips w = \<lparr>assigned = [(x, ''dev/db'')]\<rparr>"
    using committed by blast
  define s1 where "s1 = sample_system\<lparr>rt := R_connected 40000 0, sh := w, stoppers := [S_cancel]\<rparr>"
  have "reachable pinned (sample_system\<lparr>rt := R_connected 40000 0, sh := w\<rparr>)"
    using run_for_reachable [OF sample_reachable, of pinned "\<lambda>_. good" 12] w(1,2) by (simp add: sample_system_def)
  then have s1: "reachable pinned s1"
    using reachable.more [OF _ step.new_stop] by (fastforce simp: s1_def sample_system_def)
  obtain w2 where w2: "stop_for (\<lambda>_. good) 17 (S_cancel, w) = (S_done, w2)" "cancelled w2" "si_state (si w2) = Disconnected"
    "si_profile (si w2) = ''dev''" "si_service (si w2) = sample_service ''db''" "sessions w2 = [Ended None]"
    "emitted w2 = emitted w @ [stateChange (si w) Connected Stopping None 0, stateChange (si w) Stopping Disconnected None 0]"
    using stopped_between [OF w(3-8,10)] by blast
  define s2 where "s2 = s1\<lparr>stoppers := [S_done], sh := w2\<rparr>"
  have s2: "reachable pinned s2"
    unfolding s2_def using w2(1)
    by (intro stop_for_reachable [OF s1, of S_cancel "\<lambda>_. good" 17]) (simp_all add: s1_def)
  obtain w3 where w3: "run_for pinned (\<lambda>_. good) 6 (R_connected 40000 0, w2) = (R_done, w3)"
    "runs_ok pinned (\<lambda>_. good) 6 (R_connected 40000 0, w2)" "si_state (si w3) = Disconnected"
    "si_profile (si w3) = ''dev''" "si_service (si w3) = sample_service ''db''"
    "shown (apply_all quote (emitted w3) newTray) ''dev'' ''db'' = Some ''Connected''"
    using event_comes_late [OF w2(2,3,6,4,5)] by blast
  have "reachable pinned (s2\<lparr>rt := R_done, sh := w3\<rparr>)"
    using run_for_reachable [OF s2, of "\<lambda>_. good" 6] w3(1,2) by (simp add: s2_def s1_def)
  then show ?thesis
    using w3(3-6) by (intro exI [of _ "s2\<lparr>rt := R_done, sh := w3\<rparr>"]) (simp add: s2_def s1_def sample_service_def)
qed

end
