(* ===== verification/Session_Group.thy ===== *)
theory Session_Group
  imports Session_Manager
begin

text \<open>
  The process group of a session and everybody who signals it: the goroutine that waits for \<open>aws\<close> and
  clears up after it (\<open>wait\<close>, \<open>terminateGroup\<close>), any number of calls of \<open>Stop\<close>, and the \<open>Cancel\<close>
  function that \<open>os/exec\<close> calls when the context of \<open>Start\<close> ends. The operating system decides when
  members exit or fork, whether a signal may be sent, and when the number of a group with no member
  left is given to another group. \<open>g_doomed\<close> says that SIGKILL was delivered to the group: every member
  of that moment is about to die and forks no more. \<open>g_clock\<close> is the latest time the waiting goroutine
  knows of, and \<open>g_failed\<close> that the system refused somebody a signal.
\<close>

section \<open>The group\<close>

datatype leader = Running | Zombie | Reaped

datatype kill_target = Own | Nobody | Foreign

datatype wait_pc = W_waiting | W_collect | W_term | W_look | W_poll instant | W_sleep instant | W_kill | W_close | W_done

datatype stop_pc = St_enter | St_term | St_waiting | St_kill | St_grace | St_returned "go_error option"

record Group =
  g_leader :: leader
  g_others :: nat
  g_recycled :: bool
  g_cancelled :: bool
  g_cancel_called :: bool
  g_wait :: wait_pc
  g_stops :: "stop_pc list"
  g_log :: "(signal \<times> kill_target) list"
  g_failed :: bool
  g_doomed :: bool
  g_clock :: instant

text \<open>\<open>SSMManager.Start\<close>: \<open>aws\<close> leads a group of its own, \<open>go s.wait()\<close>.\<close>

definition session_Start :: "go_error option \<Rightarrow> go_error + Group" where
  "session_Start start_err =
     (case start_err of
        Some err \<Rightarrow> Inl (Errorf_w ''starting SSM session'' err)
      | None \<Rightarrow> Inr \<lparr>g_leader = Running, g_others = 0, g_recycled = False, g_cancelled = False, g_cancel_called = False,
          g_wait = W_waiting, g_stops = [], g_log = [], g_failed = False, g_doomed = False, g_clock = 0\<rparr>)"

definition gone_group :: "Group \<Rightarrow> bool" where
  "gone_group g \<longleftrightarrow> g_leader g = Reaped \<and> g_others g = 0"

text \<open>Whom \<open>kill(-pid, sig)\<close> reaches. A member not yet reaped keeps the number.\<close>

definition kill_reaches :: "Group \<Rightarrow> kill_target" where
  "kill_reaches g = (if \<not> gone_group g then Own else if g_recycled g then Foreign else Nobody)"

definition kill_answer :: "go_error option \<Rightarrow> Group \<Rightarrow> kill_result" where
  "kill_answer denied g =
     (if kill_reaches g = Nobody then Kill_ESRCH
      else case denied of Some err \<Rightarrow> Kill_error err | None \<Rightarrow> Kill_ok)"

text \<open>\<open>signalGroup\<close> on the group; a signal that was sent is logged.\<close>

definition signal_group :: "signal \<Rightarrow> go_error option \<Rightarrow> Group \<Rightarrow> go_error option \<times> Group" where
  "signal_group sig denied g =
     (signalGroup (kill_answer denied g),
      if kill_answer denied g = Kill_ok then g\<lparr>g_log := g_log g @ [(sig, kill_reaches g)], g_doomed := g_doomed g \<or> sig = SIGKILL \<and> kill_reaches g = Own\<rparr>
      else if kill_answer denied g = Kill_ESRCH then g else g\<lparr>g_failed := True\<rparr>)"

definition groupAlive :: "go_error option \<Rightarrow> Group \<Rightarrow> bool" where
  "groupAlive denied g \<longleftrightarrow> kill_answer denied g = Kill_ok"

text \<open>A look at the group that the system does not permit counts as its absence.\<close>

definition look :: "go_error option \<Rightarrow> wait_pc \<Rightarrow> Group \<Rightarrow> wait_pc \<times> Group" where
  "look denied alive_pc g =
     (if groupAlive denied g then alive_pc else W_close,
      if kill_answer denied g = Kill_ok \<or> kill_answer denied g = Kill_ESRCH then g else g\<lparr>g_failed := True\<rparr>)"

section \<open>Steps\<close>

text \<open>
  The waiting goroutine, \<open>now\<close> the time at its step. \<open>cmd.Wait\<close> reaps the leader, then waits for the
  pipes at most \<open>WaitDelay\<close>. Once the group was seen alive the deadline is two seconds off; until the
  clock has passed it the goroutine sleeps for 20 ms, no less, and looks again.
\<close>

definition poll_interval :: duration where
  "poll_interval = 20 * millisecond"

fun wait_step :: "instant \<Rightarrow> go_error option \<Rightarrow> wait_pc \<times> Group \<Rightarrow> wait_pc \<times> Group" where
  "wait_step now denied (W_waiting, g) =
     (if g_leader g = Zombie then (W_collect, g\<lparr>g_leader := Reaped\<rparr>) else (W_waiting, g))"
| "wait_step now denied (W_collect, g) = (W_term, g)"
| "wait_step now denied (W_term, g) =
     (case signal_group SIGTERM denied g of (Some err, g) \<Rightarrow> (W_close, g) | (None, g) \<Rightarrow> (W_look, g))"
| "wait_step now denied (W_look, g) = look denied (W_poll (now + groupGrace)) (g\<lparr>g_clock := now\<rparr>)"
| "wait_step now denied (W_poll deadline, g) =
     (if now < deadline then (W_sleep deadline, g\<lparr>g_clock := now + poll_interval\<rparr>) else (W_kill, g))"
| "wait_step now denied (W_sleep deadline, g) = look denied (W_poll deadline) g"
| "wait_step now denied (W_kill, g) = (W_close, snd (signal_group SIGKILL denied g))"
| "wait_step now denied (W_close, g) = (W_done, g)"
| "wait_step now denied (W_done, g) = (W_done, g)"

definition wait_enabled :: "Group \<Rightarrow> bool" where
  "wait_enabled g \<longleftrightarrow> g_wait g \<noteq> W_done \<and> (g_wait g = W_waiting \<longrightarrow> g_leader g = Zombie)"

text \<open>
  \<open>Stop\<close>. Where \<open>select\<close> finds both the session done and the context or the timer over, Go picks
  either; \<open>pick_done\<close> says which.
\<close>

fun stopper_step :: "bool \<Rightarrow> go_error option \<Rightarrow> go_error \<Rightarrow> stop_pc \<times> Group \<Rightarrow> stop_pc \<times> Group" where
  "stopper_step pick_done denied ctx_err (St_enter, g) =
     (if g_wait g = W_done then St_returned None else St_term, g)"
| "stopper_step pick_done denied ctx_err (St_term, g) =
     (case signal_group SIGTERM denied g of
        (Some err, g) \<Rightarrow> (St_returned (Some (Errorf_w ''sending SIGTERM'' err)), g)
      | (None, g) \<Rightarrow> (St_waiting, g))"
| "stopper_step pick_done denied ctx_err (St_waiting, g) =
     (if g_wait g = W_done \<and> pick_done then St_returned None else St_kill, g)"
| "stopper_step pick_done denied ctx_err (St_kill, g) =
     (case signal_group SIGKILL denied g of
        (Some err, g) \<Rightarrow> (St_returned (Some (Errorf_w ''sending SIGKILL'' err)), g)
      | (None, g) \<Rightarrow> (St_grace, g))"
| "stopper_step pick_done denied ctx_err (St_grace, g) = (St_returned (Some ctx_err), g)"
| "stopper_step pick_done denied ctx_err (St_returned e, g) = (St_returned e, g)"

inductive group_step :: "Group \<Rightarrow> Group \<Rightarrow> bool" where
  gs_wait: "wait_enabled g \<Longrightarrow> g_clock g \<le> now \<Longrightarrow> wait_step now denied (g_wait g, g) = (pc, g') \<Longrightarrow>
    group_step g (g'\<lparr>g_wait := pc\<rparr>)"
| gs_call: "group_step g (g\<lparr>g_stops := g_stops g @ [St_enter]\<rparr>)"
| gs_stop: "i < length (g_stops g) \<Longrightarrow> stopper_step pick_done denied ctx_err (g_stops g ! i, g) = (pc, g') \<Longrightarrow>
    group_step g (g'\<lparr>g_stops := (g_stops g)[i := pc]\<rparr>)"
| gs_context: "group_step g (g\<lparr>g_cancelled := True\<rparr>)"
| gs_cancel: "g_cancelled g \<Longrightarrow> \<not> g_cancel_called g \<Longrightarrow> g_wait g \<in> {W_waiting, W_collect} \<Longrightarrow>
    signal_group SIGTERM denied g = (e, g') \<Longrightarrow> group_step g (g'\<lparr>g_cancel_called := True\<rparr>)"
| gs_exits: "g_leader g = Running \<Longrightarrow> group_step g (g\<lparr>g_leader := Zombie\<rparr>)"
| gs_forks: "g_leader g = Running \<or> 0 < g_others g \<Longrightarrow> \<not> g_doomed g \<Longrightarrow> group_step g (g\<lparr>g_others := Suc (g_others g)\<rparr>)"
| gs_leaves: "0 < g_others g \<Longrightarrow> group_step g (g\<lparr>g_others := g_others g - 1\<rparr>)"
| gs_recycles: "gone_group g \<Longrightarrow> group_step g (g\<lparr>g_recycled := r\<rparr>)"

inductive_cases group_stepE: "group_step g g'"

inductive group_reachable :: "Group \<Rightarrow> bool" where
  gr_start: "session_Start None = Inr g \<Longrightarrow> group_reachable g"
| gr_more: "group_reachable g \<Longrightarrow> group_step g g' \<Longrightarrow> group_reachable g'"

section \<open>The end of a session\<close>

lemmas group_defs = signal_group_def look_def groupAlive_def kill_answer_def kill_reaches_def gone_group_def signalGroup_def

text \<open>The sleeps that fit before a deadline, and the steps the waiting goroutine has left at most.\<close>

definition sleeps :: "duration \<Rightarrow> nat" where
  "sleeps d = nat ((d + poll_interval - 1) div poll_interval)"

lemma sleeps_less: "now < deadline \<Longrightarrow> clock \<le> now \<Longrightarrow> sleeps (deadline - (now + poll_interval)) < sleeps (deadline - clock)"
  unfolding sleeps_def poll_interval_def millisecond_def by simp linarith

lemma sleeps_mono: "d \<le> d' \<Longrightarrow> sleeps d \<le> sleeps d'"
  by (simp add: sleeps_def poll_interval_def millisecond_def zdiv_mono1 nat_mono)

lemma sleeps_grace: "sleeps groupGrace = 100"
  by (simp add: sleeps_def groupGrace_def poll_interval_def millisecond_def second_eq)

fun wait_left :: "wait_pc \<Rightarrow> instant \<Rightarrow> nat" where
  "wait_left W_waiting clock = 207"
| "wait_left W_collect clock = 206"
| "wait_left W_term clock = 205"
| "wait_left W_look clock = 204"
| "wait_left (W_poll deadline) clock = 3 + 2 * sleeps (deadline - clock)"
| "wait_left (W_sleep deadline) clock = 4 + 2 * sleeps (deadline - clock)"
| "wait_left W_kill clock = 2"
| "wait_left W_close clock = 1"
| "wait_left W_done clock = 0"

lemma signal_clock [simp]: "g_clock (snd (signal_group sig denied g)) = g_clock g"
  by (simp add: signal_group_def)

lemma wait_progress:
  assumes "wait_enabled g" and "g_clock g \<le> now" and "wait_step now denied (g_wait g, g) = (pc, g')"
  shows "wait_left pc (g_clock g') < wait_left (g_wait g) (g_clock g)"
  using assms
  by (cases "(now, denied, (g_wait g, g))" rule: wait_step.cases)
    (auto simp: wait_enabled_def look_def sleeps_grace sleeps_less [THEN Suc_lessI] split: option.splits prod.splits if_splits
      dest: sleeps_less)

text \<open>What clearing up has achieved, and what the answers of \<open>Stop\<close> say.\<close>

definition cleared :: "Group \<Rightarrow> bool" where
  "cleared g \<longleftrightarrow> gone_group g \<or> g_doomed g \<or> g_failed g"

definition group_ok :: "Group \<Rightarrow> bool" where
  "group_ok g \<longleftrightarrow> (g_wait g \<noteq> W_waiting \<longrightarrow> g_leader g = Reaped) \<and> (g_wait g \<in> {W_close, W_done} \<longrightarrow> cleared g) \<and>
     (St_returned None \<in> set (g_stops g) \<longrightarrow> g_wait g = W_done) \<and>
     (\<forall>d. g_wait g \<in> {W_poll d, W_sleep d} \<longrightarrow> d - g_clock g \<le> groupGrace) \<and> (g_doomed g \<longrightarrow> (SIGKILL, Own) \<in> set (g_log g))"

lemma signal_cleared:
  "signal_group sig denied g = (e, g') \<Longrightarrow> (cleared g \<longrightarrow> cleared g') \<and> (sig = SIGKILL \<or> e \<noteq> None \<longrightarrow> cleared g') \<and>
    g_leader g' = g_leader g \<and> g_wait g' = g_wait g \<and> g_stops g' = g_stops g \<and> g_clock g' = g_clock g \<and>
    g_others g' = g_others g \<and> (g_doomed g \<longrightarrow> g_doomed g') \<and>
    ((g_doomed g \<longrightarrow> (SIGKILL, Own) \<in> set (g_log g)) \<longrightarrow> g_doomed g' \<longrightarrow> (SIGKILL, Own) \<in> set (g_log g'))"
  by (cases denied) (auto simp: cleared_def group_defs split: if_splits)

lemma look_cases:
  assumes "look denied alive_pc g = (pc, g')"
  obtains "pc = alive_pc" and "g' = g" | "pc = W_close" and "cleared g'" and "g' = g \<or> g' = g\<lparr>g_failed := True\<rparr>"
  using assms by (cases "kill_answer denied g") (auto simp: look_def groupAlive_def cleared_def kill_answer_def kill_reaches_def
    split: if_splits option.splits)

text \<open>What a step of the waiting goroutine leaves alone, and what it establishes.\<close>

lemma wait_step_frame:
  assumes "wait_step now denied (wpc, g) = (pc, g')" and "wpc \<noteq> W_waiting"
  shows "g_leader g' = g_leader g \<and> g_stops g' = g_stops g \<and> g_others g' = g_others g \<and> (g_doomed g \<longrightarrow> g_doomed g') \<and>
    ((g_doomed g \<longrightarrow> (SIGKILL, Own) \<in> set (g_log g)) \<longrightarrow> g_doomed g' \<longrightarrow> (SIGKILL, Own) \<in> set (g_log g')) \<and>
    (pc \<in> {W_close, W_done} \<longrightarrow> wpc \<in> {W_close, W_done} \<and> g' = g \<or> cleared g') \<and> pc \<noteq> W_waiting"
  using assms signal_cleared [of SIGKILL denied g, OF prod.collapse [symmetric]]
  by (cases "(now, denied, (wpc, g))" rule: wait_step.cases)
    (auto dest!: signal_cleared elim!: look_cases split: option.splits prod.splits if_splits)

lemma wait_step_deadline:
  assumes "wait_step now denied (wpc, g) = (pc, g')" and "g_clock g \<le> now" and "pc \<in> {W_poll d, W_sleep d}"
    and "\<And>d. wpc \<in> {W_poll d, W_sleep d} \<Longrightarrow> d - g_clock g \<le> groupGrace"
  shows "d - g_clock g' \<le> groupGrace"
  using assms
  by (cases "(now, denied, (wpc, g))" rule: wait_step.cases)
    (auto elim!: look_cases simp: poll_interval_def millisecond_def split: option.splits prod.splits if_splits)

lemma wait_step_ok:
  assumes "group_ok g" and "wait_enabled g" and "g_clock g \<le> now" and "wait_step now denied (g_wait g, g) = (pc, g')"
  shows "group_ok (g'\<lparr>g_wait := pc\<rparr>)"
proof (cases "g_wait g = W_waiting")
  case True
  then show ?thesis using assms by (auto simp: wait_enabled_def group_ok_def cleared_def)
next
  case False
  note f = wait_step_frame [OF assms(4) False] and d = wait_step_deadline [OF assms(4,3)]
  have "d - g_clock g' \<le> groupGrace" if "pc = W_poll d \<or> pc = W_sleep d" for d
    using d [of d] that assms(1) by (auto simp: group_ok_def)
  then show ?thesis
    using f assms(1,2) False by (auto simp: group_ok_def wait_enabled_def cleared_def gone_group_def)
qed

lemma stopper_step_frame:
  assumes "stopper_step pick_done denied ctx_err (st, g) = (pc, g')"
  shows "g_leader g' = g_leader g \<and> g_wait g' = g_wait g \<and> g_clock g' = g_clock g \<and> g_others g' = g_others g \<and>
    (cleared g \<longrightarrow> cleared g') \<and> (g_doomed g \<longrightarrow> g_doomed g') \<and>
    ((g_doomed g \<longrightarrow> (SIGKILL, Own) \<in> set (g_log g)) \<longrightarrow> g_doomed g' \<longrightarrow> (SIGKILL, Own) \<in> set (g_log g')) \<and>
    (pc = St_returned None \<longrightarrow> g_wait g = W_done \<or> st = St_returned None)"
  using assms
  by (cases "(pick_done, denied, ctx_err, (st, g))" rule: stopper_step.cases)
    (auto dest: signal_cleared split: option.splits prod.splits if_splits)

lemma cleared_update [simp]:
  "cleared (g\<lparr>g_stops := x0\<rparr>) = cleared g" "cleared (g\<lparr>g_wait := x1\<rparr>) = cleared g"
  "cleared (g\<lparr>g_cancel_called := x2\<rparr>) = cleared g"
  by (simp_all add: cleared_def gone_group_def)

lemma group_ok_frame:
  assumes "group_ok g" and "g_wait g' = g_wait g" and "g_clock g' = g_clock g"
    and "g_leader g = Reaped \<Longrightarrow> g_leader g' = Reaped" and "cleared g \<Longrightarrow> cleared g'"
    and "St_returned None \<in> set (g_stops g') \<Longrightarrow> St_returned None \<in> set (g_stops g) \<or> g_wait g = W_done"
    and "g_doomed g \<longrightarrow> (SIGKILL, Own) \<in> set (g_log g) \<Longrightarrow> g_doomed g' \<Longrightarrow> (SIGKILL, Own) \<in> set (g_log g')"
  shows "group_ok g'"
  unfolding group_ok_def assms(2,3) using assms(1,4-7) [unfolded group_ok_def] by blast

lemma group_step_ok:
  assumes "group_step g g'" and "group_ok g"
  shows "group_ok g'"
  using assms(1)
proof cases
  case (gs_wait now denied pc h)
  then show ?thesis using wait_step_ok [OF assms(2)] by simp
next
  case (gs_stop i pick_done denied ctx_err pc h)
  note f = stopper_step_frame [OF gs_stop(3)]
  have "g_wait g = W_done" if ret: "St_returned None \<in> set ((g_stops g)[i := pc])"
  proof (cases "St_returned None \<in> set (g_stops g)")
    case True
    then show ?thesis using assms(2) by (simp add: group_ok_def)
  next
    case False
    then have "pc = St_returned None" "g_stops g ! i \<noteq> St_returned None"
      using ret nth_mem [OF gs_stop(2)] set_update_subset_insert [of "g_stops g" i pc] by auto
    then show ?thesis using f by simp
  qed
  then show ?thesis
    unfolding gs_stop(1) using f by (intro group_ok_frame [OF assms(2)]) simp_all
next
  case (gs_cancel denied e h)
  then show ?thesis
    using signal_cleared [OF gs_cancel(5)] unfolding gs_cancel(1) by (intro group_ok_frame [OF assms(2)]) simp_all
qed (use assms(2) in \<open>auto simp: cleared_def gone_group_def intro!: group_ok_frame [OF assms(2)]\<close>)

lemma group_ok_reachable: "group_reachable g \<Longrightarrow> group_ok g"
proof (induction rule: group_reachable.induct)
  case (gr_start g)
  then show ?case by (auto simp: session_Start_def group_ok_def)
next
  case (gr_more g g')
  then show ?case by (blast intro: group_step_ok)
qed

text \<open>Only \<open>cmd.Wait\<close> reaps \<open>aws\<close>.\<close>

lemma reaped_step: "group_step g g' \<Longrightarrow> (g_leader g = Reaped \<longrightarrow> g_wait g \<noteq> W_waiting) \<Longrightarrow>
    g_leader g' = Reaped \<longrightarrow> g_wait g' \<noteq> W_waiting"
proof (erule group_stepE)
  fix now denied pc h
  assume "g_leader g = Reaped \<longrightarrow> g_wait g \<noteq> W_waiting" "g' = h\<lparr>g_wait := pc\<rparr>" "wait_enabled g"
    "wait_step now denied (g_wait g, g) = (pc, h)"
  then show ?thesis
    by (cases "(now, denied, (g_wait g, g))" rule: wait_step.cases)
      (auto simp: wait_enabled_def look_def split: option.splits prod.splits if_splits)
next
  fix i pick_done denied ctx_err pc h
  assume "g_leader g = Reaped \<longrightarrow> g_wait g \<noteq> W_waiting" "g' = h\<lparr>g_stops := (g_stops g)[i := pc]\<rparr>"
    "stopper_step pick_done denied ctx_err (g_stops g ! i, g) = (pc, h)"
  then show ?thesis using stopper_step_frame by fastforce
next
  fix denied e h
  assume "g_leader g = Reaped \<longrightarrow> g_wait g \<noteq> W_waiting" "g' = h\<lparr>g_cancel_called := True\<rparr>"
    "signal_group SIGTERM denied g = (e, h)"
  then show ?thesis using signal_cleared [of SIGTERM denied g e h] by simp
qed auto

lemma reaped_only_by_wait: "group_reachable g \<Longrightarrow> g_leader g = Reaped \<longrightarrow> g_wait g \<noteq> W_waiting"
proof (induction rule: group_reachable.induct)
  case (gr_start g)
  then show ?case by (auto simp: session_Start_def)
next
  case (gr_more g g')
  then show ?case using reaped_step by blast
qed

text \<open>Whatever step anybody takes, the waiting goroutine gets no further from its end.\<close>

lemma group_step_left:
  assumes "group_step g g'"
  shows "wait_left (g_wait g') (g_clock g') \<le> wait_left (g_wait g) (g_clock g) \<and>
    (g_doomed g \<longrightarrow> g_doomed g' \<and> g_others g' \<le> g_others g)"
  using assms
proof cases
  case (gs_wait now denied pc h)
  have "g_others h = g_others g \<and> (g_doomed g \<longrightarrow> g_doomed h)"
    using wait_step_frame [OF gs_wait(4)] gs_wait(4) by (cases "g_wait g = W_waiting") (auto split: if_splits)
  then show ?thesis using wait_progress [OF gs_wait(2-4)] by (simp add: gs_wait(1))
next
  case (gs_stop i pick_done denied ctx_err pc h)
  then show ?thesis using stopper_step_frame [OF gs_stop(3)] by simp
next
  case (gs_cancel denied e h)
  then show ?thesis using signal_cleared [OF gs_cancel(5)] by simp
qed simp_all

text \<open>
  C18: A session does not leave its plugin behind. Whoever signals and dies in between: once the session
  is done, its process group has no member left, or SIGKILL was delivered to it, which every remaining
  member has got, since from then on no member is added, or the system refused a signal (nothing else
  is possible); a \<open>Stop\<close> that reports success returned from a session that is done; and once \<open>aws\<close> has
  exited the session gets done by itself: its own goroutine never waits for anybody else, the steps of
  the others do not set it back, and by the two seconds of the grace period and its sleeps of at least
  20 ms it needs at most 207 steps.
\<close>

theorem session_takes_its_group_along:
  assumes "group_reachable g"
  shows "(g_wait g = W_done \<longrightarrow> gone_group g \<or> g_doomed g \<or> g_failed g) \<and>
    (g_doomed g \<longrightarrow> (SIGKILL, Own) \<in> set (g_log g) \<and> (\<forall>g'. group_step g g' \<longrightarrow> g_doomed g' \<and> g_others g' \<le> g_others g)) \<and>
    (St_returned None \<in> set (g_stops g) \<longrightarrow> g_wait g = W_done) \<and>
    (g_leader g \<noteq> Running \<and> g_wait g \<noteq> W_done \<longrightarrow> wait_enabled g \<and> wait_left (g_wait g) (g_clock g) \<le> 207 \<and>
       (\<forall>now denied pc g'. g_clock g \<le> now \<and> wait_step now denied (g_wait g, g) = (pc, g') \<longrightarrow>
          wait_left pc (g_clock g') < wait_left (g_wait g) (g_clock g))) \<and>
    (\<forall>g'. group_step g g' \<longrightarrow> wait_left (g_wait g') (g_clock g') \<le> wait_left (g_wait g) (g_clock g))"
proof -
  have ok: "group_ok g" by (rule group_ok_reachable [OF assms])
  have enabled: "wait_enabled g" if "g_leader g \<noteq> Running" "g_wait g \<noteq> W_done"
    using reaped_only_by_wait [OF assms] that by (cases "g_leader g") (auto simp: wait_enabled_def)
  have "wait_left (g_wait g) (g_clock g) \<le> 207"
    using ok sleeps_mono [of _ groupGrace] by (cases "g_wait g") (fastforce simp: group_ok_def sleeps_grace)+
  then show ?thesis
    using ok enabled wait_progress [of g] group_step_left [of g] unfolding group_ok_def cleared_def by blast
qed

lemma wait_reachable:
  "group_reachable g \<Longrightarrow> wait_enabled g \<Longrightarrow> g_clock g \<le> now \<Longrightarrow> wait_step now denied (g_wait g, g) = (pc, g') \<Longrightarrow>
   group_reachable (g'\<lparr>g_wait := pc\<rparr>)"
  by (blast intro: gr_more gs_wait)

text \<open>The sample: \<open>aws\<close> exits alone while a \<open>Stop\<close> has found the session still running.\<close>

definition quiet_group :: Group where
  "quiet_group = \<lparr>g_leader = Running, g_others = 0, g_recycled = False, g_cancelled = False, g_cancel_called = False,
     g_wait = W_waiting, g_stops = [], g_log = [], g_failed = False, g_doomed = False, g_clock = 0\<rparr>"

lemma sample_ends: "group_reachable (quiet_group\<lparr>g_leader := Reaped, g_wait := W_done, g_stops := [St_term]\<rparr>)"
proof -
  have "group_reachable quiet_group" by (rule gr_start) (simp add: session_Start_def quiet_group_def)
  from gr_more [OF this gs_call] have "group_reachable (quiet_group\<lparr>g_stops := [St_enter]\<rparr>)"
    by (simp add: quiet_group_def)
  from gr_more [OF this gs_stop [of 0 _ False None "Sentinel Canceled"]]
  have "group_reachable (quiet_group\<lparr>g_stops := [St_term]\<rparr>)" by (simp add: quiet_group_def)
  from gr_more [OF this gs_exits] have "group_reachable (quiet_group\<lparr>g_leader := Zombie, g_stops := [St_term]\<rparr>)"
    by (simp add: quiet_group_def)
  from wait_reachable [OF this, of 0 None]
  have "group_reachable (quiet_group\<lparr>g_leader := Reaped, g_wait := W_collect, g_stops := [St_term]\<rparr>)"
    by (simp add: quiet_group_def wait_enabled_def)
  from wait_reachable [OF this, of 0 None]
  have "group_reachable (quiet_group\<lparr>g_leader := Reaped, g_wait := W_term, g_stops := [St_term]\<rparr>)"
    by (simp add: quiet_group_def wait_enabled_def)
  from wait_reachable [OF this, of 0 None]
  have "group_reachable (quiet_group\<lparr>g_leader := Reaped, g_wait := W_look, g_stops := [St_term]\<rparr>)"
    by (simp add: quiet_group_def wait_enabled_def group_defs)
  from wait_reachable [OF this, of 0 None]
  have "group_reachable (quiet_group\<lparr>g_leader := Reaped, g_wait := W_close, g_stops := [St_term]\<rparr>)"
    by (simp add: quiet_group_def wait_enabled_def group_defs)
  from wait_reachable [OF this, of 0 None] show ?thesis
    by (simp add: quiet_group_def wait_enabled_def)
qed

theorem session_takes_its_group_along_witness:
  "\<exists>g. group_reachable g \<and> g_wait g = W_done \<and> gone_group g"
  using session_takes_its_group_along [OF sample_ends] sample_ends
  by (intro exI [of _ "quiet_group\<lparr>g_leader := Reaped, g_wait := W_done, g_stops := [St_term]\<rparr>"])
    (simp add: quiet_group_def)

text \<open>
  \<open>Stop\<close> looks whether the session is done before it signals, so that it does not signal a number that
  belongs to others by then; but the session can end and the number be given away between the look and
  the signal.
\<close>

lemma stop_signals_a_recycled_group:
  "\<exists>g. group_reachable g \<and> g_wait g = W_done \<and> g_log g = [(SIGTERM, Foreign)]"
proof -
  let ?g = "quiet_group\<lparr>g_leader := Reaped, g_recycled := True, g_wait := W_done, g_stops := [St_waiting],
      g_log := [(SIGTERM, Foreign)]\<rparr>"
  from gr_more [OF sample_ends gs_recycles [of _ True]]
  have "group_reachable (quiet_group\<lparr>g_leader := Reaped, g_recycled := True, g_wait := W_done, g_stops := [St_term]\<rparr>)"
    by (simp add: quiet_group_def gone_group_def)
  from gr_more [OF this gs_stop [of 0 _ False None "Sentinel Canceled"]]
  have "group_reachable ?g" by (simp add: quiet_group_def group_defs)
  then show ?thesis by (intro exI [of _ ?g]) (simp add: quiet_group_def)
qed

end
