(* ===== verification/Tray_Refresh.thy ===== *)
theory Tray_Refresh
  imports Tray_Theorems
begin

text \<open>
  The goroutines of the tray (\<open>dispatchEvents\<close>, \<open>debouncedRefresh\<close>, and \<open>seedStatuses\<close> as called by
  \<open>streamDaemon\<close>, \<open>periodicReseed\<close> and \<open>apply\<close>), interleaved after \<open>onReady\<close>. The view changes under
  the lock, the request for a refresh follows outside of it and is dropped when one waits already, and
  the menu is redrawn only when the timer that the request starts has fired.
\<close>

section \<open>The goroutines\<close>

datatype seed_pc = Seed_start | Seed_asked "64 word" | Seed_trigger | Seed_end

record TrayRun =
  tr_tray :: tray
  tr_refresh :: "unit chan"
  tr_pending :: bool
  tr_applied :: bool
  tr_seeds :: "seed_pc list"

text \<open>\<open>onReady\<close>, with the view its own seed left.\<close>

definition onReady :: "tray \<Rightarrow> TrayRun" where
  "onReady t = \<lparr>tr_tray = snd (buildProfilesMenu t), tr_refresh = chan_offer () (make_chan 1), tr_pending = False,
     tr_applied = False, tr_seeds = []\<rparr>"

definition triggerRefresh :: "TrayRun \<Rightarrow> TrayRun" where
  "triggerRefresh r = r\<lparr>tr_refresh := chan_offer () (tr_refresh r)\<rparr>"

text \<open>\<open>dispatchEvents\<close>: the part of \<open>apply\<close> under the lock; a reseed runs in a goroutine of its own.\<close>

definition dispatch_event :: "EventEnvelope \<Rightarrow> TrayRun \<Rightarrow> TrayRun" where
  "dispatch_event env r =
     (case tray_apply env (tr_tray r) of
        (reseed, t) \<Rightarrow> r\<lparr>tr_tray := t, tr_applied := True,
          tr_seeds := tr_seeds r @ (if reseed then [Seed_start] else [])\<rparr>)"

text \<open>\<open>seedStatuses\<close>: the baseline, the answer and the second section, the request for a refresh.\<close>

fun seed_step :: "go_error + Response \<Rightarrow> seed_pc \<times> TrayRun \<Rightarrow> seed_pc \<times> TrayRun" where
  "seed_step resp (Seed_start, r) = (Seed_asked (seed_baseline (tr_tray r)), r)"
| "seed_step resp (Seed_asked baseline, r) =
     (case seed_commit baseline resp (tr_tray r) of
        (True, t) \<Rightarrow> (Seed_trigger, r\<lparr>tr_tray := t\<rparr>)
      | (False, t) \<Rightarrow> (Seed_end, r\<lparr>tr_tray := t\<rparr>))"
| "seed_step resp (Seed_trigger, r) = (Seed_end, triggerRefresh r)"
| "seed_step resp (Seed_end, r) = (Seed_end, r)"

text \<open>\<open>debouncedRefresh\<close>, one turn of its \<open>select\<close>.\<close>

definition refresh_turn :: "debounce_input \<Rightarrow> TrayRun \<Rightarrow> TrayRun" where
  "refresh_turn i r =
     (case debounce_step i (tr_pending r, tr_tray r) of
        (pending, t) \<Rightarrow> r\<lparr>tr_pending := pending, tr_tray := t\<rparr>)"

text \<open>What leads to a redrawn menu without anything new arriving.\<close>

inductive redraw_step :: "TrayRun \<Rightarrow> TrayRun \<Rightarrow> bool" where
  rd_dispatch: "tr_applied r \<Longrightarrow> redraw_step r (triggerRefresh (r\<lparr>tr_applied := False\<rparr>))"
| rd_seed: "i < length (tr_seeds r) \<Longrightarrow> tr_seeds r ! i = Seed_trigger \<Longrightarrow> seed_step resp (Seed_trigger, r) = (pc, r') \<Longrightarrow>
    redraw_step r (r'\<lparr>tr_seeds := (tr_seeds r)[i := pc]\<rparr>)"
| rd_token: "chan_poll (tr_refresh r) = Some (u, ch) \<Longrightarrow> redraw_step r (refresh_turn Refresh_token (r\<lparr>tr_refresh := ch\<rparr>))"
| rd_timer: "tr_pending r \<Longrightarrow> redraw_step r (refresh_turn Timer_fired r)"

inductive tray_step :: "TrayRun \<Rightarrow> TrayRun \<Rightarrow> bool" where
  ts_redraw: "redraw_step r r' \<Longrightarrow> tray_step r r'"
| ts_event: "\<not> tr_applied r \<Longrightarrow> tray_step r (dispatch_event env r)"
| ts_reseed: "tray_step r (r\<lparr>tr_seeds := tr_seeds r @ [Seed_start]\<rparr>)"
| ts_seed: "i < length (tr_seeds r) \<Longrightarrow> seed_step resp (tr_seeds r ! i, r) = (pc, r') \<Longrightarrow>
    tray_step r (r'\<lparr>tr_seeds := (tr_seeds r)[i := pc]\<rparr>)"

inductive_cases redraw_stepE: "redraw_step r r'"
inductive_cases tray_stepE: "tray_step r r'"

inductive tray_reachable :: "TrayRun \<Rightarrow> bool" where
  tr_ready: "tray_reachable (onReady t)"
| tr_more: "tray_reachable r \<Longrightarrow> tray_step r r' \<Longrightarrow> tray_reachable r'"

section \<open>A drawn menu\<close>

text \<open>Every row shows its service's current label, the header and the icon the current state.\<close>

definition drawn_service :: "serviceEntry \<Rightarrow> bool" where
  "drawn_service svc \<longleftrightarrow> te_menuItem svc \<in> {None, Some (serviceLabel svc)}"

definition drawn_profile :: "profileEntry \<Rightarrow> bool" where
  "drawn_profile p \<longleftrightarrow> tp_headerItem p = None \<or>
     tp_loginItem p = Some (tp_credsExpired p) \<and> list_all (\<lambda>(n, svc). drawn_service svc) (tp_services p)"

definition drawn :: "tray \<Rightarrow> bool" where
  "drawn t \<longleftrightarrow> t_icon t = aggregateStateLocked t \<and> list_all (\<lambda>(n, p). drawn_profile p) (t_profiles t)"

lemma serviceLabel_item [simp]: "serviceLabel (svc\<lparr>te_menuItem := m\<rparr>) = serviceLabel svc"
  by (simp add: serviceLabel_def Let_def)

lemma map_snd_case: "map snd (map (\<lambda>(n, x). (n, g x)) xs) = map g (map snd xs)"
  by (induction xs) auto

lemma count_services_same:
  assumes "\<And>svc. te_state (g svc) = te_state svc"
  shows "count_services (map g svcs) f = count_services svcs f"
proof (induction svcs arbitrary: f)
  case (Cons svc svcs)
  have "count_service (g svc) f = count_service svc f" by (simp only: count_service_def assms)
  moreover have "count_services (map g svcs) = count_services svcs" by (rule ext) (rule Cons)
  ultimately show ?case by (simp only: list.map count_services.simps)
qed simp

lemma count_services_rebuild:
  "count_services (map snd (tp_services (rebuild_profile p))) f = count_services (map snd (tp_services p)) f"
proof (cases "tp_headerItem p")
  case (Some h)
  let ?g = "\<lambda>svc. if te_menuItem svc = None then svc else svc\<lparr>te_menuItem := Some (serviceLabel svc)\<rparr>"
  have "map snd (tp_services (rebuild_profile p)) = map ?g (map snd (tp_services p))"
    using Some map_snd_case [of ?g "tp_services p"] by (simp add: rebuild_profile_def del: map_map)
  then show ?thesis by (simp only:) (rule count_services_same, simp)
qed (simp add: rebuild_profile_def)

lemma count_profiles_rebuild: "count_profiles (map rebuild_profile ps) f = count_profiles ps f"
proof (induction ps arbitrary: f)
  case (Cons p ps)
  have "tp_credsExpired (rebuild_profile p) = tp_credsExpired p" by (simp add: rebuild_profile_def)
  moreover have "count_profiles (map rebuild_profile ps) = count_profiles ps" by (rule ext) (rule Cons)
  ultimately show ?case by (simp only: list.map count_profiles.simps count_services_rebuild)
qed simp

lemma aggregate_icon [simp]: "aggregateStateLocked (t\<lparr>t_icon := i\<rparr>) = aggregateStateLocked t"
  by (simp add: aggregateStateLocked_def)

lemma rebuild_draws:
  assumes "t_built t"
  shows "drawn (rebuild t)"
proof -
  have "aggregateStateLocked (rebuild t) = aggregateStateLocked t"
    using assms map_snd_case [of rebuild_profile "t_profiles t"] count_profiles_rebuild
    by (simp add: rebuild_def aggregateStateLocked_def del: map_map)
  moreover have "drawn_profile (rebuild_profile p)" for p
    by (auto simp: drawn_profile_def rebuild_profile_def drawn_service_def list_all_iff split: if_splits)
  ultimately show ?thesis
    using assms by (auto simp: drawn_def rebuild_def list_all_iff)
qed

section \<open>No change is lost\<close>

text \<open>The menu stays built.\<close>

lemma built_apply [simp]: "t_built (snd (tray_apply env t)) = t_built t"
  by (auto simp: tray_apply_def apply_state_def apply_creds_def getOrCreateProfileLocked_def Let_def set_profile_def
      split: option.splits prod.splits)

lemma built_seed_entry [simp]: "t_built (seed_entry safe st t) = t_built t"
  by (simp add: seed_entry_eq)

lemma built_fold_seed [simp]: "t_built (fold (seed_entry safe) sts t) = t_built t"
  by (induction sts arbitrary: t) simp_all

lemma built_seed_commit [simp]: "t_built (snd (seed_commit b resp t)) = t_built t"
  by (auto simp: seed_commit_def Let_def seed_absent_def split: sum.splits)

lemma built_rebuild [simp]: "t_built (rebuild t) = t_built t"
  by (simp add: rebuild_def)

lemma seed_commit_False: "seed_commit b resp t = (False, t') \<Longrightarrow> t' = t"
  by (auto simp: seed_commit_def Let_def split: sum.splits if_splits)

text \<open>A redraw is under way: a change whose request is still to come, a request, or the timer.\<close>

definition redraw_due :: "TrayRun \<Rightarrow> bool" where
  "redraw_due r \<longleftrightarrow> tr_applied r \<or> Seed_trigger \<in> set (tr_seeds r) \<or> ch_buf (tr_refresh r) \<noteq> [] \<or> tr_pending r"

definition slot_ok :: "unit chan \<Rightarrow> bool" where
  "slot_ok ch \<longleftrightarrow> \<not> ch_closed ch \<and> ch_cap ch = 1"

lemma slot_offer: "slot_ok ch \<Longrightarrow> slot_ok (chan_offer () ch) \<and> ch_buf (chan_offer () ch) \<noteq> []"
  by (auto simp: slot_ok_def chan_offer_def try_send_def)

lemma slot_poll: "chan_poll ch = Some (u, ch') \<Longrightarrow> slot_ok ch \<Longrightarrow> slot_ok ch'"
  by (auto simp: slot_ok_def chan_poll_def chan_recv_def split: list.splits if_splits)

definition refresh_ok :: "TrayRun \<Rightarrow> bool" where
  "refresh_ok r \<longleftrightarrow> t_built (tr_tray r) \<and> slot_ok (tr_refresh r) \<and> (drawn (tr_tray r) \<or> redraw_due r)"

lemmas refresh_defs = refresh_ok_def redraw_due_def triggerRefresh_def

lemma redraw_ok: "redraw_step r r' \<Longrightarrow> refresh_ok r \<Longrightarrow> refresh_ok r'"
  by (erule redraw_stepE)
    (auto simp: refresh_defs refresh_turn_def debounce_step_def rebuild_draws slot_offer dest: slot_poll)

lemma set_update_keep: "x \<in> set xs \<Longrightarrow> xs ! i \<noteq> x \<Longrightarrow> x \<in> set (xs[i := y])"
  by (metis in_set_conv_nth length_list_update nth_list_update_neq)

lemma seed_ok:
  assumes "refresh_ok r" and "i < length (tr_seeds r)" and "seed_step resp (tr_seeds r ! i, r) = (pc, r')"
  shows "refresh_ok (r'\<lparr>tr_seeds := (tr_seeds r)[i := pc]\<rparr>)"
proof (cases "tr_seeds r ! i")
  case (Seed_asked b)
  obtain ok t where c: "seed_commit b resp (tr_tray r) = (ok, t)" by fastforce
  then have "t_built t = t_built (tr_tray r)" using built_seed_commit [of b resp "tr_tray r"] by simp
  moreover have keeps: "Seed_trigger \<in> set ((tr_seeds r)[i := Seed_end])" if "Seed_trigger \<in> set (tr_seeds r)"
    using that Seed_asked by (simp add: set_update_keep)
  moreover have "Seed_trigger \<in> set ((tr_seeds r)[i := Seed_trigger])" using assms(2) by (simp add: set_update_memI)
  ultimately show ?thesis
    using assms c Seed_asked seed_commit_False [of b resp "tr_tray r" t]
    by (cases ok) (auto simp: refresh_defs)
next
  case Seed_trigger
  then show ?thesis using assms by (auto simp: refresh_defs slot_offer)
next
  case Seed_start
  moreover have "Seed_trigger \<in> set ((tr_seeds r)[i := Seed_asked x])" if "Seed_trigger \<in> set (tr_seeds r)" for x
    using that Seed_start by (simp add: set_update_keep)
  ultimately show ?thesis using assms by (auto simp: refresh_defs)
next
  case Seed_end
  then show ?thesis using assms by (auto simp: refresh_defs set_update_keep)
qed

lemma tray_step_ok: "tray_step r r' \<Longrightarrow> refresh_ok r \<Longrightarrow> refresh_ok r'"
proof (erule tray_stepE)
  assume "refresh_ok r" "redraw_step r r'"
  then show ?thesis by (blast intro: redraw_ok)
next
  fix env
  assume "refresh_ok r" "r' = dispatch_event env r"
  moreover obtain reseed t where "tray_apply env (tr_tray r) = (reseed, t)" by fastforce
  ultimately show ?thesis using built_apply [of env "tr_tray r"] by (simp add: refresh_defs dispatch_event_def)
next
  assume "refresh_ok r" "r' = r\<lparr>tr_seeds := tr_seeds r @ [Seed_start]\<rparr>"
  then show ?thesis by (auto simp: refresh_defs)
next
  fix i resp pc r2
  assume "refresh_ok r" "r' = r2\<lparr>tr_seeds := (tr_seeds r)[i := pc]\<rparr>" "i < length (tr_seeds r)"
    "seed_step resp (tr_seeds r ! i, r) = (pc, r2)"
  then show ?thesis using seed_ok by blast
qed

lemma refresh_ok_reachable: "tray_reachable r \<Longrightarrow> refresh_ok r"
proof (induction rule: tray_reachable.induct)
  case (tr_ready t)
  show ?case
    using slot_offer [of "make_chan 1"] by (simp add: refresh_defs onReady_def buildProfilesMenu_def slot_ok_def make_chan_def)
next
  case (tr_more r r')
  then show ?case by (blast intro: tray_step_ok)
qed

text \<open>The steps to a redrawn menu: request, receipt and timer for every change.\<close>

definition redraw_left :: "TrayRun \<Rightarrow> nat" where
  "redraw_left r = 3 * ((if tr_applied r then 1 else 0) + count_list (tr_seeds r) Seed_trigger) +
     2 * length (ch_buf (tr_refresh r)) + (if tr_pending r then 1 else 0)"

lemma count_list_update:
  "i < length xs \<Longrightarrow> xs ! i = x \<Longrightarrow> y \<noteq> x \<Longrightarrow> count_list xs x = Suc (count_list (xs[i := y]) x)"
proof (induction xs arbitrary: i)
  case (Cons z xs)
  then show ?case by (cases i) auto
qed simp

lemma slot_offer_length: "slot_ok ch \<Longrightarrow> length (ch_buf (chan_offer () ch)) \<le> Suc (length (ch_buf ch))"
  by (auto simp: slot_ok_def chan_offer_def try_send_def)

lemma slot_poll_length: "chan_poll ch = Some (u, ch') \<Longrightarrow> length (ch_buf ch) = Suc (length (ch_buf ch'))"
  by (auto simp: chan_poll_def chan_recv_def split: list.splits if_splits)

lemma redraw_progress:
  assumes "redraw_step r r'" and "slot_ok (tr_refresh r)"
  shows "redraw_left r' < redraw_left r"
  using assms(1)
proof (cases rule: redraw_step.cases)
  case rd_dispatch
  then show ?thesis using slot_offer_length [OF assms(2)] by (simp add: redraw_left_def triggerRefresh_def)
next
  case (rd_seed i resp pc r2)
  then show ?thesis
    using slot_offer_length [OF assms(2)] count_list_update [of i "tr_seeds r" Seed_trigger Seed_end]
    by (auto simp: redraw_left_def triggerRefresh_def)
next
  case (rd_token u ch)
  then show ?thesis using slot_poll_length by (fastforce simp: redraw_left_def refresh_turn_def debounce_step_def)
next
  case rd_timer
  then show ?thesis by (simp add: redraw_left_def refresh_turn_def debounce_step_def)
qed

lemma redraw_possible: "redraw_due r \<Longrightarrow> \<exists>r'. redraw_step r r'"
proof -
  assume due: "redraw_due r"
  consider (applied) "tr_applied r" | (seed) i where "i < length (tr_seeds r)" "tr_seeds r ! i = Seed_trigger"
    | (token) v vs where "ch_buf (tr_refresh r) = v # vs" | (timer) "tr_pending r"
    using due by (auto simp: redraw_due_def in_set_conv_nth neq_Nil_conv)
  then show ?thesis
  proof cases
    case seed
    then show ?thesis using rd_seed [of i r undefined Seed_end "triggerRefresh r"] by auto
  next
    case token
    then have "chan_poll (tr_refresh r) = Some (v, (tr_refresh r)\<lparr>ch_buf := vs\<rparr>)"
      by (simp add: chan_poll_def chan_recv_def)
    then show ?thesis using rd_token by blast
  qed (use rd_dispatch rd_timer in blast)+
qed

text \<open>What is to be shown; redrawing leaves it alone.\<close>

definition view :: "tray \<Rightarrow> (string \<times> bool \<times> (string \<times> string \<times> string) list) list" where
  "view t = map (\<lambda>(n, p). (n, tp_credsExpired p, map (\<lambda>(m, svc). (m, te_state svc, te_err svc)) (tp_services p))) (t_profiles t)"

lemma view_rebuild: "view (rebuild t) = view t"
  by (auto simp: view_def rebuild_def rebuild_profile_def split: if_splits)

lemma view_redraw: "redraw_step r r' \<Longrightarrow> view (tr_tray r') = view (tr_tray r)"
  by (erule redraw_stepE) (auto simp: triggerRefresh_def refresh_turn_def debounce_step_def view_rebuild)

text \<open>
  C33: The menu catches up with the view. However events, snapshots, requests and the timer interleave:
  if no redraw is under way, every row shows its service's current label, every login item whether
  credentials are expired, and the icon the state of the whole; and while one is under way, the tray has
  a step towards it to take and takes at most three for each change, none of them waiting for the daemon.
\<close>

theorem menu_catches_up:
  assumes "tray_reachable r"
  shows "(\<not> redraw_due r \<longrightarrow> drawn (tr_tray r)) \<and> (redraw_due r \<longrightarrow> (\<exists>r'. redraw_step r r')) \<and>
    (\<forall>r'. redraw_step r r' \<longrightarrow> redraw_left r' < redraw_left r \<and> view (tr_tray r') = view (tr_tray r)) \<and>
    redraw_left r \<le> 3 * (1 + count_list (tr_seeds r) Seed_trigger) + 2 * length (ch_buf (tr_refresh r)) + 1"
  using refresh_ok_reachable [OF assms] redraw_progress redraw_possible view_redraw
  by (auto simp: refresh_ok_def redraw_left_def)

theorem menu_catches_up_witness:
  "tray_reachable (onReady newTray) \<and> (\<exists>r. redraw_step (onReady newTray) r \<and> redraw_left r < 3)"
proof -
  have "redraw_due (onReady newTray)" "redraw_left (onReady newTray) = 2"
    by (simp_all add: redraw_due_def redraw_left_def onReady_def chan_offer_def try_send_def make_chan_def)
  then show ?thesis using menu_catches_up [OF tr_ready, of newTray] tr_ready by fastforce
qed

end
