(* ===== verification/Spec2Isabelle.thy ===== *)
theory Spec2Isabelle
  imports Service_Wiring Engine_Theorems Server_Theorems Bus Notifier Tray_Theorems Hosts_Theorems Sigv4_Proxy
    Network Setup_Theorems Cli_Theorems Daemon Service_DNS Service_Stop Event_Stream Session_Group Tray_Refresh
begin

text \<open>
  A model of holepunch, a daemon that keeps AWS SSM port-forwarding sessions alive and gives each of
  them a local DNS name, and the theorems that make it correct. Paths are relative to \<open>src/\<close>.

  \<^bold>\<open>The program.\<close> A configuration names profiles and their services. For each service that is up the
  engine runs one goroutine (\<open>runService\<close>) that takes a loopback address, registers the service's DNS
  name with it, starts an \<open>aws ssm start-session\<close> child towards the remote host, puts a proxy in front
  of the child's port, waits for the child to die, and starts over after a backoff; \<open>Stop\<close> may come at
  any time from other goroutines. Everything that happens is an event. The events go over a lossy
  channel to a bus, from there to the log, to the notifier and to the clients that follow them over a
  socket, the tray among them. The command line talks to the daemon over the same socket; \<open>setup\<close>
  prepares the machine for the addresses and names the daemon is going to use.

  \<^bold>\<open>Theories and sources.\<close>
  \<^item> Go itself, as far as the code uses it: \<open>Prelude\<close> (maps as association lists, int64, time),
    \<open>Go_Errors\<close> (wrapping, \<open>errors.Is\<close>), \<open>Go_Channels\<close> (buffered channels, closing, \<open>select\<close> with
    \<open>default\<close>), \<open>Go_Strings\<close> and \<open>Go_Format\<close> (\<open>strings\<close>, \<open>strconv\<close>, what \<open>fmt\<close> prints).
  \<^item> A service: \<open>State_Machine\<close> (\<open>internal/state/machine.go\<close>), \<open>Backoff\<close> (\<open>internal/reconnect\<close>, with
    float64 arithmetic), \<open>Ring_Buffer\<close>, \<open>Session_Errors\<close>, \<open>Session_Manager\<close> and \<open>Session_Group\<close>
    (\<open>internal/session\<close>), \<open>Bastion\<close> (\<open>internal/bastion\<close>), \<open>Ip_Allocator\<close> (\<open>internal/ip\<close>),
    \<open>Engine_Events\<close> (\<open>internal/engine/events.go\<close>), \<open>Service_Loop\<close> (\<open>runService\<close>, \<open>connect\<close>,
    \<open>stopService\<close>, \<open>DropSessions\<close> of \<open>internal/engine/engine.go\<close>).
  \<^item> The engine: \<open>Engine\<close> (\<open>New\<close>, \<open>Start\<close>, \<open>Stop\<close>, \<open>Status\<close>, selectors), \<open>Persistence\<close> (the state file),
    \<open>Config\<close> (\<open>internal/config\<close>).
  \<^item> What the engine uses: \<open>Resolver\<close> (\<open>internal/resolver\<close>), \<open>Hosts_File\<close> (\<open>internal/dns\<close>),
    \<open>Tcp_Proxy\<close> and \<open>Sigv4_Proxy\<close> (\<open>internal/proxy\<close>), \<open>Netwatch\<close> (\<open>internal/netwatch\<close>).
  \<^item> The daemon: \<open>Protocol\<close>, \<open>Client\<close>, \<open>Server\<close>, \<open>Bus\<close>, \<open>Notifier\<close>, \<open>Network\<close>, \<open>Lifecycle\<close>
    (\<open>internal/daemon\<close>) and \<open>Daemon\<close> (\<open>cmd/daemon.go\<close>, the accepting half of \<open>server.go\<close>).
  \<^item> Its users: \<open>Tray\<close> (\<open>internal/tray\<close>), \<open>Cli\<close> (\<open>cmd/up.go\<close>, \<open>down.go\<close>, \<open>restart.go\<close>, \<open>status.go\<close>,
    \<open>logs.go\<close>, \<open>tray_darwin.go\<close>), \<open>Setup\<close> (\<open>cmd/setup*.go\<close>).
  \<^item> Properties of one part are in its own theory or in \<open>..._Theorems\<close>; \<open>Service_Safety\<close> holds the
    invariants of a service, \<open>Service_Stop\<close> what a stopped one comes to, \<open>Service_Wiring\<close> what being Connected means; \<open>Probing\<close> is the argument on
    linear probing behind \<open>setup\<close>. Several parts together: \<open>Service_DNS\<close> (loop, proxy, session,
    resolver), \<open>Event_Stream\<close> (loop, envelopes, tray), \<open>Tray_Refresh\<close> (the tray's goroutines), \<open>Server_Theorems\<close> (client, protocol, server,
    engine), \<open>Cli_Theorems\<close> (command, client, server, engine), \<open>Setup_Theorems\<close> (setup, allocator,
    configuration), \<open>Network\<close> (watcher, resolver, engine).

  \<^bold>\<open>How code became definitions.\<close> Structs are records with the fields of the source, enumerations are
  datatypes, a map is an association list in some order with properties that hold for every order,
  an error is a value whose tree \<open>errors.Is\<close> searches, a panic is \<open>None\<close>. Octets, sequence numbers and
  the length prefix are words; a duration is an integer whose wrap-around is written out where it can
  happen. A goroutine is a datatype of program points with one step per critical section or per call
  that others can overtake; a shared object is a record, and an \<open>inductive\<close> relation interleaves the
  steps of all goroutines. This is so for the service loop with its stoppers and droppers (\<open>step\<close>), for
  two \<open>Start\<close>s and a \<open>Stop\<close> (\<open>starter\<close>), the handlers of the TCP proxy (\<open>px_step\<close>), the requests of the
  signing proxy (\<open>sigv4_turn\<close>), the processes of a session (\<open>group_step\<close>), the tray (\<open>tray_step\<close>), the daemon's connections
  with their clients (\<open>serve_step\<close>), and daemons starting and \<open>down\<close> commands together (\<open>daemon_step\<close>). What the operating system, AWS, a library
  or the clock answers is an argument; where a step relation needs it, every answer is possible.

  \<^bold>\<open>Interfaces.\<close> \<open>lossy_queue\<close> is the contract of a channel that drops (interpreted by Go's channel and
  used by the engine's events, the bus and the watcher), \<open>tail_buffer\<close> that of a sink which keeps the
  last bytes (the ring buffer), \<open>ip_port\<close> that of the address allocator, \<open>dns_port\<close> that of a name
  registry (the resolver's adapter), \<open>name_presence\<close> the weaker one that the hosts file still gives;
  \<open>dns_port\<close> is a sublocale of it. The properties use the facts of the interpretations \<open>chq\<close>, \<open>ring\<close>,
  \<open>ipp\<close>, \<open>adapter\<close> and \<open>hosts\<close>.

  \<^bold>\<open>What is shown.\<close>
  \<^item> A service: after a stop the loop ends within 20 steps unless a session it waits for could not be
    stopped, and when all is through no proxy is open and every session has ended or its failed stop was
    reported; while nobody stops it, a session that ends (but for expired credentials) is replaced within 29 steps, the loop gives up on expired credentials and on nothing else, every
    state change is legal, and, while nobody stops it, Connected means an open proxy in front of a session it started.
  \<^item> What a user sees, of a service nobody is stopping: the name of a connected service is answered with the address its proxy listens
    on and leads to its remote host; a tray that got its events shows the state the instance is in. The status reply
    names every configured service once, the stream delivers what it took from the bus; the icon is the
    worst of the profiles' icons (\<open>icon_worst_of\<close>, on the order of \<open>iconState\<close>) but for the partial ring,
    and no query is forwarded to the resolver's own address (\<open>upstreams_never_self\<close>).
  \<^item> The engine: \<open>Start\<close> adds exactly the selected services, \<open>Stop\<close> removes exactly the selected
    instances, the ones its selectors name, addresses are private and stable, \<open>Allocate\<close> returns, \<open>setup\<close> made an alias for
    every address the daemon can ever hand out.
  \<^item> Data: validation accepts exactly the valid configurations, messages, the hosts block and the
    state file read back what was written, the other lines of a hosts file stay byte for byte, a signed request
    is forwarded as signed but for the headers the reverse proxy owns, the ring buffer is the tail of its input.
  \<^item> Ends: a session is done once its process group is gone, was sent SIGKILL or could not be signalled, the
    TCP proxy closes everything, the daemon ends unless a client stays silent or stops reading, at most one
    daemon runs unless starts or a \<open>down\<close> overlap with a start; each with its exact condition.
  \<^item> What does not hold, as theorems on a concrete run: a stop can overtake the loop, a late event can
    show a stopped service as connected, two \<open>Start\<close>s can race, the backoff overflows.

  \<^bold>\<open>Bounds and fuel.\<close> No definition runs on fuel. Recursion is structural or has a measure (the
  reading loops consume at least four bytes a message, \<open>start_run\<close> a program point a turn). Two loops
  are \<open>partial_function (option)\<close>, where \<open>None\<close> means that they never return, with a theorem that they
  do: the probing of \<open>Allocate\<close> (after at most 253 octets) and the polling of \<open>terminateGroup\<close> (after
  at most 100 sleeps of 20 ms within its two seconds). The step counts of the liveness theorems are
  bounds on the goroutine's own steps, however the others interleave.

  \<^bold>\<open>Not modelled.\<close> The generated mocks. The declarations of cobra's commands and flags, \<open>main.go\<close> and
  process attributes: calls without logic. The
  menu-bar library, embedded icons and the goroutines that only pass its clicks on. Third-party code
  (the YAML decoder, the DNS library, the AWS clients and signer) is an argument with its documented
  behaviour as a named hypothesis where a property needs it. JSON text is an argument with its round
  trip, the struct tags and omitted fields are modelled. Data races outside the locks are modelled
  where they matter (the error variable of the signing proxy) and otherwise taken as the interleaving
  of whole accesses.
\<close>

end
